(* ===== verification/Common.thy ===== *)
theory Common
  imports Prelude
begin

text \<open>
  The crate \<open>ai-firewall-common\<close> (src/ai-firewall-common/src/lib.rs): the constants and records the
  kernel program and the daemon share. A slot number is an index of a BPF array, so a \<^typ>\<open>u32\<close>.
\<close>

section \<open>Constants\<close>

definition TCP_FLAG_FIN :: u8 where "TCP_FLAG_FIN = push_bit 0 1"
definition TCP_FLAG_SYN :: u8 where "TCP_FLAG_SYN = push_bit 1 1"
definition TCP_FLAG_RST :: u8 where "TCP_FLAG_RST = push_bit 2 1"
definition TCP_FLAG_PSH :: u8 where "TCP_FLAG_PSH = push_bit 3 1"
definition TCP_FLAG_ACK :: u8 where "TCP_FLAG_ACK = push_bit 4 1"
definition TCP_FLAG_URG :: u8 where "TCP_FLAG_URG = push_bit 5 1"

definition PROTO_TCP :: u8 where "PROTO_TCP = 6"
definition PROTO_UDP :: u8 where "PROTO_UDP = 17"

definition VERDICT_PASS :: u8 where "VERDICT_PASS = 0"
definition VERDICT_DROP_POLICY :: u8 where "VERDICT_DROP_POLICY = 1"

definition CFG_ENFORCE :: u32 where "CFG_ENFORCE = 0"
definition CFG_EPHEMERAL_LOW :: u32 where "CFG_EPHEMERAL_LOW = 1"
definition CFG_DROP_PING :: u32 where "CFG_DROP_PING = 2"
definition CFG_UDP_STRICT :: u32 where "CFG_UDP_STRICT = 3"
definition CFG_LEN :: u32 where "CFG_LEN = 4"

definition STAT_PASSED :: u32 where "STAT_PASSED = 0"
definition STAT_DROP_BLOCKLIST :: u32 where "STAT_DROP_BLOCKLIST = 1"
definition STAT_DROP_POLICY :: u32 where "STAT_DROP_POLICY = 2"
definition STAT_EVENTS_LOST :: u32 where "STAT_EVENTS_LOST = 3"
definition STAT_DROP_FEED :: u32 where "STAT_DROP_FEED = 4"
definition STAT_LEN :: u32 where "STAT_LEN = 5"

definition BAN_FOREVER :: u64 where "BAN_FOREVER = 0"
definition UDP_FLOW_TTL_NS :: u64 where "UDP_FLOW_TTL_NS = 180 * 1000000000"
definition FAMILY_V4 :: u8 where "FAMILY_V4 = 4"
definition FAMILY_V6 :: u8 where "FAMILY_V6 = 6"

lemmas tcp_flag_defs = TCP_FLAG_FIN_def TCP_FLAG_SYN_def TCP_FLAG_RST_def TCP_FLAG_PSH_def
  TCP_FLAG_ACK_def TCP_FLAG_URG_def
lemmas proto_defs = PROTO_TCP_def PROTO_UDP_def
lemmas verdict_defs = VERDICT_PASS_def VERDICT_DROP_POLICY_def
lemmas cfg_defs = CFG_ENFORCE_def CFG_EPHEMERAL_LOW_def CFG_DROP_PING_def CFG_UDP_STRICT_def CFG_LEN_def
lemmas stat_defs = STAT_PASSED_def STAT_DROP_BLOCKLIST_def STAT_DROP_POLICY_def STAT_EVENTS_LOST_def
  STAT_DROP_FEED_def STAT_LEN_def
lemmas family_defs = FAMILY_V4_def FAMILY_V6_def
lemmas const_defs = tcp_flag_defs proto_defs verdict_defs cfg_defs stat_defs family_defs
  BAN_FOREVER_def UDP_FLOW_TTL_NS_def

section \<open>Records\<close>

record udp_flow =
  remote_ip :: u32
  local_port :: u16
  remote_port :: u16

record udp_flow6 =
  remote_ip6 :: "u8 list"
  local_port6 :: u16
  remote_port6 :: u16

record packet_event =
  src6 :: u64
  src_ip :: u32
  dst_port :: u16
  src_port :: u16
  protocol :: u8
  tcp_flags :: u8
  payload_len :: u16
  verdict :: u8
  family :: u8

type_synonym rule_key = "u8 list"

record rate_state =
  rs_window_start :: u64
  rs_count :: u32

section \<open>What a packet's flags say\<close>

definition is_syn :: "packet_event \<Rightarrow> bool" where
  "is_syn ev = (tcp_flags ev AND TCP_FLAG_SYN \<noteq> 0 \<and> tcp_flags ev AND TCP_FLAG_ACK = 0)"

definition is_fin :: "packet_event \<Rightarrow> bool" where
  "is_fin ev = (tcp_flags ev AND TCP_FLAG_FIN \<noteq> 0)"

definition is_rst :: "packet_event \<Rightarrow> bool" where
  "is_rst ev = (tcp_flags ev AND TCP_FLAG_RST \<noteq> 0)"

definition is_null_scan :: "packet_event \<Rightarrow> bool" where
  "is_null_scan ev = (protocol ev = PROTO_TCP \<and> tcp_flags ev = 0)"

definition is_xmas_scan :: "packet_event \<Rightarrow> bool" where
  "is_xmas_scan ev =
     (let m = (TCP_FLAG_FIN OR TCP_FLAG_URG) OR TCP_FLAG_PSH in tcp_flags ev AND m = m)"

definition is_fin_scan :: "packet_event \<Rightarrow> bool" where
  "is_fin_scan ev = (protocol ev = PROTO_TCP \<and> is_fin ev \<and> tcp_flags ev AND TCP_FLAG_ACK = 0)"

section \<open>Packed rate limits\<close>

definition rate_pack :: "u16 \<Rightarrow> u16 \<Rightarrow> u32" where
  "rate_pack mx window_secs = push_bit 16 (ucast mx) OR ucast window_secs"

text \<open>The two halves come back out.\<close>

lemma unat_ucast_16_32: "unat (ucast (x::u16) :: u32) = unat x"
  using unat_lt2p16 [of x] by (simp add: unsigned_ucast_eq take_bit_nat_eq_self_iff)

lemma rate_pack_max: "drop_bit 16 (rate_pack m w) = ucast m"
  by (rule bit_word_eqI) (auto simp: rate_pack_def bit_simps dest: bit_imp_le_length)

lemma rate_pack_window: "rate_pack m w AND 0xffff = ucast w"
proof -
  have "(0xffff::u32) = mask 16" by (simp add: mask_eq_exp_minus_1)
  show ?thesis unfolding \<open>(0xffff::u32) = mask 16\<close>
    by (rule bit_word_eqI) (auto simp: rate_pack_def bit_simps simp del: mask_numeral dest: bit_imp_le_length)
qed

lemma rate_pack_inj: "rate_pack m w = rate_pack m' w' \<longleftrightarrow> m = m' \<and> w = w'"
proof
  assume e: "rate_pack m w = rate_pack m' w'"
  have "(ucast m :: u32) = ucast m'" using rate_pack_max [of m w] rate_pack_max [of m' w'] e by simp
  moreover have "(ucast w :: u32) = ucast w'" using rate_pack_window [of m w] rate_pack_window [of m' w'] e by simp
  ultimately have "unat m = unat m'" "unat w = unat w'" by (metis unat_ucast_16_32)+
  then show "m = m' \<and> w = w'" by (simp add: unsigned_word_eqI)
qed simp

lemma rate_pack_0: "rate_pack m w = 0 \<longleftrightarrow> m = 0 \<and> w = 0"
  using rate_pack_inj [of m w 0 0] by (simp add: rate_pack_def)

end
