(* ===== verification/Kernel.thy ===== *)
theory Kernel
  imports Common
begin

text \<open>
  The kernel side (src/ai-firewall-ebpf/src/main.rs): the XDP program that decides about every inbound
  packet and the egress classifier that records outbound UDP flows. \<open>kstate\<close> holds the BPF maps the
  programs read and write; a packet is its list of bytes, an address an offset into it, so the
  end of the packet is its length.

  \<open>kenv\<close> is what comes from outside the code: the longest-prefix lookup and the insertion
  into an LRU map (BPF helpers), whether the ring buffer has room, and one reading of the boot clock per
  call of \<open>now()\<close>. The laws the code relies on are \<open>lpm_law\<close> and \<open>lru_law\<close>. Header layouts are those of
  the wire formats (Ethernet, IPv4, IPv6, TCP, UDP).
\<close>

section \<open>Maps and environment\<close>

type_synonym trie = "(u32 \<times> u8 list) set"

record kstate =
  BLOCKLIST :: "u32 \<rightharpoonup> u64"
  BLOCKLIST6 :: "u64 \<rightharpoonup> u64"
  UDP_FLOWS :: "udp_flow \<rightharpoonup> u64"
  UDP_FLOWS6 :: "udp_flow6 \<rightharpoonup> u64"
  EVENTS :: "packet_event list"
  TCP_ALLOW :: "u32 \<rightharpoonup> u8"
  UDP_ALLOW :: "u32 \<rightharpoonup> u8"
  ALLOW_FROM_TCP :: trie
  ALLOW_FROM_UDP :: trie
  TCP_RATE :: "u32 \<rightharpoonup> u32"
  RATE_STATE :: "u64 \<rightharpoonup> rate_state"
  FEEDS :: trie
  CONFIG :: "u32 \<rightharpoonup> u32"
  STATS :: "u32 \<rightharpoonup> u64"

record kenv =
  lpm_get :: "trie \<Rightarrow> u32 \<Rightarrow> u8 list \<Rightarrow> bool"
  lru_rate :: "(u64 \<rightharpoonup> rate_state) \<Rightarrow> u64 \<Rightarrow> rate_state \<Rightarrow> (u64 \<rightharpoonup> rate_state)"
  lru_flow :: "(udp_flow \<rightharpoonup> u64) \<Rightarrow> udp_flow \<Rightarrow> u64 \<Rightarrow> (udp_flow \<rightharpoonup> u64)"
  lru_flow6 :: "(udp_flow6 \<rightharpoonup> u64) \<Rightarrow> udp_flow6 \<Rightarrow> u64 \<Rightarrow> (udp_flow6 \<rightharpoonup> u64)"
  ring_room :: bool
  t_ban :: u64
  t_exact :: u64
  t_any :: u64
  t_rate :: u64
  t_egress :: u64

text \<open>The documented behaviour of \<open>BPF_MAP_TYPE_LPM_TRIE\<close> and \<open>BPF_MAP_TYPE_LRU_HASH\<close>: a lookup finds an entry
  whose prefix covers the key; an insertion is found afterwards and may evict other entries.\<close>

definition byte_bits :: "u8 \<Rightarrow> bool list" where
  "byte_bits b = map (bit b) [7, 6, 5, 4, 3, 2, 1, 0]"

definition key_bits :: "u8 list \<Rightarrow> bool list" where
  "key_bits k = concat (map byte_bits k)"

definition lpm_match :: "trie \<Rightarrow> u32 \<Rightarrow> u8 list \<Rightarrow> bool" where
  "lpm_match t len k =
     (\<exists>(l, d) \<in> t. l \<le> len \<and> take (unat l) (key_bits d) = take (unat l) (key_bits k))"

definition lpm_law :: "(trie \<Rightarrow> u32 \<Rightarrow> u8 list \<Rightarrow> bool) \<Rightarrow> bool" where
  "lpm_law get \<longleftrightarrow> (\<forall>t len k. get t len k = lpm_match t len k)"

definition lru_law :: "(('k \<rightharpoonup> 'v) \<Rightarrow> 'k \<Rightarrow> 'v \<Rightarrow> ('k \<rightharpoonup> 'v)) \<Rightarrow> bool" where
  "lru_law ins \<longleftrightarrow>
     (\<forall>m k v. ins m k v k = Some v \<and> (\<forall>k'. k' \<noteq> k \<longrightarrow> ins m k v k' = m k' \<or> ins m k v k' = None))"

section \<open>The XDP program\<close>

datatype xdp_action = XDP_PASS | XDP_DROP

definition EthHdr_LEN :: nat where "EthHdr_LEN = 14"
definition Ipv4Hdr_LEN :: nat where "Ipv4Hdr_LEN = 20"
definition Ipv6Hdr_LEN :: nat where "Ipv6Hdr_LEN = 40"
definition TcpHdr_LEN :: nat where "TcpHdr_LEN = 20"
definition UdpHdr_LEN :: nat where "UdpHdr_LEN = 8"
definition EtherType_Ipv4 :: u16 where "EtherType_Ipv4 = 0x0800"
definition EtherType_Ipv6 :: u16 where "EtherType_Ipv6 = 0x86DD"

definition IPPROTO_ICMP :: u8 where "IPPROTO_ICMP = 1"
definition IPPROTO_ICMPV6 :: u8 where "IPPROTO_ICMPV6 = 58"
definition ICMP_ECHO_REQUEST :: u8 where "ICMP_ECHO_REQUEST = 8"
definition ICMPV6_ECHO_REQUEST :: u8 where "ICMPV6_ECHO_REQUEST = 128"

lemmas len_defs = EthHdr_LEN_def Ipv4Hdr_LEN_def Ipv6Hdr_LEN_def TcpHdr_LEN_def UdpHdr_LEN_def
lemmas wire_defs = EtherType_Ipv4_def EtherType_Ipv6_def IPPROTO_ICMP_def IPPROTO_ICMPV6_def
  ICMP_ECHO_REQUEST_def ICMPV6_ECHO_REQUEST_def

text \<open>
  A reference to \<open>n\<close> bytes at offset \<open>off\<close>: \<open>None\<close> is a reference outside the packet, undefined
  behaviour for the XDP program's raw pointers and \<open>Err\<close> for \<open>TcContext::load\<close>.
\<close>

definition load :: "nat \<Rightarrow> nat \<Rightarrow> u8 list \<Rightarrow> u8 list option" where
  "load n off pkt = (if off + n \<le> length pkt then Some (take n (drop off pkt)) else None)"

definition get16 :: "u8 list \<Rightarrow> nat \<Rightarrow> u16" where
  "get16 h i = be16 (h ! i) (h ! (i + 1))"

definition get32 :: "u8 list \<Rightarrow> nat \<Rightarrow> u32" where
  "get32 h i = be32 (h ! i) (h ! (i + 1)) (h ! (i + 2)) (h ! (i + 3))"

definition get64 :: "u8 list \<Rightarrow> nat \<Rightarrow> u64" where
  "get64 h i = push_bit 32 (ucast (get32 h i)) OR ucast (get32 h (i + 4))"

definition bump :: "u32 \<Rightarrow> kstate \<Rightarrow> kstate" where
  "bump slot s =
     (case STATS s slot of Some c \<Rightarrow> s\<lparr>STATS := (STATS s)(slot \<mapsto> c + 1)\<rparr> | None \<Rightarrow> s)"

definition config :: "kstate \<Rightarrow> u32 \<Rightarrow> u32" where
  "config s slot = (case CONFIG s slot of Some v \<Rightarrow> v | None \<Rightarrow> 0)"

definition port_open :: "(u32 \<rightharpoonup> u8) \<Rightarrow> u16 \<Rightarrow> bool" where
  "port_open l port = ((case l (ucast port) of Some v \<Rightarrow> v | None \<Rightarrow> 0) \<noteq> 0)"

definition live :: "u64 \<Rightarrow> u64 option \<Rightarrow> bool" where
  "live now expiry = (case expiry of Some e \<Rightarrow> e = BAN_FOREVER \<or> now < e | None \<Rightarrow> False)"

record flow =
  fl_proto :: u8
  fl_src_port :: u16
  fl_dst_port :: u16
  fl_tcp_flags :: u8
  fl_payload_len :: u16

record source =
  so_family :: u8
  so_v4 :: u32
  so_v6 :: u64

definition icmp_verdict :: "nat \<Rightarrow> u8 list \<Rightarrow> u8 \<Rightarrow> kstate \<Rightarrow> (kstate \<times> xdp_action) option" where
  "icmp_verdict l4 pkt echo_request s =
     (if l4 + 1 > length pkt then Some (s, XDP_PASS)
      else do {
        h \<leftarrow> load 1 l4 pkt;
        if h ! 0 = echo_request \<and> config s CFG_DROP_PING \<noteq> 0 \<and> config s CFG_ENFORCE \<noteq> 0
        then Some (bump STAT_DROP_POLICY s, XDP_DROP)
        else Some (s, XDP_PASS)
      })"

definition tcp_flag_bits :: "u8 \<Rightarrow> u8" where
  "tcp_flag_bits b =
     (let f0 = 0;
          f1 = (if bit b 0 then f0 OR TCP_FLAG_FIN else f0);
          f2 = (if bit b 1 then f1 OR TCP_FLAG_SYN else f1);
          f3 = (if bit b 2 then f2 OR TCP_FLAG_RST else f2);
          f4 = (if bit b 3 then f3 OR TCP_FLAG_PSH else f3);
          f5 = (if bit b 4 then f4 OR TCP_FLAG_ACK else f4)
      in if bit b 5 then f5 OR TCP_FLAG_URG else f5)"

text \<open>The outer option is the memory check, the inner one the code's \<open>Option<Flow>\<close>.\<close>

definition parse_l4 :: "u8 \<Rightarrow> nat \<Rightarrow> u8 list \<Rightarrow> flow option option" where
  "parse_l4 proto l4 pkt =
     (if proto = PROTO_TCP then
        if l4 + TcpHdr_LEN > length pkt then Some None
        else do {
          h \<leftarrow> load TcpHdr_LEN l4 pkt;
          let data_start = l4 + unat (drop_bit 4 (h ! 12) AND 0x0f) * 4;
          Some (Some \<lparr>fl_proto = PROTO_TCP, fl_src_port = get16 h 0, fl_dst_port = get16 h 2,
            fl_tcp_flags = tcp_flag_bits (h ! 13),
            fl_payload_len = (if data_start \<le> length pkt then of_nat (length pkt - data_start) else 0)\<rparr>)
        }
      else if proto = PROTO_UDP then
        if l4 + UdpHdr_LEN > length pkt then Some None
        else do {
          h \<leftarrow> load UdpHdr_LEN l4 pkt;
          Some (Some \<lparr>fl_proto = PROTO_UDP, fl_src_port = get16 h 0, fl_dst_port = get16 h 2,
            fl_tcp_flags = 0, fl_payload_len = of_nat (length pkt - (l4 + UdpHdr_LEN))\<rparr>)
        }
      else Some None)"

definition allowed_from :: "kenv \<Rightarrow> trie \<Rightarrow> source \<Rightarrow> u16 \<Rightarrow> bool" where
  "allowed_from e t src port =
     (if so_family src \<noteq> FAMILY_V4 then False
      else lpm_get e t 48 (bytes16 port @ bytes32 (so_v4 src)))"

definition rate_key :: "u32 \<Rightarrow> u16 \<Rightarrow> u64" where
  "rate_key ip port = push_bit 16 (ucast ip) OR ucast port"

definition over_rate :: "kenv \<Rightarrow> source \<Rightarrow> u16 \<Rightarrow> kstate \<Rightarrow> kstate \<times> bool" where
  "over_rate e src port s =
     (let packed = (case TCP_RATE s (ucast port) of Some v \<Rightarrow> v | None \<Rightarrow> 0)
      in if packed = 0 \<or> so_family src \<noteq> FAMILY_V4 then (s, False)
         else
           let mx = drop_bit 16 packed;
               window = ucast (packed AND 0xffff) * 1000000000;
               key = rate_key (so_v4 src) port;
               t = t_rate e
           in case RATE_STATE s key of
                Some st \<Rightarrow>
                  if t - rs_window_start st > window then
                    (s\<lparr>RATE_STATE := (RATE_STATE s)(key \<mapsto> st\<lparr>rs_window_start := t, rs_count := 1\<rparr>)\<rparr>, False)
                  else
                    (s\<lparr>RATE_STATE := (RATE_STATE s)(key \<mapsto> st\<lparr>rs_count := rs_count st + 1\<rparr>)\<rparr>,
                     rs_count st + 1 > mx)
              | None \<Rightarrow>
                  (s\<lparr>RATE_STATE := lru_rate e (RATE_STATE s) key \<lparr>rs_window_start = t, rs_count = 1\<rparr>\<rparr>, False))"

definition fin_urg_psh :: u8 where
  "fin_urg_psh = (TCP_FLAG_FIN OR TCP_FLAG_URG) OR TCP_FLAG_PSH"

definition tcp_opener :: "u8 \<Rightarrow> bool" where
  "tcp_opener f = (f AND TCP_FLAG_SYN \<noteq> 0 \<and> f AND TCP_FLAG_ACK = 0)"

definition tcp_odd :: "u8 \<Rightarrow> bool" where
  "tcp_odd f = (f = 0 \<or> f AND fin_urg_psh = fin_urg_psh
     \<or> f AND (TCP_FLAG_FIN OR TCP_FLAG_ACK) = TCP_FLAG_FIN)"

text \<open>First half of \<open>policy\<close>: \<open>(interesting, allowed)\<close>, with the state the rate limiter changes.\<close>

definition classify :: "kenv \<Rightarrow> source \<Rightarrow> flow \<Rightarrow> bool \<Rightarrow> kstate \<Rightarrow> kstate \<times> bool \<times> bool" where
  "classify e src fl reply s =
     (if fl_proto fl = PROTO_TCP then
        let f = fl_tcp_flags fl in
        if tcp_odd f then (s, True, False)
        else if tcp_opener f then
          let opn = port_open (TCP_ALLOW s) (fl_dst_port fl)
                    \<or> allowed_from e (ALLOW_FROM_TCP s) src (fl_dst_port fl)
          in if opn then
               let (s', over) = over_rate e src (fl_dst_port fl) s in (s', True, \<not> over)
             else (s, True, False)
        else (s, False, True)
      else
        let loose_reply = (config s CFG_UDP_STRICT = 0 \<and> ucast (fl_dst_port fl) \<ge> config s CFG_EPHEMERAL_LOW);
            rep = (reply \<or> loose_reply)
        in (s, \<not> rep,
            rep \<or> port_open (UDP_ALLOW s) (fl_dst_port fl)
            \<or> allowed_from e (ALLOW_FROM_UDP s) src (fl_dst_port fl)))"

definition event_of :: "source \<Rightarrow> flow \<Rightarrow> bool \<Rightarrow> packet_event" where
  "event_of src fl allowed =
     \<lparr>src6 = so_v6 src, src_ip = so_v4 src, dst_port = fl_dst_port fl, src_port = fl_src_port fl,
      protocol = fl_proto fl, tcp_flags = fl_tcp_flags fl, payload_len = fl_payload_len fl,
      verdict = (if allowed then VERDICT_PASS else VERDICT_DROP_POLICY), family = so_family src\<rparr>"

definition policy :: "kenv \<Rightarrow> source \<Rightarrow> flow \<Rightarrow> bool \<Rightarrow> bool \<Rightarrow> kstate \<Rightarrow> kstate \<times> xdp_action" where
  "policy e src fl to_everyone reply s =
     (let (s1, interesting, allowed) = classify e src fl reply s;
          drp = (\<not> allowed \<and> config s1 CFG_ENFORCE \<noteq> 0);
          s2 = (if interesting \<and> \<not> to_everyone then
                  if ring_room e then s1\<lparr>EVENTS := EVENTS s1 @ [event_of src fl allowed]\<rparr>
                  else bump STAT_EVENTS_LOST s1
                else s1)
      in if drp then (bump STAT_DROP_POLICY s2, XDP_DROP) else (s2, XDP_PASS))"

text \<open>The two arms of \<open>try_ai_firewall\<close>; \<open>ip_start\<close> is \<open>EthHdr_LEN\<close>.\<close>

definition try_ipv4 :: "kenv \<Rightarrow> bool \<Rightarrow> u8 list \<Rightarrow> kstate \<Rightarrow> (kstate \<times> xdp_action) option" where
  "try_ipv4 e to_everyone pkt s =
     (let ip_start = EthHdr_LEN in
      if ip_start + Ipv4Hdr_LEN > length pkt then Some (s, XDP_PASS)
      else do {
        ip \<leftarrow> load Ipv4Hdr_LEN ip_start pkt;
        let src = get32 ip 12;
        if live (t_ban e) (BLOCKLIST s src) then Some (bump STAT_DROP_BLOCKLIST s, XDP_DROP)
        else if lpm_get e (FEEDS s) 32 (bytes32 src) then Some (bump STAT_DROP_FEED s, XDP_DROP)
        else if get16 ip 6 AND 0x1fff \<noteq> 0 then Some (s, XDP_PASS)
        else
          let ihl = unat (ip ! 0 AND 0x0f) * 4 in
          if ihl < Ipv4Hdr_LEN then Some (s, XDP_PASS)
          else
            let l4 = ip_start + ihl; proto = ip ! 9 in
            if proto = IPPROTO_ICMP then icmp_verdict l4 pkt ICMP_ECHO_REQUEST s
            else do {
              r \<leftarrow> parse_l4 proto l4 pkt;
              case r of
                None \<Rightarrow> Some (s, XDP_PASS)
              | Some fl \<Rightarrow>
                  let exact = \<lparr>remote_ip = src, local_port = fl_dst_port fl, remote_port = fl_src_port fl\<rparr>;
                      any = \<lparr>remote_ip = 0, local_port = fl_dst_port fl, remote_port = 0\<rparr>;
                      reply = (fl_proto fl = PROTO_UDP
                        \<and> (live (t_exact e) (UDP_FLOWS s exact) \<or> live (t_any e) (UDP_FLOWS s any)))
                  in Some (policy e \<lparr>so_family = FAMILY_V4, so_v4 = src, so_v6 = 0\<rparr> fl to_everyone reply s)
            }
      })"

definition try_ipv6 :: "kenv \<Rightarrow> bool \<Rightarrow> u8 list \<Rightarrow> kstate \<Rightarrow> (kstate \<times> xdp_action) option" where
  "try_ipv6 e to_everyone pkt s =
     (let ip_start = EthHdr_LEN in
      if ip_start + Ipv6Hdr_LEN > length pkt then Some (s, XDP_PASS)
      else do {
        ip \<leftarrow> load Ipv6Hdr_LEN ip_start pkt;
        let src = take 16 (drop 8 ip);
        let prefix = get64 src 0;
        if live (t_ban e) (BLOCKLIST6 s prefix) then Some (bump STAT_DROP_BLOCKLIST s, XDP_DROP)
        else
          let l4 = ip_start + Ipv6Hdr_LEN; proto = ip ! 6 in
          if proto = IPPROTO_ICMPV6 then icmp_verdict l4 pkt ICMPV6_ECHO_REQUEST s
          else do {
            r \<leftarrow> parse_l4 proto l4 pkt;
            case r of
              None \<Rightarrow> Some (s, XDP_PASS)
            | Some fl \<Rightarrow>
                let exact = \<lparr>remote_ip6 = src, local_port6 = fl_dst_port fl, remote_port6 = fl_src_port fl\<rparr>;
                    any = \<lparr>remote_ip6 = replicate 16 0, local_port6 = fl_dst_port fl, remote_port6 = 0\<rparr>;
                    reply = (fl_proto fl = PROTO_UDP
                      \<and> (live (t_exact e) (UDP_FLOWS6 s exact) \<or> live (t_any e) (UDP_FLOWS6 s any)))
                in Some (policy e \<lparr>so_family = FAMILY_V6, so_v4 = 0, so_v6 = prefix\<rparr> fl to_everyone reply s)
          }
      })"

definition try_ai_firewall :: "kenv \<Rightarrow> u8 list \<Rightarrow> kstate \<Rightarrow> (kstate \<times> xdp_action) option" where
  "try_ai_firewall e pkt s =
     (if EthHdr_LEN > length pkt then Some (s, XDP_PASS)
      else do {
        eth \<leftarrow> load EthHdr_LEN 0 pkt;
        let to_everyone = (eth ! 0 AND 1 \<noteq> 0);
        let ether_type = get16 eth 12;
        if ether_type = EtherType_Ipv4 then try_ipv4 e to_everyone pkt s
        else if ether_type = EtherType_Ipv6 then try_ipv6 e to_everyone pkt s
        else Some (s, XDP_PASS)
      })"

definition ai_firewall :: "kenv \<Rightarrow> u8 list \<Rightarrow> kstate \<Rightarrow> (kstate \<times> xdp_action) option" where
  "ai_firewall e pkt s =
     do {
       (s', action) \<leftarrow> try_ai_firewall e pkt s;
       Some (if action = XDP_PASS then bump STAT_PASSED s' else s', action)
     }"

section \<open>The egress classifier\<close>

text \<open>\<open>None\<close> is the code's \<open>Err\<close> (a load past the end), which \<open>ai_firewall_egress\<close> ignores.\<close>

definition try_egress :: "kenv \<Rightarrow> u8 list \<Rightarrow> kstate \<Rightarrow> kstate option" where
  "try_egress e pkt s =
     do {
       eth \<leftarrow> load EthHdr_LEN 0 pkt;
       let to_everyone = (eth ! 0 AND 1 \<noteq> 0);
       let expiry = t_egress e + UDP_FLOW_TTL_NS;
       let ether_type = get16 eth 12;
       if ether_type = EtherType_Ipv4 then do {
         ip \<leftarrow> load Ipv4Hdr_LEN EthHdr_LEN pkt;
         if ip ! 9 \<noteq> PROTO_UDP then Some s
         else
           let ihl = unat (ip ! 0 AND 0x0f) * 4 in
           if ihl < Ipv4Hdr_LEN then Some s
           else do {
             udp \<leftarrow> load UdpHdr_LEN (EthHdr_LEN + ihl) pkt;
             let dst = get32 ip 16;
             let lport = get16 udp 0;
             let key = (if to_everyone \<or> drop_bit 28 dst = 0xe \<or> dst = - 1
                        then \<lparr>remote_ip = 0, local_port = lport, remote_port = 0\<rparr>
                        else \<lparr>remote_ip = dst, local_port = lport, remote_port = get16 udp 2\<rparr>);
             Some (s\<lparr>UDP_FLOWS := lru_flow e (UDP_FLOWS s) key expiry\<rparr>)
           }
       }
       else if ether_type = EtherType_Ipv6 then do {
         ip \<leftarrow> load Ipv6Hdr_LEN EthHdr_LEN pkt;
         if ip ! 6 \<noteq> PROTO_UDP then Some s
         else do {
           udp \<leftarrow> load UdpHdr_LEN (EthHdr_LEN + Ipv6Hdr_LEN) pkt;
           let dst = take 16 (drop 24 ip);
           let lport = get16 udp 0;
           let key = (if to_everyone \<or> dst ! 0 = 0xff
                      then \<lparr>remote_ip6 = replicate 16 0, local_port6 = lport, remote_port6 = 0\<rparr>
                      else \<lparr>remote_ip6 = dst, local_port6 = lport, remote_port6 = get16 udp 2\<rparr>);
           Some (s\<lparr>UDP_FLOWS6 := lru_flow6 e (UDP_FLOWS6 s) key expiry\<rparr>)
         }
       }
       else Some s
     }"

definition ai_firewall_egress :: "kenv \<Rightarrow> u8 list \<Rightarrow> kstate \<Rightarrow> kstate" where
  "ai_firewall_egress e pkt s = (case try_egress e pkt s of Some s' \<Rightarrow> s' | None \<Rightarrow> s)"

end
