(* ===== verification/Kernel_Facts.thy ===== *)
theory Kernel_Facts
  imports Kernel
begin

text \<open>
  What the kernel programs of \<open>Kernel\<close> guarantee. The lemmas first unfold the parsers once: a
  packet with a complete IPv4 or IPv6 header and a parsed transport header is decided by \<open>policy\<close>
  (\<open>try_ip4_flow\<close>, \<open>try_ip6_flow\<close>), and every result of the XDP program falls in one of the cases of
  \<open>firewall_cases\<close>. The properties then follow by case analysis.
\<close>

section \<open>References into the packet\<close>

lemma load_fits: "off + n \<le> length pkt \<Longrightarrow> load n off pkt = Some (take n (drop off pkt))"
  by (simp add: load_def)

lemma load_nth: "off + n \<le> length pkt \<Longrightarrow> i < n \<Longrightarrow> take n (drop off pkt) ! i = pkt ! (off + i)"
  by simp

lemma icmp_total: "\<exists>r. icmp_verdict l4 pkt q s = Some r"
  by (simp add: icmp_verdict_def load_def)

lemma parse_l4_total: "\<exists>r. parse_l4 proto l4 pkt = Some r"
  by (simp add: parse_l4_def load_def Let_def)

lemma try_ipv4_total: "\<exists>r. try_ipv4 e me pkt s = Some r"
proof (cases "EthHdr_LEN + Ipv4Hdr_LEN > length pkt")
  case True
  then show ?thesis by (simp add: try_ipv4_def)
next
  case False
  define l4 where "l4 = EthHdr_LEN + unat (take Ipv4Hdr_LEN (drop EthHdr_LEN pkt) ! 0 AND 0x0f) * 4"
  define proto where "proto = take Ipv4Hdr_LEN (drop EthHdr_LEN pkt) ! 9"
  obtain r where r: "parse_l4 proto l4 pkt = Some r"
    using parse_l4_total by blast
  obtain v where v: "icmp_verdict l4 pkt ICMP_ECHO_REQUEST s = Some v"
    using icmp_total by blast
  show ?thesis
    using False r v
    by (cases r) (auto simp: try_ipv4_def Let_def load_fits l4_def proto_def)
qed

lemma try_ipv6_total: "\<exists>r. try_ipv6 e me pkt s = Some r"
proof (cases "EthHdr_LEN + Ipv6Hdr_LEN > length pkt")
  case True
  then show ?thesis by (simp add: try_ipv6_def)
next
  case False
  define l4 where "l4 = EthHdr_LEN + Ipv6Hdr_LEN"
  define proto where "proto = take Ipv6Hdr_LEN (drop EthHdr_LEN pkt) ! 6"
  obtain r where r: "parse_l4 proto l4 pkt = Some r"
    using parse_l4_total by blast
  obtain v where v: "icmp_verdict l4 pkt ICMPV6_ECHO_REQUEST s = Some v"
    using icmp_total by blast
  show ?thesis
    using False r v
    by (cases r) (auto simp: try_ipv6_def Let_def load_fits l4_def proto_def)
qed

lemma try_ai_firewall_total: "\<exists>r. try_ai_firewall e pkt s = Some r"
  using try_ipv4_total try_ipv6_total by (auto simp: try_ai_firewall_def Let_def load_fits)

section \<open>A packet's fields\<close>

text \<open>The fields the properties speak about, by their offset in the frame.\<close>

definition eth_type :: "u8 list \<Rightarrow> u16" where
  "eth_type pkt = get16 pkt 12"

definition to_all :: "u8 list \<Rightarrow> bool" where
  "to_all pkt = (pkt ! 0 AND 1 \<noteq> 0)"

definition is_ip4 :: "u8 list \<Rightarrow> bool" where
  "is_ip4 pkt = (34 \<le> length pkt \<and> eth_type pkt = EtherType_Ipv4)"

definition is_ip6 :: "u8 list \<Rightarrow> bool" where
  "is_ip6 pkt = (54 \<le> length pkt \<and> eth_type pkt = EtherType_Ipv6)"

definition ip4_src :: "u8 list \<Rightarrow> u32" where
  "ip4_src pkt = get32 pkt 26"

definition ip4_dst :: "u8 list \<Rightarrow> u32" where
  "ip4_dst pkt = get32 pkt 30"

definition ip4_l4 :: "u8 list \<Rightarrow> nat" where
  "ip4_l4 pkt = 14 + unat (pkt ! 14 AND 0x0f) * 4"

definition ip6_src :: "u8 list \<Rightarrow> u8 list" where
  "ip6_src pkt = take 16 (drop 22 pkt)"

definition ip6_prefix :: "u8 list \<Rightarrow> u64" where
  "ip6_prefix pkt = get64 pkt 22"

text \<open>The transport header the code looks at: \<open>None\<close> for a later fragment, a header length below
  the minimum, ICMP, an unknown protocol or a header that does not fit.\<close>

definition flow4 :: "u8 list \<Rightarrow> flow option" where
  "flow4 pkt =
     (if is_ip4 pkt \<and> get16 pkt 20 AND 0x1fff = 0 \<and> 34 \<le> ip4_l4 pkt \<and> pkt ! 23 \<noteq> IPPROTO_ICMP
      then the (parse_l4 (pkt ! 23) (ip4_l4 pkt) pkt) else None)"

definition flow6 :: "u8 list \<Rightarrow> flow option" where
  "flow6 pkt =
     (if is_ip6 pkt \<and> pkt ! 20 \<noteq> IPPROTO_ICMPV6 then the (parse_l4 (pkt ! 20) 54 pkt) else None)"

definition banned4 :: "kenv \<Rightarrow> u8 list \<Rightarrow> kstate \<Rightarrow> bool" where
  "banned4 e pkt s = (is_ip4 pkt \<and> live (t_ban e) (BLOCKLIST s (ip4_src pkt)))"

definition banned6 :: "kenv \<Rightarrow> u8 list \<Rightarrow> kstate \<Rightarrow> bool" where
  "banned6 e pkt s = (is_ip6 pkt \<and> live (t_ban e) (BLOCKLIST6 s (ip6_prefix pkt)))"

definition fed4 :: "kenv \<Rightarrow> u8 list \<Rightarrow> kstate \<Rightarrow> bool" where
  "fed4 e pkt s = (is_ip4 pkt \<and> lpm_get e (FEEDS s) 32 (bytes32 (ip4_src pkt)))"

definition reply4 :: "kenv \<Rightarrow> u8 list \<Rightarrow> flow \<Rightarrow> kstate \<Rightarrow> bool" where
  "reply4 e pkt fl s =
     (fl_proto fl = PROTO_UDP \<and>
      (live (t_exact e) (UDP_FLOWS s \<lparr>remote_ip = ip4_src pkt, local_port = fl_dst_port fl, remote_port = fl_src_port fl\<rparr>)
       \<or> live (t_any e) (UDP_FLOWS s \<lparr>remote_ip = 0, local_port = fl_dst_port fl, remote_port = 0\<rparr>)))"

definition reply6 :: "kenv \<Rightarrow> u8 list \<Rightarrow> flow \<Rightarrow> kstate \<Rightarrow> bool" where
  "reply6 e pkt fl s =
     (fl_proto fl = PROTO_UDP \<and>
      (live (t_exact e) (UDP_FLOWS6 s \<lparr>remote_ip6 = ip6_src pkt, local_port6 = fl_dst_port fl, remote_port6 = fl_src_port fl\<rparr>)
       \<or> live (t_any e) (UDP_FLOWS6 s \<lparr>remote_ip6 = replicate 16 0, local_port6 = fl_dst_port fl, remote_port6 = 0\<rparr>)))"

definition origin4 :: "u8 list \<Rightarrow> source" where
  "origin4 pkt = \<lparr>so_family = FAMILY_V4, so_v4 = ip4_src pkt, so_v6 = 0\<rparr>"

definition origin6 :: "u8 list \<Rightarrow> source" where
  "origin6 pkt = \<lparr>so_family = FAMILY_V6, so_v4 = 0, so_v6 = ip6_prefix pkt\<rparr>"

lemmas field_defs = eth_type_def to_all_def is_ip4_def is_ip6_def ip4_src_def ip4_dst_def ip4_l4_def
  ip6_src_def ip6_prefix_def

lemma is_ip4_not_6: "is_ip4 pkt \<Longrightarrow> \<not> is_ip6 pkt"
  by (simp add: field_defs wire_defs)

lemma try_split:
  "try_ai_firewall e pkt s =
     (if is_ip4 pkt then try_ipv4 e (to_all pkt) pkt s
      else if is_ip6 pkt then try_ipv6 e (to_all pkt) pkt s
      else Some (s, XDP_PASS))"
proof (cases "length pkt < 14")
  case True
  then show ?thesis by (auto simp: try_ai_firewall_def field_defs len_defs)
next
  case False
  then have e: "take EthHdr_LEN (drop 0 pkt) ! 0 = pkt ! 0" "get16 (take EthHdr_LEN (drop 0 pkt)) 12 = eth_type pkt"
    by (simp_all add: get16_def field_defs len_defs)
  have "EtherType_Ipv4 \<noteq> EtherType_Ipv6" by (simp add: wire_defs)
  with False e show ?thesis
    by (auto simp: try_ai_firewall_def load_fits is_ip4_def is_ip6_def to_all_def len_defs try_ipv4_def try_ipv6_def Let_def)
qed

lemma try_ipv4_eq:
  assumes "is_ip4 pkt"
  shows "try_ipv4 e me pkt s =
    (if banned4 e pkt s then Some (bump STAT_DROP_BLOCKLIST s, XDP_DROP)
     else if fed4 e pkt s then Some (bump STAT_DROP_FEED s, XDP_DROP)
     else case flow4 pkt of
       Some fl \<Rightarrow> Some (policy e (origin4 pkt) fl me (reply4 e pkt fl s) s)
     | None \<Rightarrow>
         if get16 pkt 20 AND 0x1fff = 0 \<and> 34 \<le> ip4_l4 pkt \<and> pkt ! 23 = IPPROTO_ICMP
         then icmp_verdict (ip4_l4 pkt) pkt ICMP_ECHO_REQUEST s else Some (s, XDP_PASS))"
proof -
  have len: "34 \<le> length pkt" using assms by (simp add: is_ip4_def)
  define ip where "ip = take Ipv4Hdr_LEN (drop EthHdr_LEN pkt)"
  have ld: "load Ipv4Hdr_LEN EthHdr_LEN pkt = Some ip"
    using len by (simp add: load_fits ip_def len_defs)
  have f: "get32 ip 12 = ip4_src pkt" "get16 ip 6 = get16 pkt 20" "ip ! 9 = pkt ! 23" "ip ! 0 = pkt ! 14"
    using len by (simp_all add: ip_def get32_def get16_def field_defs len_defs)
  obtain r where r: "parse_l4 (pkt ! 23) (ip4_l4 pkt) pkt = Some r"
    using parse_l4_total by blast
  have l4: "EthHdr_LEN + unat (pkt ! 14 AND 0x0f) * 4 = ip4_l4 pkt"
    by (simp add: len_defs ip4_l4_def)
  have ihl: "unat (pkt ! 14 AND 0x0f) * 4 < Ipv4Hdr_LEN \<longleftrightarrow> \<not> 34 \<le> ip4_l4 pkt"
    by (auto simp add: len_defs ip4_l4_def)
  have le: "\<not> length pkt < EthHdr_LEN + Ipv4Hdr_LEN" using len by (simp add: len_defs)
  show ?thesis
    unfolding try_ipv4_def Let_def
    using assms r le
    by (cases r)
      (simp_all add: ld f l4 ihl banned4_def fed4_def flow4_def reply4_def origin4_def)
qed

lemma try_ipv6_eq:
  assumes "is_ip6 pkt"
  shows "try_ipv6 e me pkt s =
    (if banned6 e pkt s then Some (bump STAT_DROP_BLOCKLIST s, XDP_DROP)
     else case flow6 pkt of
       Some fl \<Rightarrow> Some (policy e (origin6 pkt) fl me (reply6 e pkt fl s) s)
     | None \<Rightarrow>
         if pkt ! 20 = IPPROTO_ICMPV6
         then icmp_verdict 54 pkt ICMPV6_ECHO_REQUEST s else Some (s, XDP_PASS))"
proof -
  have len: "54 \<le> length pkt" using assms by (simp add: is_ip6_def)
  define ip where "ip = take Ipv6Hdr_LEN (drop EthHdr_LEN pkt)"
  have ld: "load Ipv6Hdr_LEN EthHdr_LEN pkt = Some ip"
    using len by (simp add: load_fits ip_def len_defs)
  have f: "get64 (take 16 (drop 8 ip)) 0 = ip6_prefix pkt" "take 16 (drop 8 ip) = ip6_src pkt" "ip ! 6 = pkt ! 20"
    using len by (simp_all add: ip_def get64_def get32_def field_defs len_defs drop_take)
  obtain r where r: "parse_l4 (pkt ! 20) 54 pkt = Some r"
    using parse_l4_total by blast
  have l4: "EthHdr_LEN + Ipv6Hdr_LEN = 54"
    by (simp add: len_defs)
  have le: "\<not> length pkt < EthHdr_LEN + Ipv6Hdr_LEN" using len by (simp add: len_defs)
  show ?thesis
    unfolding try_ipv6_def Let_def
    using assms r le f(1)
    by (cases r)
      (simp_all add: ld f(2,3) l4 banned6_def flow6_def reply6_def origin6_def)
qed


section \<open>How a packet can end\<close>

lemma icmp_cases:
  "icmp_verdict l4 pkt q s = Some (s', a) \<Longrightarrow>
    s' = s \<and> a = XDP_PASS \<or> s' = bump STAT_DROP_POLICY s \<and> a = XDP_DROP
      \<and> config s CFG_ENFORCE \<noteq> 0 \<and> config s CFG_DROP_PING \<noteq> 0"
  by (auto simp: icmp_verdict_def load_def split: if_splits)

lemma ipv4_cases:
  assumes "try_ipv4 e me pkt s = Some (s', a)" "is_ip4 pkt"
  shows "s' = s \<and> a = XDP_PASS \<and> flow4 pkt = None
    \<or> s' = bump STAT_DROP_BLOCKLIST s \<and> a = XDP_DROP \<and> banned4 e pkt s
    \<or> s' = bump STAT_DROP_FEED s \<and> a = XDP_DROP \<and> fed4 e pkt s \<and> \<not> banned4 e pkt s
    \<or> s' = bump STAT_DROP_POLICY s \<and> a = XDP_DROP \<and> config s CFG_ENFORCE \<noteq> 0
        \<and> config s CFG_DROP_PING \<noteq> 0 \<and> flow4 pkt = None
    \<or> (\<exists>fl. policy e (origin4 pkt) fl me (reply4 e pkt fl s) s = (s', a) \<and> flow4 pkt = Some fl
         \<and> \<not> banned4 e pkt s \<and> \<not> fed4 e pkt s)"
  using assms by (auto simp: try_ipv4_eq dest!: icmp_cases split: if_splits option.splits)

lemma ipv6_cases:
  assumes "try_ipv6 e me pkt s = Some (s', a)" "is_ip6 pkt"
  shows "s' = s \<and> a = XDP_PASS \<and> flow6 pkt = None
    \<or> s' = bump STAT_DROP_BLOCKLIST s \<and> a = XDP_DROP \<and> banned6 e pkt s
    \<or> s' = bump STAT_DROP_POLICY s \<and> a = XDP_DROP \<and> config s CFG_ENFORCE \<noteq> 0
        \<and> config s CFG_DROP_PING \<noteq> 0 \<and> flow6 pkt = None
    \<or> (\<exists>fl. policy e (origin6 pkt) fl me (reply6 e pkt fl s) s = (s', a) \<and> flow6 pkt = Some fl
         \<and> \<not> banned6 e pkt s)"
  using assms by (auto simp: try_ipv6_eq dest!: icmp_cases split: if_splits option.splits)

lemma firewall_cases:
  assumes "try_ai_firewall e pkt s = Some (s', a)"
  obtains (through) "s' = s" "a = XDP_PASS" "flow4 pkt = None" "flow6 pkt = None"
  | (banned) "s' = bump STAT_DROP_BLOCKLIST s" "a = XDP_DROP" "banned4 e pkt s \<or> banned6 e pkt s"
  | (feed) "s' = bump STAT_DROP_FEED s" "a = XDP_DROP" "fed4 e pkt s" "\<not> banned4 e pkt s"
  | (ping) "s' = bump STAT_DROP_POLICY s" "a = XDP_DROP" "config s CFG_ENFORCE \<noteq> 0" "config s CFG_DROP_PING \<noteq> 0"
      "flow4 pkt = None" "flow6 pkt = None"
  | (policy) src fl reply where "policy e src fl (to_all pkt) reply s = (s', a)"
      "flow4 pkt = Some fl \<and> src = origin4 pkt \<and> reply = reply4 e pkt fl s
         \<and> \<not> banned4 e pkt s \<and> \<not> fed4 e pkt s
       \<or> flow6 pkt = Some fl \<and> src = origin6 pkt \<and> reply = reply6 e pkt fl s \<and> \<not> banned6 e pkt s"
proof -
  consider (v4) "is_ip4 pkt" | (v6) "is_ip6 pkt" "\<not> is_ip4 pkt" | (other) "\<not> is_ip4 pkt" "\<not> is_ip6 pkt"
    by blast
  then show ?thesis
  proof cases
    case v4
    then have f6: "flow6 pkt = None" using is_ip4_not_6 by (auto simp: flow6_def)
    from v4 assms have "try_ipv4 e (to_all pkt) pkt s = Some (s', a)" by (simp add: try_split)
    from ipv4_cases [OF this v4] f6 show ?thesis
      by (elim disjE exE conjE)
        ((rule that(1); simp; fail) | (rule that(2); simp; fail) | (rule that(3); simp; fail)
          | (rule that(4); simp; fail) | (rule that(5), assumption, simp))+
  next
    case v6
    then have f4: "flow4 pkt = None" by (auto simp: flow4_def)
    from v6 assms have "try_ipv6 e (to_all pkt) pkt s = Some (s', a)" by (simp add: try_split)
    from ipv6_cases [OF this v6(1)] f4 show ?thesis
      by (elim disjE exE conjE)
        ((rule that(1); simp; fail) | (rule that(2); simp; fail) | (rule that(4); simp; fail)
          | (rule that(5), assumption, simp))+
  next
    case other
    then have "s' = s" "a = XDP_PASS" "flow4 pkt = None" "flow6 pkt = None"
      using assms by (auto simp: try_split flow4_def flow6_def)
    then show ?thesis by (rule that(1))
  qed
qed

lemma try_ip4_flow:
  assumes "flow4 pkt = Some fl" "\<not> banned4 e pkt s" "\<not> fed4 e pkt s"
  shows "try_ai_firewall e pkt s = Some (policy e (origin4 pkt) fl (to_all pkt) (reply4 e pkt fl s) s)"
proof -
  have "is_ip4 pkt" using assms(1) by (simp add: flow4_def split: if_splits)
  then show ?thesis using assms by (simp add: try_split try_ipv4_eq)
qed

lemma try_ip6_flow:
  assumes "flow6 pkt = Some fl" "\<not> banned6 e pkt s"
  shows "try_ai_firewall e pkt s = Some (policy e (origin6 pkt) fl (to_all pkt) (reply6 e pkt fl s) s)"
proof -
  have "is_ip6 pkt" using assms(1) by (simp add: flow6_def split: if_splits)
  moreover from this have "\<not> is_ip4 pkt" using is_ip4_not_6 by blast
  ultimately show ?thesis using assms by (simp add: try_split try_ipv6_eq)
qed

lemma ai_firewall_Some_iff:
  "ai_firewall e pkt s = Some (s', a) \<longleftrightarrow>
     (\<exists>s1. try_ai_firewall e pkt s = Some (s1, a) \<and> s' = (if a = XDP_PASS then bump STAT_PASSED s1 else s1))"
  by (auto simp: ai_firewall_def bind_eq_Some_conv split: prod.splits)

section \<open>What the steps leave alone\<close>

lemma bump_simps [simp]:
  "BLOCKLIST (bump i s) = BLOCKLIST s" "BLOCKLIST6 (bump i s) = BLOCKLIST6 s"
  "UDP_FLOWS (bump i s) = UDP_FLOWS s" "UDP_FLOWS6 (bump i s) = UDP_FLOWS6 s"
  "EVENTS (bump i s) = EVENTS s" "TCP_ALLOW (bump i s) = TCP_ALLOW s" "UDP_ALLOW (bump i s) = UDP_ALLOW s"
  "ALLOW_FROM_TCP (bump i s) = ALLOW_FROM_TCP s" "ALLOW_FROM_UDP (bump i s) = ALLOW_FROM_UDP s"
  "TCP_RATE (bump i s) = TCP_RATE s" "RATE_STATE (bump i s) = RATE_STATE s" "FEEDS (bump i s) = FEEDS s"
  "CONFIG (bump i s) = CONFIG s" "config (bump i s) k = config s k"
  by (simp_all add: bump_def config_def split: option.splits)

lemma STATS_bump: "STATS (bump i s) = (STATS s)(i := map_option (\<lambda>c. c + 1) (STATS s i))"
  by (auto simp: bump_def fun_eq_iff split: option.splits)

lemma over_rate_frame:
  assumes "over_rate e src p s = (s', b)"
  shows "\<exists>r. s' = s\<lparr>RATE_STATE := r\<rparr>"
proof -
  have "\<exists>r. x = x\<lparr>RATE_STATE := r\<rparr>" for x :: kstate by (rule exI [of _ "RATE_STATE x"]) simp
  with assms show ?thesis
    by (auto simp: over_rate_def Let_def split: if_splits option.splits)
qed

lemma classify_frame:
  assumes "classify e src fl reply s = (s', i, ok)"
  shows "\<exists>r. s' = s\<lparr>RATE_STATE := r\<rparr>"
proof -
  have "\<exists>r. x = x\<lparr>RATE_STATE := r\<rparr>" for x :: kstate by (rule exI [of _ "RATE_STATE x"]) simp
  with assms show ?thesis
    by (auto simp: classify_def Let_def split: if_splits prod.splits dest!: over_rate_frame)
qed

text \<open>The verdict \<open>policy\<close> reaches, as a function of the classification.\<close>

lemma policy_cases:
  obtains r i ok where
    "classify e src fl reply s = (s\<lparr>RATE_STATE := r\<rparr>, i, ok)"
    "policy e src fl me reply s =
       (let s2 = (if i \<and> \<not> me then
                    if ring_room e then s\<lparr>RATE_STATE := r, EVENTS := EVENTS s @ [event_of src fl ok]\<rparr>
                    else bump STAT_EVENTS_LOST (s\<lparr>RATE_STATE := r\<rparr>)
                  else s\<lparr>RATE_STATE := r\<rparr>)
        in if \<not> ok \<and> config s CFG_ENFORCE \<noteq> 0 then (bump STAT_DROP_POLICY s2, XDP_DROP) else (s2, XDP_PASS))"
proof -
  obtain s1 i ok where c: "classify e src fl reply s = (s1, i, ok)" by (metis prod_cases3)
  from classify_frame [OF this] obtain r where r: "s1 = s\<lparr>RATE_STATE := r\<rparr>" by blast
  have cfg: "config (s\<lparr>RATE_STATE := r\<rparr>) k = config s k" for k by (simp add: config_def)
  show ?thesis
    by (rule that [of r i ok]) (simp_all add: c r policy_def cfg Let_def)
qed

lemma policy_drop_iff:
  "snd (policy e src fl me reply s) = XDP_DROP \<longleftrightarrow>
     \<not> snd (snd (classify e src fl reply s)) \<and> config s CFG_ENFORCE \<noteq> 0"
proof -
  obtain r i ok where
    "classify e src fl reply s = (s\<lparr>RATE_STATE := r\<rparr>, i, ok)"
    "policy e src fl me reply s =
       (let s2 = (if i \<and> \<not> me then
                    if ring_room e then s\<lparr>RATE_STATE := r, EVENTS := EVENTS s @ [event_of src fl ok]\<rparr>
                    else bump STAT_EVENTS_LOST (s\<lparr>RATE_STATE := r\<rparr>)
                  else s\<lparr>RATE_STATE := r\<rparr>)
        in if \<not> ok \<and> config s CFG_ENFORCE \<noteq> 0 then (bump STAT_DROP_POLICY s2, XDP_DROP) else (s2, XDP_PASS))"
    by (rule policy_cases)
  then show ?thesis by (simp add: Let_def)
qed


section \<open>Reference predicates\<close>

text \<open>The policy said in terms of flag bits, independently of the masks the code uses.\<close>

definition opens_connection :: "u8 \<Rightarrow> bool" where
  "opens_connection f = (bit f 1 \<and> \<not> bit f 4)"

definition scan_flags :: "u8 \<Rightarrow> bool" where
  "scan_flags f = (f = 0 \<or> bit f 0 \<and> bit f 3 \<and> bit f 5 \<or> bit f 0 \<and> \<not> bit f 4)"

definition refused :: "kenv \<Rightarrow> source \<Rightarrow> flow \<Rightarrow> bool \<Rightarrow> kstate \<Rightarrow> bool" where
  "refused e src fl reply s =
     (let p = fl_dst_port fl in
      if fl_proto fl = PROTO_TCP then
        scan_flags (fl_tcp_flags fl)
        \<or> opens_connection (fl_tcp_flags fl)
            \<and> (\<not> port_open (TCP_ALLOW s) p \<and> \<not> allowed_from e (ALLOW_FROM_TCP s) src p
               \<or> snd (over_rate e src p s))
      else
        \<not> reply \<and> \<not> (config s CFG_UDP_STRICT = 0 \<and> config s CFG_EPHEMERAL_LOW \<le> ucast p)
        \<and> \<not> port_open (UDP_ALLOW s) p \<and> \<not> allowed_from e (ALLOW_FROM_UDP s) src p)"

lemma and_bit_mask: "(x::u8) AND push_bit n 1 \<noteq> 0 \<longleftrightarrow> bit x n" if "n < 8"
proof -
  have "x AND push_bit n 1 = (if bit x n then push_bit n 1 else 0)"
    by (rule bit_word_eqI) (auto simp: bit_simps)
  moreover have "(push_bit n 1 :: u8) \<noteq> 0"
    using that by (auto simp: bit_eq_iff bit_simps)
  ultimately show ?thesis by simp
qed

lemma tcp_opener_bits: "tcp_opener f = opens_connection f"
  using and_bit_mask [of 1 f] and_bit_mask [of 4 f]
  by (auto simp: tcp_opener_def opens_connection_def TCP_FLAG_SYN_def TCP_FLAG_ACK_def simp del: push_bit_of_1)

lemma bits8: "(x::u8) = y \<longleftrightarrow> (\<forall>n<8. bit x n = bit y n)"
  by (auto simp: bit_eq_iff possible_bit_def)

lemma less8: "(\<forall>n<8. P n) \<longleftrightarrow> P 0 \<and> P 1 \<and> P 2 \<and> P 3 \<and> P 4 \<and> P 5 \<and> P 6 \<and> P (7::nat)"
  by (simp add: numeral_eq_Suc All_less_Suc) auto

lemma tcp_odd_bits: "tcp_odd f = scan_flags f"
proof -
  have xmas: "f AND fin_urg_psh = fin_urg_psh \<longleftrightarrow> bit f 0 \<and> bit f 3 \<and> bit f 5"
    unfolding bits8 [of "f AND fin_urg_psh"] less8
    by (auto simp: fin_urg_psh_def tcp_flag_defs bit_simps simp del: push_bit_of_1)
  have fin: "f AND (TCP_FLAG_FIN OR TCP_FLAG_ACK) = TCP_FLAG_FIN \<longleftrightarrow> bit f 0 \<and> \<not> bit f 4"
    unfolding bits8 [of "f AND _"] less8
    by (auto simp: tcp_flag_defs bit_simps simp del: push_bit_of_1)
  show ?thesis by (simp add: tcp_odd_def scan_flags_def xmas fin)
qed

lemma not_odd_opener: "opens_connection f \<Longrightarrow> scan_flags f \<Longrightarrow> bit f 0"
  by (auto simp: opens_connection_def scan_flags_def)

lemma classify_refuses: "\<not> snd (snd (classify e src fl reply s)) \<longleftrightarrow> refused e src fl reply s"
  by (auto simp: classify_def refused_def tcp_opener_bits tcp_odd_bits Let_def split: prod.splits)

lemma policy_verdict:
  "snd (policy e src fl me reply s) = XDP_DROP \<longleftrightarrow> config s CFG_ENFORCE \<noteq> 0 \<and> refused e src fl reply s"
  by (auto simp: policy_drop_iff classify_refuses)

lemma policy_drops_ex:
  "(\<exists>s'. policy e src fl me reply s = (s', XDP_DROP)) \<longleftrightarrow> config s CFG_ENFORCE \<noteq> 0 \<and> refused e src fl reply s"
  unfolding policy_verdict [of e src fl me, symmetric] by (cases "policy e src fl me reply s") simp

lemma ai_firewall_snd: "map_option snd (ai_firewall e pkt s) = map_option snd (try_ai_firewall e pkt s)"
  using try_ai_firewall_total [of e pkt s] by (auto simp: ai_firewall_def)

lemma drops_iff: "(\<exists>s'. ai_firewall e pkt s = Some (s', a)) \<longleftrightarrow> map_option snd (try_ai_firewall e pkt s) = Some a"
  using try_ai_firewall_total [of e pkt s] by (auto simp: ai_firewall_def)

section \<open>Safety and verdicts\<close>

text \<open>C5: no packet, whatever its bytes, makes the XDP program read outside the packet: every
  reference it takes is inside, and it always comes to a verdict.\<close>

theorem kernel_memory_safe: "\<exists>s' a. ai_firewall e pkt s = Some (s', a)"
  using try_ai_firewall_total [of e pkt s] by (auto simp: ai_firewall_def)

lemma ip4_drops:
  assumes "flow4 pkt = Some fl"
  shows "(\<exists>s'. ai_firewall e pkt s = Some (s', XDP_DROP)) \<longleftrightarrow>
    banned4 e pkt s \<or> fed4 e pkt s
    \<or> config s CFG_ENFORCE \<noteq> 0 \<and> refused e (origin4 pkt) fl (reply4 e pkt fl s) s"
proof -
  have "is_ip4 pkt" using assms by (simp add: flow4_def split: if_splits)
  then show ?thesis
    using assms by (simp add: drops_iff try_split try_ipv4_eq policy_drops_ex)
qed

text \<open>C6: the exact verdict on an IPv4 packet with a readable transport header: dropped if and only if
  its source has a live ban, lies on a feed, or the firewall enforces and the policy refuses the flow.\<close>

theorem ip4_verdict:
  assumes "flow4 pkt = Some fl"
  shows "(\<exists>s'. ai_firewall e pkt s = Some (s', XDP_DROP)) \<longleftrightarrow>
    banned4 e pkt s \<or> fed4 e pkt s
    \<or> config s CFG_ENFORCE \<noteq> 0 \<and> refused e (origin4 pkt) fl (reply4 e pkt fl s) s"
  by (rule ip4_drops [OF assms])

lemma ip6_drops:
  assumes "flow6 pkt = Some fl"
  shows "(\<exists>s'. ai_firewall e pkt s = Some (s', XDP_DROP)) \<longleftrightarrow>
    banned6 e pkt s \<or> config s CFG_ENFORCE \<noteq> 0 \<and> refused e (origin6 pkt) fl (reply6 e pkt fl s) s"
proof -
  have "is_ip6 pkt" using assms by (simp add: flow6_def split: if_splits)
  moreover from this have "\<not> is_ip4 pkt" using is_ip4_not_6 by blast
  ultimately show ?thesis
    using assms by (simp add: drops_iff try_split try_ipv6_eq policy_drops_ex)
qed

text \<open>C7: the same for IPv6, which has bans by /64 and no feeds.\<close>

theorem ip6_verdict:
  assumes "flow6 pkt = Some fl"
  shows "(\<exists>s'. ai_firewall e pkt s = Some (s', XDP_DROP)) \<longleftrightarrow>
    banned6 e pkt s \<or> config s CFG_ENFORCE \<noteq> 0 \<and> refused e (origin6 pkt) fl (reply6 e pkt fl s) s"
  by (rule ip6_drops [OF assms])

text \<open>In monitor mode (CFG_ENFORCE = 0) nothing is dropped but packets from banned or feed sources.\<close>

theorem monitor_mode_drops:
  assumes "config s CFG_ENFORCE = 0" "ai_firewall e pkt s = Some (s', XDP_DROP)"
  shows "banned4 e pkt s \<or> banned6 e pkt s \<or> fed4 e pkt s"
proof -
  from assms(2) have "try_ai_firewall e pkt s = Some (s', XDP_DROP)"
    by (auto simp: ai_firewall_Some_iff)
  then show ?thesis
  proof (cases rule: firewall_cases)
    case (policy src fl reply)
    then have "snd (policy e src fl (to_all pkt) reply s) = XDP_DROP" by simp
    then show ?thesis using assms(1) by (simp add: policy_verdict)
  qed (use assms(1) in auto)
qed

lemma ban_drops:
  assumes "banned4 e pkt s \<or> banned6 e pkt s"
  shows "ai_firewall e pkt s = Some (bump STAT_DROP_BLOCKLIST s, XDP_DROP)"
proof -
  have "try_ai_firewall e pkt s = Some (bump STAT_DROP_BLOCKLIST s, XDP_DROP)"
    using assms is_ip4_not_6 by (auto simp: try_split banned4_def banned6_def try_ipv4_eq try_ipv6_eq)
  then show ?thesis by (simp add: ai_firewall_def)
qed

text \<open>A live ban drops every packet of its source, in either mode, and counts it as a blocklist drop,
  before anything else is looked at.\<close>

theorem live_ban_drops:
  assumes "banned4 e pkt s \<or> banned6 e pkt s"
  shows "ai_firewall e pkt s = Some (bump STAT_DROP_BLOCKLIST s, XDP_DROP)"
  by (rule ban_drops [OF assms])

lemma over_rate_blocklist: "snd (over_rate e src p (s\<lparr>BLOCKLIST := b\<rparr>)) = snd (over_rate e src p s)"
  by (simp add: over_rate_def Let_def split: option.split)

lemma policy_blocklist: "snd (policy e src fl me reply (s\<lparr>BLOCKLIST := b\<rparr>)) = snd (policy e src fl me reply s)"
proof -
  have "refused e src fl reply (s\<lparr>BLOCKLIST := b\<rparr>) = refused e src fl reply s"
    by (simp add: refused_def config_def over_rate_blocklist Let_def)
  then have "snd (policy e src fl me reply (s\<lparr>BLOCKLIST := b\<rparr>)) = XDP_DROP \<longleftrightarrow> snd (policy e src fl me reply s) = XDP_DROP"
    by (simp add: policy_verdict config_def)
  then show ?thesis
    by (cases "snd (policy e src fl me reply s)"; cases "snd (policy e src fl me reply (s\<lparr>BLOCKLIST := b\<rparr>))") auto
qed

text \<open>A ban past its expiry no longer counts, even when the daemon is down and never removes it: the
  verdict on every packet is the one the firewall gives with the entry deleted.\<close>

theorem expired_ban_inert:
  assumes "\<not> live (t_ban e) (BLOCKLIST s ip)"
  shows "map_option snd (ai_firewall e pkt (s\<lparr>BLOCKLIST := (BLOCKLIST s)(ip := None)\<rparr>))
       = map_option snd (ai_firewall e pkt s)"
proof -
  let ?s = "s\<lparr>BLOCKLIST := (BLOCKLIST s)(ip := None)\<rparr>"
  have b4: "banned4 e pkt ?s = banned4 e pkt s"
    using assms by (auto simp: banned4_def live_def)
  have same: "banned6 e pkt ?s = banned6 e pkt s" "fed4 e pkt ?s = fed4 e pkt s"
    "reply4 e pkt fl ?s = reply4 e pkt fl s" "reply6 e pkt fl ?s = reply6 e pkt fl s" for fl
    by (simp_all add: banned6_def fed4_def reply4_def reply6_def)
  have ic: "map_option snd (icmp_verdict l4 pkt q ?s) = map_option snd (icmp_verdict l4 pkt q s)" for l4 q
    by (simp add: icmp_verdict_def load_def config_def)
  show ?thesis
    unfolding ai_firewall_snd
    by (auto simp: try_split try_ipv4_eq try_ipv6_eq b4 same ic policy_blocklist split: option.split)
qed


section \<open>Counters and events\<close>

text \<open>\<open>counted slot s s'\<close>: of the four verdict counters exactly \<open>slot\<close> went up by one.\<close>

definition verdict_slots :: "u32 set" where
  "verdict_slots = {STAT_PASSED, STAT_DROP_BLOCKLIST, STAT_DROP_FEED, STAT_DROP_POLICY}"

definition counted :: "u32 \<Rightarrow> kstate \<Rightarrow> kstate \<Rightarrow> bool" where
  "counted slot s s' =
     (\<forall>k \<in> verdict_slots. STATS s' k = (if k = slot then map_option (\<lambda>c. c + 1) (STATS s k) else STATS s k))"

lemma verdict_slots_distinct:
  "STAT_PASSED \<in> verdict_slots" "STAT_DROP_BLOCKLIST \<in> verdict_slots" "STAT_DROP_FEED \<in> verdict_slots"
  "STAT_DROP_POLICY \<in> verdict_slots" "STAT_EVENTS_LOST \<notin> verdict_slots"
  by (simp_all add: verdict_slots_def stat_defs)

lemma counted_bump: "\<forall>k \<in> verdict_slots. STATS s1 k = STATS s k \<Longrightarrow> counted slot s (bump slot s1) "
  by (auto simp: counted_def STATS_bump)

lemma policy_counts:
  assumes "policy e src fl me reply s = (s', a)"
  shows "a = XDP_PASS \<and> (\<forall>k \<in> verdict_slots. STATS s' k = STATS s k)
    \<or> a = XDP_DROP \<and> counted STAT_DROP_POLICY s s'"
proof -
  obtain r i ok where p:
    "policy e src fl me reply s =
       (let s2 = (if i \<and> \<not> me then
                    if ring_room e then s\<lparr>RATE_STATE := r, EVENTS := EVENTS s @ [event_of src fl ok]\<rparr>
                    else bump STAT_EVENTS_LOST (s\<lparr>RATE_STATE := r\<rparr>)
                  else s\<lparr>RATE_STATE := r\<rparr>)
        in if \<not> ok \<and> config s CFG_ENFORCE \<noteq> 0 then (bump STAT_DROP_POLICY s2, XDP_DROP) else (s2, XDP_PASS))"
    by (rule policy_cases)
  show ?thesis
    using assms verdict_slots_distinct(5)
    by (auto simp: p Let_def STATS_bump counted_def split: if_splits)
qed

text \<open>Every packet is counted exactly once: of the counters for passed, banned, feed and policy exactly
  one goes up, and it is the passed one just when the packet passes.\<close>

theorem counted_once:
  assumes "ai_firewall e pkt s = Some (s', a)"
  shows "\<exists>slot \<in> verdict_slots. counted slot s s' \<and> (slot = STAT_PASSED \<longleftrightarrow> a = XDP_PASS)"
proof -
  obtain s1 where t: "try_ai_firewall e pkt s = Some (s1, a)"
    and s': "s' = (if a = XDP_PASS then bump STAT_PASSED s1 else s1)"
    using assms by (auto simp: ai_firewall_Some_iff)
  have ne: "STAT_PASSED \<noteq> STAT_DROP_BLOCKLIST" "STAT_PASSED \<noteq> STAT_DROP_FEED" "STAT_PASSED \<noteq> STAT_DROP_POLICY"
    by (simp_all add: stat_defs)
  have slot: ?thesis if "slot \<in> verdict_slots" "counted slot s s'" "slot = STAT_PASSED \<longleftrightarrow> a = XDP_PASS" for slot
    using that by blast
  have drp: ?thesis if "s1 = bump slot s" "a = XDP_DROP" "slot \<in> verdict_slots" "slot \<noteq> STAT_PASSED" for slot
    by (rule slot [of slot]) (use that s' in \<open>auto intro: counted_bump\<close>)
  from t show ?thesis
  proof (cases rule: firewall_cases)
    case through
    then show ?thesis
      by (intro slot [of STAT_PASSED]) (auto simp: s' verdict_slots_distinct intro: counted_bump)
  next
    case banned
    then show ?thesis using ne by (intro drp [of STAT_DROP_BLOCKLIST]) (auto simp: verdict_slots_distinct)
  next
    case feed
    then show ?thesis using ne by (intro drp [of STAT_DROP_FEED]) (auto simp: verdict_slots_distinct)
  next
    case ping
    then show ?thesis using ne by (intro drp [of STAT_DROP_POLICY]) (auto simp: verdict_slots_distinct)
  next
    case (policy src fl reply)
    from policy_counts [OF policy(1)] show ?thesis
    proof (elim disjE conjE)
      assume "a = XDP_PASS" "\<forall>k \<in> verdict_slots. STATS s1 k = STATS s k"
      then show ?thesis
        by (intro slot [of STAT_PASSED]) (auto simp: s' verdict_slots_distinct intro: counted_bump)
    next
      assume "a = XDP_DROP" "counted STAT_DROP_POLICY s s1"
      then show ?thesis
        using ne by (intro slot [of STAT_DROP_POLICY]) (auto simp: s' verdict_slots_distinct)
    qed
  qed
qed

text \<open>Every drop of a flow by the policy is reported: with room in the ring buffer, a packet addressed
  to this host that the policy drops appends exactly one event, with the flow's facts and the drop
  verdict, for the detector to score.\<close>

theorem policy_drop_reported:
  assumes "flow4 pkt = Some fl" "\<not> banned4 e pkt s" "\<not> fed4 e pkt s" "\<not> to_all pkt" "ring_room e"
    "ai_firewall e pkt s = Some (s', XDP_DROP)"
  shows "EVENTS s' = EVENTS s @ [event_of (origin4 pkt) fl False]
    \<and> verdict (event_of (origin4 pkt) fl False) = VERDICT_DROP_POLICY"
proof -
  let ?rep = "reply4 e pkt fl s"
  obtain r i ok where c: "classify e (origin4 pkt) fl ?rep s = (s\<lparr>RATE_STATE := r\<rparr>, i, ok)" and p:
    "policy e (origin4 pkt) fl False ?rep s =
       (let s2 = (if i \<and> \<not> False then
                    if ring_room e then s\<lparr>RATE_STATE := r, EVENTS := EVENTS s @ [event_of (origin4 pkt) fl ok]\<rparr>
                    else bump STAT_EVENTS_LOST (s\<lparr>RATE_STATE := r\<rparr>)
                  else s\<lparr>RATE_STATE := r\<rparr>)
        in if \<not> ok \<and> config s CFG_ENFORCE \<noteq> 0 then (bump STAT_DROP_POLICY s2, XDP_DROP) else (s2, XDP_PASS))"
    by (rule policy_cases)
  have "\<not> ok \<Longrightarrow> i"
    using c by (auto simp: classify_def Let_def split: if_splits prod.splits)
  then show ?thesis
    using assms try_ip4_flow [OF assms(1-3)]
    by (auto simp: ai_firewall_def p Let_def event_of_def split: if_splits)
qed


section \<open>Replies to outbound UDP\<close>

text \<open>An IPv4 UDP packet the host sends; its flow is the one the egress classifier records.\<close>

definition udp4_out :: "u8 list \<Rightarrow> bool" where
  "udp4_out pkt = (is_ip4 pkt \<and> pkt ! 23 = PROTO_UDP \<and> 34 \<le> ip4_l4 pkt \<and> ip4_l4 pkt + 8 \<le> length pkt)"

definition out_to_all :: "u8 list \<Rightarrow> bool" where
  "out_to_all pkt = (to_all pkt \<or> drop_bit 28 (ip4_dst pkt) = 0xe \<or> ip4_dst pkt = - 1)"

definition out_key :: "u8 list \<Rightarrow> udp_flow" where
  "out_key pkt =
     (if out_to_all pkt then \<lparr>remote_ip = 0, local_port = get16 pkt (ip4_l4 pkt), remote_port = 0\<rparr>
      else \<lparr>remote_ip = ip4_dst pkt, local_port = get16 pkt (ip4_l4 pkt), remote_port = get16 pkt (ip4_l4 pkt + 2)\<rparr>)"

lemma egress_records:
  assumes "udp4_out pkt"
  shows "ai_firewall_egress e pkt s =
    s\<lparr>UDP_FLOWS := lru_flow e (UDP_FLOWS s) (out_key pkt) (t_egress e + UDP_FLOW_TTL_NS)\<rparr>"
proof -
  have len: "34 \<le> length pkt" "ip4_l4 pkt + 8 \<le> length pkt" and ty: "eth_type pkt = EtherType_Ipv4"
    and pr: "pkt ! 23 = PROTO_UDP" and ihl: "34 \<le> ip4_l4 pkt"
    using assms by (auto simp: udp4_out_def is_ip4_def)
  define eth where "eth = take EthHdr_LEN (drop 0 pkt)"
  define ip where "ip = take Ipv4Hdr_LEN (drop EthHdr_LEN pkt)"
  define udp where "udp = take UdpHdr_LEN (drop (ip4_l4 pkt) pkt)"
  have l4: "EthHdr_LEN + unat (pkt ! 14 AND 0x0f) * 4 = ip4_l4 pkt"
    by (simp add: len_defs ip4_l4_def)
  have ihl': "\<not> unat (pkt ! 14 AND 0x0f) * 4 < Ipv4Hdr_LEN"
    using ihl by (auto simp: len_defs ip4_l4_def)
  have ld: "load EthHdr_LEN 0 pkt = Some eth" "load Ipv4Hdr_LEN EthHdr_LEN pkt = Some ip"
    "load UdpHdr_LEN (ip4_l4 pkt) pkt = Some udp"
    using len by (simp_all add: load_fits eth_def ip_def udp_def len_defs)
  have f: "eth ! 0 = pkt ! 0" "get16 eth 12 = eth_type pkt" "ip ! 9 = pkt ! 23" "ip ! 0 = pkt ! 14"
    "get32 ip 16 = ip4_dst pkt" "get16 udp 0 = get16 pkt (ip4_l4 pkt)" "get16 udp 2 = get16 pkt (ip4_l4 pkt + 2)"
    using len by (simp_all add: eth_def ip_def udp_def get32_def get16_def field_defs len_defs add.assoc)
  show ?thesis
    unfolding ai_firewall_egress_def try_egress_def Let_def
    using ihl'
    by (simp add: ld f l4 ty pr out_key_def out_to_all_def to_all_def)
qed

text \<open>A reply gets in. After the host sends a UDP packet, a UDP packet that answers it (from the
  address and port it was sent to, or from anyone when it was multicast or broadcast) passes the policy
  in every mode and configuration for 180 seconds, unless its source is banned or on a feed.\<close>

theorem udp_reply_admitted:
  assumes "udp4_out out" "lru_law (lru_flow e)"
    and "flow4 rep = Some fl" "fl_proto fl = PROTO_UDP" "fl_dst_port fl = get16 out (ip4_l4 out)"
    and "out_to_all out \<or> ip4_src rep = ip4_dst out \<and> fl_src_port fl = get16 out (ip4_l4 out + 2)"
    and "t_exact e' < t_egress e + UDP_FLOW_TTL_NS" "t_any e' < t_egress e + UDP_FLOW_TTL_NS"
    and "\<not> banned4 e' rep s" "\<not> fed4 e' rep s"
  shows "\<exists>s'. ai_firewall e' rep (ai_firewall_egress e out s) = Some (s', XDP_PASS)"
proof -
  define s1 where "s1 = ai_firewall_egress e out s"
  have s1: "s1 = s\<lparr>UDP_FLOWS := lru_flow e (UDP_FLOWS s) (out_key out) (t_egress e + UDP_FLOW_TTL_NS)\<rparr>"
    unfolding s1_def by (rule egress_records) (rule assms(1))
  have look: "UDP_FLOWS s1 (out_key out) = Some (t_egress e + UDP_FLOW_TTL_NS)"
    using assms(2) by (simp add: s1 lru_law_def)
  have fresh: "\<not> banned4 e' rep s1" "\<not> fed4 e' rep s1"
    using assms(9,10) by (simp_all add: s1 banned4_def fed4_def)
  have "reply4 e' rep fl s1"
    using assms(4-8) look
    by (cases "out_to_all out") (auto simp: reply4_def out_key_def live_def)
  moreover have "PROTO_UDP \<noteq> PROTO_TCP" by (simp add: proto_defs)
  ultimately have "\<not> refused e' (origin4 rep) fl (reply4 e' rep fl s1) s1"
    using assms(4) by (simp add: refused_def)
  then have "\<not> (\<exists>s'. ai_firewall e' rep s1 = Some (s', XDP_DROP))"
    using fresh by (simp add: drops_iff try_ip4_flow [OF assms(3)] policy_verdict)
  moreover obtain s' a where "ai_firewall e' rep s1 = Some (s', a)"
    using try_ai_firewall_total [of e' rep s1] by (auto simp: ai_firewall_def)
  ultimately show ?thesis
    unfolding s1_def by (cases a) auto
qed

section \<open>The rate limiter\<close>

text \<open>New connections from one source to one port, one per environment (one reading of the clock each):
  which of them the limiter refuses.\<close>

fun openers :: "kenv list \<Rightarrow> source \<Rightarrow> u16 \<Rightarrow> kstate \<Rightarrow> bool list" where
  "openers [] src p s = []"
| "openers (e # es) src p s = (let (s', over) = over_rate e src p s in over # openers es src p s')"

lemma rate_key_inj: "rate_key a p = rate_key b q \<longleftrightarrow> a = b \<and> p = q"
proof
  assume eq: "rate_key a p = rate_key b q"
  have hi: "drop_bit 16 (rate_key x y) = ucast x" for x y
    by (rule bit_word_eqI) (auto simp: rate_key_def bit_simps dest: bit_imp_le_length)
  have lo: "(ucast (rate_key x y) :: u16) = y" for x y
    by (rule bit_word_eqI) (auto simp: rate_key_def bit_simps dest: bit_imp_le_length)
  have "p = q" using lo [of a p] lo [of b q] eq by metis
  have "(ucast a :: u64) = ucast b" using hi [of a p] hi [of b q] eq by metis
  moreover have "(ucast (ucast x :: u64) :: u32) = x" for x
    by (rule bit_word_eqI) (auto simp: bit_simps dest: bit_imp_le_length)
  ultimately have "a = b" by metis
  with \<open>p = q\<close> show "a = b \<and> p = q" by simp
qed simp


lemma over_rate_known:
  assumes "TCP_RATE s (ucast p) = Some (rate_pack m w)" "m \<noteq> 0 \<or> w \<noteq> 0" "so_family src = FAMILY_V4"
    "RATE_STATE s (rate_key (so_v4 src) p) = Some st"
    "t_rate e - rs_window_start st \<le> ucast w * 1000000000"
  shows "over_rate e src p s =
    (s\<lparr>RATE_STATE := (RATE_STATE s)(rate_key (so_v4 src) p \<mapsto> st\<lparr>rs_count := rs_count st + 1\<rparr>)\<rparr>,
     rs_count st + 1 > ucast m)"
proof -
  have u: "ucast (ucast w :: u32) = (ucast w :: u64)"
    by (rule bit_word_eqI) (auto simp: bit_simps dest: bit_imp_le_length)
  have "rate_pack m w \<noteq> 0" using assms(2) by (simp add: rate_pack_0)
  then show ?thesis
    using assms(1,3-5)
    by (auto simp: over_rate_def Let_def rate_pack_max rate_pack_window u)
qed

lemma over_rate_new:
  assumes "TCP_RATE s (ucast p) = Some (rate_pack m w)" "m \<noteq> 0 \<or> w \<noteq> 0" "so_family src = FAMILY_V4"
    "RATE_STATE s (rate_key (so_v4 src) p) = None"
  shows "over_rate e src p s =
    (s\<lparr>RATE_STATE := lru_rate e (RATE_STATE s) (rate_key (so_v4 src) p) \<lparr>rs_window_start = t_rate e, rs_count = 1\<rparr>\<rparr>, False)"
  using assms by (auto simp: over_rate_def rate_pack_0 Let_def)

lemma openers_known:
  assumes "TCP_RATE s (ucast p) = Some (rate_pack m w)" "m \<noteq> 0 \<or> w \<noteq> 0" "so_family src = FAMILY_V4"
    "RATE_STATE s (rate_key (so_v4 src) p) = Some \<lparr>rs_window_start = tw, rs_count = c\<rparr>"
    "\<forall>e \<in> set es. t_rate e - tw \<le> ucast w * 1000000000"
    "unat c + length es < 2 ^ 32"
  shows "openers es src p s = map (\<lambda>i. unat m \<le> unat c + i) [0..<length es]"
  using assms
proof (induction es arbitrary: s c)
  case (Cons e es)
  let ?s = "s\<lparr>RATE_STATE := (RATE_STATE s)(rate_key (so_v4 src) p \<mapsto> \<lparr>rs_window_start = tw, rs_count = c + 1\<rparr>)\<rparr>"
  have o: "over_rate e src p s = (?s, c + 1 > ucast m)"
    using over_rate_known [OF Cons.prems(1-4), of e] Cons.prems(5) by simp
  have c1: "unat (c + 1) = unat c + 1"
    using Cons.prems(6) by (subst unat_add_no_wrap) simp_all
  have "openers es src p ?s = map (\<lambda>i. unat m \<le> unat (c + 1) + i) [0..<length es]"
    using Cons.prems c1 by (intro Cons.IH) auto
  moreover have "c + 1 > ucast m \<longleftrightarrow> unat m \<le> unat c"
    by (auto simp: word_less_nat_alt c1 unat_ucast_16_32)
  moreover have "[0..<length (e # es)] = 0 # map Suc [0..<length es]"
    by (simp add: map_Suc_upt upt_conv_Cons del: upt_Suc)
  ultimately show ?case
    using o c1 by simp
qed simp

text \<open>C21: the rate limit is exact. For a port limited to \<open>m\<close> connections in \<open>w\<close> seconds and a source with no
  window open, of the connections it opens within the window the first \<open>m\<close> pass the limiter (the very
  first always does) and every later one is refused.\<close>

theorem rate_limit_exact:
  assumes "TCP_RATE s (ucast p) = Some (rate_pack m w)" "m \<noteq> 0 \<or> w \<noteq> 0"
    and "so_family src = FAMILY_V4" "RATE_STATE s (rate_key (so_v4 src) p) = None"
    and "lru_law (lru_rate e)" "\<forall>e' \<in> set es. t_rate e' - t_rate e \<le> ucast w * 1000000000"
    and "Suc (length es) < 2 ^ 32"
  shows "openers (e # es) src p s = map (\<lambda>i. 1 \<le> i \<and> unat m \<le> i) [0..<Suc (length es)]"
proof -
  let ?k = "rate_key (so_v4 src) p"
  let ?s = "s\<lparr>RATE_STATE := lru_rate e (RATE_STATE s) ?k \<lparr>rs_window_start = t_rate e, rs_count = 1\<rparr>\<rparr>"
  have "openers es src p ?s = map (\<lambda>i. unat m \<le> unat (1::u32) + i) [0..<length es]"
    using assms by (intro openers_known [where tw = "t_rate e" and w = w]) (auto simp: lru_law_def)
  moreover have "[0..<Suc (length es)] = 0 # map Suc [0..<length es]"
    by (simp add: map_Suc_upt upt_conv_Cons del: upt_Suc)
  ultimately show ?thesis
    using over_rate_new [OF assms(1-4), of e] by simp
qed


section \<open>Concrete packets\<close>

text \<open>Frames to evaluate the properties on, an empty kernel state and an environment that follows the laws
  of the maps, at boot time \<open>t\<close>.\<close>

definition frame4 :: "u32 \<Rightarrow> u32 \<Rightarrow> u8 \<Rightarrow> u8 list \<Rightarrow> u8 list" where
  "frame4 src dst proto l4 =
     replicate 12 0 @ [8, 0] @ [0x45, 0, 0, 40, 0, 0, 0, 0, 64, proto, 0, 0] @ bytes32 src @ bytes32 dst @ l4"

definition frame6 :: "u8 list \<Rightarrow> u8 \<Rightarrow> u8 list \<Rightarrow> u8 list" where
  "frame6 src nxt l4 = replicate 12 0 @ [0x86, 0xDD] @ [0x60, 0, 0, 0, 0, 20, nxt, 64] @ src @ replicate 16 1 @ l4"

definition tcp_seg :: "u16 \<Rightarrow> u16 \<Rightarrow> u8 \<Rightarrow> u8 list" where
  "tcp_seg sp dp fl = bytes16 sp @ bytes16 dp @ replicate 8 0 @ [0x50, fl] @ replicate 6 0"

definition udp_seg :: "u16 \<Rightarrow> u16 \<Rightarrow> u8 list" where
  "udp_seg sp dp = bytes16 sp @ bytes16 dp @ replicate 4 0"

definition env_at :: "u64 \<Rightarrow> kenv" where
  "env_at t = \<lparr>lpm_get = lpm_match, lru_rate = (\<lambda>m k v. m(k \<mapsto> v)), lru_flow = (\<lambda>m k v. m(k \<mapsto> v)),
     lru_flow6 = (\<lambda>m k v. m(k \<mapsto> v)), ring_room = True, t_ban = t, t_exact = t, t_any = t, t_rate = t,
     t_egress = t\<rparr>"

definition kempty :: kstate where
  "kempty = \<lparr>BLOCKLIST = Map.empty, BLOCKLIST6 = Map.empty, UDP_FLOWS = Map.empty, UDP_FLOWS6 = Map.empty,
     EVENTS = [], TCP_ALLOW = Map.empty, UDP_ALLOW = Map.empty, ALLOW_FROM_TCP = {}, ALLOW_FROM_UDP = {},
     TCP_RATE = Map.empty, RATE_STATE = Map.empty, FEEDS = {}, CONFIG = Map.empty, STATS = (\<lambda>_. Some 0)\<rparr>"

lemma env_at_times:
  "t_ban (env_at t) = t" "t_exact (env_at t) = t" "t_any (env_at t) = t" "t_rate (env_at t) = t" "t_egress (env_at t) = t"
  by (simp_all add: env_at_def)

lemma env_at_laws:
  "lru_law (lru_rate (env_at t))" "lru_law (lru_flow (env_at t))" "lru_law (lru_flow6 (env_at t))" "lpm_law (lpm_get (env_at t))"
  by (simp_all add: env_at_def lru_law_def lpm_law_def)

lemma no_feeds: "\<not> fed4 (env_at t) pkt s" if "FEEDS s = {}"
  using that by (simp add: fed4_def env_at_def lpm_match_def)

lemma syn_flow:
  "flow4 (frame4 0xC0000201 0x0A000001 6 (tcp_seg 40000 22 2)) =
     Some \<lparr>fl_proto = PROTO_TCP, fl_src_port = 40000, fl_dst_port = 22, fl_tcp_flags = TCP_FLAG_SYN, fl_payload_len = 0\<rparr>"
  by code_simp

lemma syn_src: "ip4_src (frame4 0xC0000201 0x0A000001 6 (tcp_seg 40000 22 2)) = 0xC0000201"
  "is_ip4 (frame4 0xC0000201 0x0A000001 6 (tcp_seg 40000 22 2))"
  "\<not> to_all (frame4 0xC0000201 0x0A000001 6 (tcp_seg 40000 22 2))"
  by code_simp+

lemma syn6_flow:
  "flow6 (frame6 (replicate 16 0x20) 6 (tcp_seg 40000 22 2)) =
     Some \<lparr>fl_proto = PROTO_TCP, fl_src_port = 40000, fl_dst_port = 22, fl_tcp_flags = TCP_FLAG_SYN, fl_payload_len = 0\<rparr>"
  by code_simp

lemma query_fields:
  "udp4_out (frame4 0x0A000001 0x08080808 17 (udp_seg 5353 53))"
  "\<not> out_to_all (frame4 0x0A000001 0x08080808 17 (udp_seg 5353 53))"
  "ip4_dst (frame4 0x0A000001 0x08080808 17 (udp_seg 5353 53)) = 0x08080808"
  "get16 (frame4 0x0A000001 0x08080808 17 (udp_seg 5353 53)) (ip4_l4 (frame4 0x0A000001 0x08080808 17 (udp_seg 5353 53))) = 5353"
  "get16 (frame4 0x0A000001 0x08080808 17 (udp_seg 5353 53)) (ip4_l4 (frame4 0x0A000001 0x08080808 17 (udp_seg 5353 53)) + 2) = 53"
  by code_simp+

lemma answer_fields:
  "flow4 (frame4 0x08080808 0x0A000001 17 (udp_seg 53 5353)) =
     Some \<lparr>fl_proto = PROTO_UDP, fl_src_port = 53, fl_dst_port = 5353, fl_tcp_flags = 0, fl_payload_len = 0\<rparr>"
  "ip4_src (frame4 0x08080808 0x0A000001 17 (udp_seg 53 5353)) = 0x08080808"
  by code_simp+


section \<open>The properties at work\<close>

text \<open>A SYN to port 22 of an enforcing firewall with every port closed, and the same with its source banned.\<close>

abbreviation syn22 :: "u8 list" where
  "syn22 \<equiv> frame4 0xC0000201 0x0A000001 6 (tcp_seg 40000 22 2)"

definition kenforce :: kstate where
  "kenforce = kempty\<lparr>CONFIG := [CFG_ENFORCE \<mapsto> 1]\<rparr>"

definition kbanned :: kstate where
  "kbanned = kempty\<lparr>BLOCKLIST := [0xC0000201 \<mapsto> 500]\<rparr>"

lemma kbanned_at: "banned4 (env_at t) syn22 kbanned \<longleftrightarrow> t < 500"
  by (simp add: banned4_def syn_src kbanned_def live_def env_at_def BAN_FOREVER_def)

lemma kenforce_clear: "\<not> banned4 (env_at t) pkt kenforce" "\<not> fed4 (env_at t) pkt kenforce" "config kenforce CFG_ENFORCE \<noteq> 0"
  by (simp_all add: banned4_def kenforce_def kempty_def live_def no_feeds config_def)

lemma syn22_refused: "refused (env_at t) (origin4 syn22)
    \<lparr>fl_proto = PROTO_TCP, fl_src_port = 40000, fl_dst_port = 22, fl_tcp_flags = TCP_FLAG_SYN, fl_payload_len = 0\<rparr> b kenforce"
  by (simp add: refused_def opens_connection_def tcp_flag_defs port_open_def allowed_from_def env_at_def lpm_match_def
      kenforce_def kempty_def proto_defs)

lemma ip4_verdict_witness: "\<exists>s'. ai_firewall (env_at 7) syn22 kenforce = Some (s', XDP_DROP)"
  unfolding ip4_verdict [OF syn_flow] using kenforce_clear syn22_refused by blast

lemma ip6_verdict_witness:
  "\<exists>s'. ai_firewall (env_at 7) (frame6 (replicate 16 0x20) 6 (tcp_seg 40000 22 2)) kenforce = Some (s', XDP_DROP)"
  unfolding ip6_verdict [OF syn6_flow]
  using kenforce_clear
  by (simp add: refused_def opens_connection_def tcp_flag_defs port_open_def allowed_from_def env_at_def lpm_match_def
      kenforce_def kempty_def proto_defs origin6_def family_defs)

lemma live_ban_drops_witness: "ai_firewall (env_at 7) syn22 kbanned = Some (bump STAT_DROP_BLOCKLIST kbanned, XDP_DROP)"
  by (rule live_ban_drops) (simp add: kbanned_at)

lemma monitor_mode_drops_witness: "\<exists>e pkt s s'. config s CFG_ENFORCE = 0 \<and> ai_firewall e pkt s = Some (s', XDP_DROP)
    \<and> (banned4 e pkt s \<or> banned6 e pkt s \<or> fed4 e pkt s)"
proof -
  have cfg: "config kbanned CFG_ENFORCE = 0" by (simp add: kbanned_def kempty_def config_def)
  have "live (t_ban (env_at 7)) (BLOCKLIST kbanned 0xC0000201)"
    by (simp add: kbanned_def live_def env_at_def BAN_FOREVER_def)
  then have "try_ai_firewall (env_at 7) syn22 kbanned = Some (bump STAT_DROP_BLOCKLIST kbanned, XDP_DROP)"
    by (simp add: try_split try_ipv4_eq banned4_def syn_src)
  then have "ai_firewall (env_at 7) syn22 kbanned = Some (bump STAT_DROP_BLOCKLIST kbanned, XDP_DROP)"
    by (simp add: ai_firewall_def)
  from monitor_mode_drops [OF cfg this] cfg this show ?thesis by blast
qed

lemma expired_ban_inert_witness:
  "map_option snd (ai_firewall (env_at 500) syn22 (kbanned\<lparr>BLOCKLIST := (BLOCKLIST kbanned)(0xC0000201 := None)\<rparr>))
   = map_option snd (ai_firewall (env_at 500) syn22 kbanned)"
  by (rule expired_ban_inert) (simp add: kbanned_def live_def env_at_def BAN_FOREVER_def)

lemma syn22_dropped:
  "ai_firewall (env_at 7) syn22 kenforce =
     Some (bump STAT_DROP_POLICY (kenforce\<lparr>EVENTS := [event_of (origin4 syn22)
       \<lparr>fl_proto = PROTO_TCP, fl_src_port = 40000, fl_dst_port = 22, fl_tcp_flags = TCP_FLAG_SYN, fl_payload_len = 0\<rparr> False]\<rparr>), XDP_DROP)"
  unfolding ai_firewall_def try_ip4_flow [OF syn_flow kenforce_clear(1,2)]
  by (simp add: policy_def classify_def tcp_opener_bits tcp_odd_bits opens_connection_def scan_flags_def tcp_flag_defs
      port_open_def allowed_from_def env_at_def lpm_match_def kenforce_def kempty_def proto_defs config_def syn_src Let_def)

lemma counted_once_witness:
  "\<exists>slot \<in> verdict_slots. counted slot kenforce (bump STAT_DROP_POLICY (kenforce\<lparr>EVENTS := [event_of (origin4 syn22)
       \<lparr>fl_proto = PROTO_TCP, fl_src_port = 40000, fl_dst_port = 22, fl_tcp_flags = TCP_FLAG_SYN, fl_payload_len = 0\<rparr> False]\<rparr>))
    \<and> (slot = STAT_PASSED \<longleftrightarrow> XDP_DROP = XDP_PASS)"
  by (rule counted_once [OF syn22_dropped])

lemma policy_drop_reported_witness: "\<exists>s'. ai_firewall (env_at 7) syn22 kenforce = Some (s', XDP_DROP)
    \<and> EVENTS s' = EVENTS kenforce @ [event_of (origin4 syn22)
       \<lparr>fl_proto = PROTO_TCP, fl_src_port = 40000, fl_dst_port = 22, fl_tcp_flags = TCP_FLAG_SYN, fl_payload_len = 0\<rparr> False]"
proof -
  have "ring_room (env_at 7)" by (simp add: env_at_def)
  from policy_drop_reported [OF syn_flow kenforce_clear(1,2) syn_src(3) this syn22_dropped]
  show ?thesis using syn22_dropped by blast
qed

lemma udp_reply_admitted_witness:
  "\<exists>s'. ai_firewall (env_at 60000000000) (frame4 0x08080808 0x0A000001 17 (udp_seg 53 5353))
     (ai_firewall_egress (env_at 0) (frame4 0x0A000001 0x08080808 17 (udp_seg 5353 53)) kenforce) = Some (s', XDP_PASS)"
  by (rule udp_reply_admitted [OF query_fields(1) env_at_laws(2) answer_fields(1)])
    (simp_all add: query_fields answer_fields kenforce_clear env_at_times UDP_FLOW_TTL_NS_def del: add_2_eq_Suc')

lemma rate_limit_exact_witness:
  "openers (env_at 0 # map env_at [1, 2, 3, 4]) \<lparr>so_family = FAMILY_V4, so_v4 = 9, so_v6 = 0\<rparr> 22
     (kempty\<lparr>TCP_RATE := [22 \<mapsto> rate_pack 3 60]\<rparr>) = [False, False, False, True, True]"
  by (subst rate_limit_exact [where m = 3 and w = 60])
    (simp_all add: env_at_laws kempty_def, simp_all add: env_at_def upt_rec)

end
