(* ===== verification/Addr.thy ===== *)
theory Addr
  imports Common Strings
begin

text \<open>
  Addresses: the parsers and the display of \<open>core::net\<close> (\<open>Ipv4Addr\<close>, \<open>Ipv6Addr\<close>, \<open>IpAddr\<close>) that the daemon
  relies on, and its own \<open>Src\<close> (src/ai-firewall/src/addr.rs), an IPv4 address or an IPv6 /64, with
  the order Rust derives and the round trip through its text form. A parser takes the text that is left and
  gives the value with the rest; an IPv6 address is its list of eight segments.
\<close>

section \<open>Numbers in a radix\<close>

text \<open>\<open>char::to_digit\<close> and \<open>Parser::read_number\<close> with a limit on the digits.\<close>

definition to_digit :: "nat \<Rightarrow> char \<Rightarrow> nat option" where
  "to_digit radix c =
     (let n = of_char c;
          d = (if 48 \<le> n \<and> n \<le> 57 then n - 48
               else if 97 \<le> n \<and> n \<le> 122 then n - 87
               else if 65 \<le> n \<and> n \<le> 90 then n - 55 else 36 :: nat)
      in if d < radix then Some d else None)"

definition radix_val :: "nat \<Rightarrow> string \<Rightarrow> nat" where
  "radix_val radix ds = foldl (\<lambda>a c. radix * a + the (to_digit radix c)) 0 ds"

definition read_number :: "nat \<Rightarrow> nat \<Rightarrow> bool \<Rightarrow> nat \<Rightarrow> string \<Rightarrow> (nat \<times> string) option" where
  "read_number radix max_digits zero_prefix largest s =
     (let ds = takeWhile (\<lambda>c. to_digit radix c \<noteq> None) s; v = radix_val radix ds
      in if ds = [] \<or> length ds > max_digits \<or> (\<not> zero_prefix \<and> hd ds = CHR ''0'' \<and> length ds > 1) \<or> v > largest
         then None else Some (v, drop (length ds) s))"

definition read_char :: "char \<Rightarrow> string \<Rightarrow> string option" where
  "read_char c s = (case s of x # r \<Rightarrow> if x = c then Some r else None | [] \<Rightarrow> None)"

definition read_separator :: "char \<Rightarrow> nat \<Rightarrow> (string \<Rightarrow> ('a \<times> string) option) \<Rightarrow> string \<Rightarrow> ('a \<times> string) option" where
  "read_separator c i p s = (if i > 0 then Option.bind (read_char c s) p else p s)"

section \<open>IPv4\<close>

fun read_octets :: "nat \<Rightarrow> nat \<Rightarrow> string \<Rightarrow> (nat list \<times> string) option" where
  "read_octets 0 i s = Some ([], s)"
| "read_octets (Suc k) i s =
     do {
       (v, r) \<leftarrow> read_separator (CHR ''.'') i (read_number 10 3 False 255) s;
       (vs, r') \<leftarrow> read_octets k (Suc i) r;
       Some (v # vs, r')
     }"

definition octets_ip :: "nat list \<Rightarrow> u32" where
  "octets_ip vs = foldl (\<lambda>a v. 256 * a + of_nat v) 0 vs"

definition read_ipv4 :: "string \<Rightarrow> (u32 \<times> string) option" where
  "read_ipv4 s = map_option (\<lambda>(vs, r). (octets_ip vs, r)) (read_octets 4 0 s)"

definition parse_with :: "(string \<Rightarrow> ('a \<times> string) option) \<Rightarrow> string \<Rightarrow> 'a option" where
  "parse_with p s = (case p s of Some (v, []) \<Rightarrow> Some v | _ \<Rightarrow> None)"

definition parse_ipv4 :: "string \<Rightarrow> u32 option" where
  "parse_ipv4 s = (if length s > 15 then None else parse_with read_ipv4 s)"

definition ip_octets :: "u32 \<Rightarrow> nat list" where
  "ip_octets ip = map unat (bytes32 ip)"

definition show_ipv4 :: "u32 \<Rightarrow> string" where
  "show_ipv4 ip = join ''.'' (map show_nat (ip_octets ip))"

section \<open>IPv6\<close>

definition ip_segments :: "u32 \<Rightarrow> u16 list" where
  "ip_segments ip = [ucast (drop_bit 16 ip), ucast ip]"

text \<open>\<open>read_groups\<close> with \<open>left\<close> slots to fill from slot \<open>i\<close>: the groups read, whether a trailing IPv4 address was
  among them, and the rest.\<close>

fun read_groups :: "nat \<Rightarrow> nat \<Rightarrow> string \<Rightarrow> u16 list \<times> bool \<times> string" where
  "read_groups 0 i s = ([], False, s)"
| "read_groups (Suc left) i s =
     (case (if left > 0 then read_separator (CHR '':'') i read_ipv4 s else None) of
        Some (ip, r) \<Rightarrow> (ip_segments ip, True, r)
      | None \<Rightarrow>
          (case read_separator (CHR '':'') i (read_number 16 4 True 65535) s of
             Some (g, r) \<Rightarrow> (let (gs, v4, r') = read_groups left (Suc i) r in (of_nat g # gs, v4, r'))
           | None \<Rightarrow> ([], False, s)))"

definition read_ipv6 :: "string \<Rightarrow> (u16 list \<times> string) option" where
  "read_ipv6 s =
     (let (head, head_ipv4, r) = read_groups 8 0 s in
      if length head = 8 then Some (head, r)
      else if head_ipv4 then None
      else do {
        r1 \<leftarrow> read_char (CHR '':'') r;
        r2 \<leftarrow> read_char (CHR '':'') r1;
        let (tail, _, r3) = read_groups (7 - length head) 0 r2;
        Some (head @ replicate (8 - length head - length tail) 0 @ tail, r3)
      })"

datatype ip_addr = IpV4 u32 | IpV6 "u16 list"

definition read_ip :: "string \<Rightarrow> (ip_addr \<times> string) option" where
  "read_ip s =
     (case read_ipv4 s of
        Some (ip, r) \<Rightarrow> Some (IpV4 ip, r)
      | None \<Rightarrow> map_option (\<lambda>(g, r). (IpV6 g, r)) (read_ipv6 s))"

definition parse_ip :: "string \<Rightarrow> ip_addr option" where
  "parse_ip s = parse_with read_ip s"

definition parse_ipv6 :: "string \<Rightarrow> u16 list option" where
  "parse_ipv6 s = parse_with read_ipv6 s"

text \<open>Display: hexadecimal groups, the first longest run of at least two zeros as \<open>::\<close>, IPv4-mapped addresses
  with their IPv4 part in decimal.\<close>

definition hex_digit :: "nat \<Rightarrow> char" where
  "hex_digit d = (if d < 10 then char_of (48 + d) else char_of (87 + d))"

fun show_hex :: "nat \<Rightarrow> string" where
  "show_hex n = (if n < 16 then [hex_digit n] else show_hex (n div 16) @ [hex_digit (n mod 16)])"

declare show_hex.simps [simp del]

definition show_groups :: "u16 list \<Rightarrow> string" where
  "show_groups gs = join '':'' (map (\<lambda>g. show_hex (unat g)) gs)"

text \<open>\<open>zero_span gs i cur best\<close>: the runs as (start, length), \<open>cur\<close> the one that ends before \<open>i\<close>.\<close>

fun zero_span :: "u16 list \<Rightarrow> nat \<Rightarrow> nat \<times> nat \<Rightarrow> nat \<times> nat \<Rightarrow> nat \<times> nat" where
  "zero_span [] i cur best = best"
| "zero_span (g # gs) i cur best =
     (if g = 0 then
        let cur' = (if snd cur = 0 then (i, 1) else (fst cur, snd cur + 1))
        in zero_span gs (Suc i) cur' (if snd cur' > snd best then cur' else best)
      else zero_span gs (Suc i) (0, 0) best)"

definition show_ipv6 :: "u16 list \<Rightarrow> string" where
  "show_ipv6 gs =
     (if take 6 gs = [0, 0, 0, 0, 0, 0xffff] then
        ''::ffff:'' @ join ''.'' (map show_nat [unat (gs ! 6) div 256, unat (gs ! 6) mod 256, unat (gs ! 7) div 256, unat (gs ! 7) mod 256])
      else
        let (start, n) = zero_span gs 0 (0, 0) (0, 0)
        in if n > 1 then show_groups (take start gs) @ ''::'' @ show_groups (drop (start + n) gs)
           else show_groups gs)"

section \<open>A source\<close>

datatype src = V4 u32 | V6 u64

instantiation src :: linorder
begin

fun less_eq_src :: "src \<Rightarrow> src \<Rightarrow> bool" where
  "less_eq_src (V4 a) (V4 b) = (a \<le> b)"
| "less_eq_src (V4 a) (V6 b) = True"
| "less_eq_src (V6 a) (V4 b) = False"
| "less_eq_src (V6 a) (V6 b) = (a \<le> b)"

definition less_src :: "src \<Rightarrow> src \<Rightarrow> bool" where
  "less_src x y = (x \<le> y \<and> \<not> y \<le> x)"

instance
proof
  fix x y z :: src
  show "x < y \<longleftrightarrow> x \<le> y \<and> \<not> y \<le> x" by (rule less_src_def)
  show "x \<le> x" by (cases x) simp_all
  show "x \<le> y \<Longrightarrow> y \<le> z \<Longrightarrow> x \<le> z" by (cases x; cases y; cases z) auto
  show "x \<le> y \<Longrightarrow> y \<le> x \<Longrightarrow> x = y" by (cases x; cases y) auto
  show "x \<le> y \<or> y \<le> x" by (cases x; cases y) auto
qed

end

definition src_of :: "packet_event \<Rightarrow> src" where
  "src_of ev = (if family ev = FAMILY_V6 then V6 (src6 ev) else V4 (src_ip ev))"

definition v6_prefix :: "u16 list \<Rightarrow> u64" where
  "v6_prefix gs = foldl (\<lambda>a g. push_bit 16 a OR ucast g) 0 (take 4 gs)"

definition prefix_segments :: "u64 \<Rightarrow> u16 list" where
  "prefix_segments p = [ucast (drop_bit 48 p), ucast (drop_bit 32 p), ucast (drop_bit 16 p), ucast p, 0, 0, 0, 0]"

fun show_src :: "src \<Rightarrow> string" where
  "show_src (V4 ip) = show_ipv4 ip"
| "show_src (V6 p) = show_ipv6 (prefix_segments p) @ ''/64''"

definition src_from_str :: "string \<Rightarrow> src option" where
  "src_from_str t =
     (let s = trim t; addr = (case strip_suffix ''/64'' s of Some a \<Rightarrow> a | None \<Rightarrow> s)
      in case parse_ip addr of
           Some (IpV4 ip) \<Rightarrow> if addr = s then Some (V4 ip) else None
         | Some (IpV6 g) \<Rightarrow> Some (V6 (v6_prefix g))
         | None \<Rightarrow> None)"


section \<open>Printing, then parsing\<close>

lemma to_digit_dec: "d < 10 \<Longrightarrow> to_digit 10 (char_of (48 + d)) = Some d"
  by (simp add: to_digit_def Let_def)

lemma to_digit_hex: "d < 16 \<Longrightarrow> to_digit 16 (hex_digit d) = Some d"
  by (simp add: to_digit_def hex_digit_def Let_def)

lemma show_nat_byte:
  "n < 10 \<Longrightarrow> show_nat n = [char_of (48 + n)]"
  "10 \<le> n \<Longrightarrow> n < 100 \<Longrightarrow> show_nat n = [char_of (48 + n div 10), char_of (48 + n mod 10)]"
  "100 \<le> n \<Longrightarrow> n < 1000 \<Longrightarrow>
     show_nat n = [char_of (48 + n div 100), char_of (48 + n div 10 mod 10), char_of (48 + n mod 10)]"
proof -
  show one: "n < 10 \<Longrightarrow> show_nat n = [char_of (48 + n)]" for n by (subst show_nat.simps) simp
  show two: "10 \<le> n \<Longrightarrow> n < 100 \<Longrightarrow> show_nat n = [char_of (48 + n div 10), char_of (48 + n mod 10)]" for n
    by (subst show_nat.simps) (simp add: one)
  show "100 \<le> n \<Longrightarrow> n < 1000 \<Longrightarrow>
     show_nat n = [char_of (48 + n div 100), char_of (48 + n div 10 mod 10), char_of (48 + n mod 10)]"
    by (subst show_nat.simps) (simp add: two div_mult2_eq [symmetric])
qed

lemma show_hex_16:
  "n < 16 \<Longrightarrow> show_hex n = [hex_digit n]"
  "16 \<le> n \<Longrightarrow> n < 256 \<Longrightarrow> show_hex n = [hex_digit (n div 16), hex_digit (n mod 16)]"
  "256 \<le> n \<Longrightarrow> n < 4096 \<Longrightarrow> show_hex n = [hex_digit (n div 256), hex_digit (n div 16 mod 16), hex_digit (n mod 16)]"
  "4096 \<le> n \<Longrightarrow> n < 65536 \<Longrightarrow>
     show_hex n = [hex_digit (n div 4096), hex_digit (n div 256 mod 16), hex_digit (n div 16 mod 16), hex_digit (n mod 16)]"
proof -
  show one: "n < 16 \<Longrightarrow> show_hex n = [hex_digit n]" for n by (subst show_hex.simps) simp
  show two: "16 \<le> n \<Longrightarrow> n < 256 \<Longrightarrow> show_hex n = [hex_digit (n div 16), hex_digit (n mod 16)]" for n
    by (subst show_hex.simps) (simp add: one)
  show three: "256 \<le> n \<Longrightarrow> n < 4096 \<Longrightarrow>
      show_hex n = [hex_digit (n div 256), hex_digit (n div 16 mod 16), hex_digit (n mod 16)]" for n
    by (subst show_hex.simps) (simp add: two div_mult2_eq [symmetric])
  show "4096 \<le> n \<Longrightarrow> n < 65536 \<Longrightarrow>
     show_hex n = [hex_digit (n div 4096), hex_digit (n div 256 mod 16), hex_digit (n div 16 mod 16), hex_digit (n mod 16)]"
    by (subst show_hex.simps) (simp add: three div_mult2_eq [symmetric])
qed

text \<open>What stops a number: the end or a character that is no digit.\<close>

definition stops :: "nat \<Rightarrow> string \<Rightarrow> bool" where
  "stops radix r = (r = [] \<or> to_digit radix (hd r) = None)"

lemma takeWhile_stops: "stops radix r \<Longrightarrow> takeWhile (\<lambda>c. to_digit radix c \<noteq> None) r = []"
  by (cases r) (auto simp: stops_def)

lemma byte_cases:
  obtains "n < 10" | "10 \<le> n" "n < 100" | "100 \<le> (n::nat)"
  by linarith

lemma zero_char: "(char_of (48 + d) :: char) = CHR ''0'' \<longleftrightarrow> d = 0" if "d < 10" for d :: nat
proof
  assume "(char_of (48 + d) :: char) = CHR ''0''"
  then have "(of_char (char_of (48 + d) :: char) :: nat) = of_char CHR ''0''" by simp
  then show "d = 0" using that by simp
next
  have "(char_of (48 :: nat) :: char) = CHR ''0''" by code_simp
  moreover assume "d = 0"
  ultimately show "(char_of (48 + d) :: char) = CHR ''0''" by simp
qed

lemma read_number_digits:
  assumes "map (to_digit radix) ds = map Some vs" "stops radix r" "ds \<noteq> []" "length ds \<le> m"
    and "zp \<or> hd ds \<noteq> CHR ''0'' \<or> length ds = 1" "foldl (\<lambda>a v. radix * a + v) 0 vs \<le> largest"
  shows "read_number radix m zp largest (ds @ r) = Some (foldl (\<lambda>a v. radix * a + v) 0 vs, r)"
proof -
  have "\<forall>c \<in> set ds. to_digit radix c \<noteq> None"
  proof
    fix c assume "c \<in> set ds"
    then have "to_digit radix c \<in> set (map (to_digit radix) ds)" by simp
    then show "to_digit radix c \<noteq> None" unfolding assms(1) by auto
  qed
  then have tw: "takeWhile (\<lambda>c. to_digit radix c \<noteq> None) (ds @ r) = ds"
    using takeWhile_stops [OF assms(2)] by (simp add: takeWhile_append2)
  have "foldl (\<lambda>a c. radix * a + the (to_digit radix c)) b ds = foldl (\<lambda>a v. radix * a + v) b vs" for b
    using assms(1)
  proof (induction ds arbitrary: b vs)
    case (Cons d ds)
    then show ?case by (cases vs) auto
  qed simp
  then have "radix_val radix ds = foldl (\<lambda>a v. radix * a + v) 0 vs" by (simp add: radix_val_def)
  then show ?thesis unfolding read_number_def tw Let_def using assms(3-6) by auto
qed

lemma read_octet:
  assumes "v \<le> 255" "stops 10 r"
  shows "read_number 10 3 False 255 (show_nat v @ r) = Some (v, r)"
proof (cases v rule: byte_cases)
  case 1
  then show ?thesis
    using read_number_digits [of 10 "show_nat v" "[v]" r 3 False 255] assms
    by (simp add: show_nat_byte to_digit_dec)
next
  case 2
  then show ?thesis
    using read_number_digits [of 10 "show_nat v" "[v div 10, v mod 10]" r 3 False 255] assms
    by (simp add: show_nat_byte to_digit_dec zero_char)
next
  case 3
  have "v div 100 = v div 10 div 10" by (simp add: div_mult2_eq [symmetric])
  then have "10 * (10 * (v div 100) + v div 10 mod 10) + v mod 10 = v" by simp
  with 3 show ?thesis
    using read_number_digits [of 10 "show_nat v" "[v div 100, v div 10 mod 10, v mod 10]" r 3 False 255] assms
    by (simp add: show_nat_byte to_digit_dec zero_char)
qed

lemma hex_cases:
  obtains "n < 16" | "16 \<le> n" "n < 256" | "256 \<le> n" "n < 4096" | "4096 \<le> (n::nat)"
  by linarith

lemma read_group:
  assumes "v \<le> 65535" "stops 16 r"
  shows "read_number 16 4 True 65535 (show_hex v @ r) = Some (v, r)"
proof (cases v rule: hex_cases)
  case 1
  then show ?thesis
    using read_number_digits [of 16 "show_hex v" "[v]" r 4 True 65535] assms
    by (simp add: show_hex_16 to_digit_hex)
next
  case 2
  then show ?thesis
    using read_number_digits [of 16 "show_hex v" "[v div 16, v mod 16]" r 4 True 65535] assms
    by (simp add: show_hex_16 to_digit_hex)
next
  case 3
  have "v div 256 = v div 16 div 16" by (simp add: div_mult2_eq [symmetric])
  then have "16 * (16 * (v div 256) + v div 16 mod 16) + v mod 16 = v" by simp
  with 3 show ?thesis
    using read_number_digits [of 16 "show_hex v" "[v div 256, v div 16 mod 16, v mod 16]" r 4 True 65535] assms
    by (simp add: show_hex_16 to_digit_hex)
next
  case 4
  have "v div 256 = v div 16 div 16" "v div 4096 = v div 16 div 16 div 16" by (simp_all add: div_mult2_eq [symmetric])
  then have "16 * (16 * (16 * (v div 4096) + v div 256 mod 16) + v div 16 mod 16) + v mod 16 = v" by simp
  with 4 show ?thesis
    using read_number_digits [of 16 "show_hex v" "[v div 4096, v div 256 mod 16, v div 16 mod 16, v mod 16]" r 4 True 65535] assms
    by (simp add: show_hex_16 to_digit_hex)
qed

text \<open>IPv4.\<close>

lemma foldl_octets: "foldl (\<lambda>a v. 256 * a + of_nat v) (of_nat b :: u32) vs = of_nat (foldl (\<lambda>a v. 256 * a + v) b vs)"
proof (induction vs arbitrary: b)
  case (Cons v vs)
  show ?case using Cons.IH [of "256 * b + v"] by simp
qed simp

lemma ip_octets_eq:
  "ip_octets ip = [unat ip div 16777216 mod 256, unat ip div 65536 mod 256, unat ip div 256 mod 256, unat ip mod 256]"
  by (simp add: ip_octets_def bytes32_def unsigned_ucast_eq take_bit_eq_mod unsigned_drop_bit_eq drop_bit_eq_div unat_div)

lemma octets_ip_octets: "octets_ip (ip_octets ip) = ip"
proof -
  define n where "n = unat ip"
  have "n < 4294967296" using unat_lt2p32 [of ip] by (simp add: n_def)
  then have m: "n div 16777216 mod 256 = n div 16777216" by (simp add: less_mult_imp_div_less)
  moreover have "n div 16777216 = n div 256 div 256 div 256" "n div 65536 = n div 256 div 256"
    by (simp_all add: div_mult2_eq [symmetric])
  ultimately have "256 * (256 * (256 * (n div 16777216 mod 256) + n div 65536 mod 256) + n div 256 mod 256) + n mod 256 = n"
    by simp
  then have "foldl (\<lambda>a v. 256 * a + v) 0 (ip_octets ip) = n"
    unfolding ip_octets_eq n_def [symmetric] by (simp add: m)
  then show ?thesis
    using foldl_octets [of 0 "ip_octets ip"] by (simp add: octets_ip_def n_def)
qed

lemma stops_dot: "stops 10 [] " "stops 10 (CHR ''.'' # r)"
  by (simp_all add: stops_def to_digit_def)

lemma read_octets_first:
  "v \<le> 255 \<Longrightarrow> stops 10 r \<Longrightarrow> read_octets (Suc k) 0 (show_nat v @ r) =
     map_option (\<lambda>(vs, r'). (v # vs, r')) (read_octets k 1 r)"
  by (cases "read_octets k 1 r") (auto simp: read_separator_def read_octet)

lemma read_octets_next:
  "v \<le> 255 \<Longrightarrow> stops 10 r \<Longrightarrow> i > 0 \<Longrightarrow> read_octets (Suc k) i (CHR ''.'' # show_nat v @ r) =
     map_option (\<lambda>(vs, r'). (v # vs, r')) (read_octets k (Suc i) r)"
  by (cases "read_octets k (Suc i) r") (auto simp: read_separator_def read_char_def read_octet)

lemma read_show_ipv4: "read_ipv4 (show_ipv4 ip) = Some (ip, [])"
proof -
  obtain a b c d where o: "ip_octets ip = [a, b, c, d]" "a \<le> 255" "b \<le> 255" "c \<le> 255" "d \<le> 255"
    by (simp add: ip_octets_eq less_Suc_eq_le [symmetric])
  have sh: "show_ipv4 ip = show_nat a @ CHR ''.'' # show_nat b @ CHR ''.'' # show_nat c @ CHR ''.'' # show_nat d @ []"
    by (simp add: show_ipv4_def o)
  have four: "4 = Suc (Suc (Suc (Suc 0)))" by simp
  have "read_octets 4 0 (show_ipv4 ip) = Some ([a, b, c, d], [])"
    unfolding sh
    unfolding four
    by (simp add: read_octets_first read_octets_next o stops_dot del: read_octets.simps(2) append_Nil2)
  then show ?thesis
    using octets_ip_octets [of ip] by (simp add: read_ipv4_def o)
qed


text \<open>IPv6. A text without a dot is no IPv4 address, so the groups are read one by one.\<close>

lemma read_number_suffix: "read_number radix m zp largest s = Some (v, r) \<Longrightarrow> \<exists>n. r = drop n s"
  by (auto simp: read_number_def Let_def split: if_splits)

lemma read_ipv4_no_dot: "CHR ''.'' \<notin> set s \<Longrightarrow> read_ipv4 s = None"
proof -
  assume nd: "CHR ''.'' \<notin> set s"
  have "read_octets (Suc (Suc k)) 0 s = None" for k
  proof (cases "read_number 10 3 False 255 s")
    case (Some vr)
    obtain v r where vr: "vr = (v, r)" by (cases vr)
    with Some read_number_suffix obtain n where "r = drop n s" by blast
    then have "CHR ''.'' \<notin> set r" using nd by (auto dest: in_set_dropD)
    then have "read_char (CHR ''.'') r = None" by (cases r) (auto simp: read_char_def)
    then show ?thesis using Some vr by (simp add: read_separator_def)
  qed (simp add: read_separator_def)
  then have "read_octets (Suc (Suc 2)) 0 s = None" .
  then show ?thesis by (simp add: read_ipv4_def eval_nat_numeral)
qed

lemma read_sep_no_dot: "CHR ''.'' \<notin> set s \<Longrightarrow> read_separator (CHR '':'') i read_ipv4 s = None"
proof -
  assume nd: "CHR ''.'' \<notin> set s"
  show ?thesis
  proof (cases s)
    case Nil
    then show ?thesis by (simp add: read_separator_def read_char_def read_ipv4_no_dot)
  next
    case (Cons c r)
    then have "CHR ''.'' \<notin> set r" using nd by simp
    with nd Cons show ?thesis by (simp add: read_separator_def read_char_def read_ipv4_no_dot)
  qed
qed

lemma hex_digit_chars: "d < 16 \<Longrightarrow> hex_digit d \<notin> {CHR ''.'', CHR '':'', CHR ''/''} \<and> \<not> is_ws (hex_digit d)"
proof -
  assume "d < 16"
  then have "to_digit 16 (hex_digit d) \<noteq> None" by (simp add: to_digit_hex)
  moreover have "to_digit 16 CHR ''.'' = None" "to_digit 16 CHR '':'' = None" "to_digit 16 CHR ''/'' = None"
    by (simp_all add: to_digit_def)
  moreover have "is_ws c \<Longrightarrow> to_digit 16 c = None" for c
    by (auto simp: is_ws_def to_digit_def Let_def)
  ultimately show ?thesis by auto
qed

lemma show_hex_chars: "c \<in> set (show_hex n) \<Longrightarrow> c \<notin> {CHR ''.'', CHR '':'', CHR ''/''} \<and> \<not> is_ws c"
proof (induction n rule: show_hex.induct)
  case (1 n)
  then show ?case
    using hex_digit_chars [of n] hex_digit_chars [of "n mod 16"]
    by (subst (asm) (2) show_hex.simps) (auto split: if_splits)
qed

definition colon_groups :: "u16 list \<Rightarrow> string" where
  "colon_groups gs = concat (map (\<lambda>g. CHR '':'' # show_hex (unat g)) gs)"

lemma show_groups_Cons: "show_groups (g # gs) = show_hex (unat g) @ colon_groups gs"
proof (induction gs arbitrary: g)
  case (Cons h gs)
  then show ?case by (simp add: show_groups_def colon_groups_def)
qed (simp add: show_groups_def colon_groups_def)

lemma groups_chars:
  "c \<in> set (colon_groups gs) \<Longrightarrow> c \<notin> {CHR ''.'', CHR ''/''} \<and> \<not> is_ws c"
  "c \<in> set (show_groups gs) \<Longrightarrow> c \<notin> {CHR ''.'', CHR ''/''} \<and> \<not> is_ws c"
proof -
  have col: "\<not> is_ws (CHR '':'')" by (simp add: is_ws_def)
  have one: "c \<notin> {CHR ''.'', CHR ''/''} \<and> \<not> is_ws c" if "c \<in> set (colon_groups gs)" for gs
  proof -
    from that have "c = CHR '':'' \<or> (\<exists>n. c \<in> set (show_hex n))"
      by (auto simp: colon_groups_def split: if_splits)
    then show ?thesis using col show_hex_chars [of c] by auto
  qed
  then show "c \<in> set (colon_groups gs) \<Longrightarrow> c \<notin> {CHR ''.'', CHR ''/''} \<and> \<not> is_ws c" .
  show "c \<in> set (show_groups gs) \<Longrightarrow> c \<notin> {CHR ''.'', CHR ''/''} \<and> \<not> is_ws c"
  proof (cases gs)
    case (Cons g gs')
    moreover assume "c \<in> set (show_groups gs)"
    ultimately show ?thesis using one [of gs'] show_hex_chars [of c "unat g"] by (auto simp: show_groups_Cons)
  qed (simp add: show_groups_def)
qed

lemma stops_colon: "stops 16 (CHR '':'' # r)" "stops 16 []"
  by (simp_all add: stops_def to_digit_def)

lemma u16_le: "unat (g::u16) \<le> 65535"
  using unat_lt2p16 [of g] by simp

text \<open>From the second group on, up to a \<open>::\<close>.\<close>

lemma read_colon_groups:
  "length gs < k \<Longrightarrow> i > 0 \<Longrightarrow> read_groups k i (colon_groups gs @ ''::'') = (gs, False, ''::'')"
proof (induction gs arbitrary: k i)
  case Nil
  have num: "read_number 16 4 True 65535 '':'' = None" by (simp add: read_number_def to_digit_def)
  from Nil obtain k' where "k = Suc k'" by (cases k) auto
  with Nil num show ?case
    by (simp add: colon_groups_def read_sep_no_dot) (simp add: read_separator_def read_char_def)
next
  case (Cons g gs)
  obtain k' where k: "k = Suc k'" using Cons.prems by (cases k) auto
  have "CHR ''.'' \<notin> set (colon_groups (g # gs) @ ''::'')"
    using groups_chars(1) [of "CHR ''.''" "g # gs"] by auto
  note none = read_sep_no_dot [OF this, of i]
  have st: "stops 16 (colon_groups gs @ ''::'')" by (cases gs) (simp_all add: colon_groups_def stops_colon)
  have "read_separator (CHR '':'') i (read_number 16 4 True 65535) (colon_groups (g # gs) @ ''::'')
      = Some (unat g, colon_groups gs @ ''::'')"
    using Cons.prems read_group [OF u16_le st, of g]
    by (simp add: read_separator_def read_char_def colon_groups_def)
  then show ?case
    using Cons.IH [of k' "Suc i"] Cons.prems none by (simp add: k)
qed

lemma read_show_groups:
  assumes "length gs < k"
  shows "read_groups k 0 (show_groups gs @ ''::'') = (gs, False, ''::'')"
proof (cases gs)
  case Nil
  have num: "read_number 16 4 True 65535 ''::'' = None" by (simp add: read_number_def to_digit_def)
  obtain k' where "k = Suc k'" using assms by (cases k) auto
  with Nil num show ?thesis
    by (simp add: show_groups_def read_sep_no_dot) (simp add: read_separator_def)
next
  case (Cons g gs')
  obtain k' where k: "k = Suc k'" using assms by (cases k) auto
  have "CHR ''.'' \<notin> set (show_groups gs @ ''::'')"
    using groups_chars(2) [of "CHR ''.''" gs] by auto
  note none = read_sep_no_dot [OF this, of 0]
  have st: "stops 16 (colon_groups gs' @ ''::'')" by (cases gs') (simp_all add: colon_groups_def stops_colon)
  have "read_separator (CHR '':'') 0 (read_number 16 4 True 65535) (show_groups gs @ ''::'')
      = Some (unat g, colon_groups gs' @ ''::'')"
    using read_group [OF u16_le st, of g] by (simp add: read_separator_def Cons show_groups_Cons)
  then show ?thesis
    using read_colon_groups [of gs' k' 1] assms none by (simp add: k Cons)
qed

lemma read_groups_nil: "read_groups k 0 [] = ([], False, [])"
  by (cases k) (simp_all add: read_separator_def read_ipv4_no_dot read_number_def)

lemma read_ipv6_short:
  assumes "length gs < 7"
  shows "read_ipv6 (show_groups gs @ ''::'') = Some (gs @ replicate (8 - length gs) 0, [])"
  using assms by (simp add: read_ipv6_def read_show_groups read_char_def read_groups_nil)


text \<open>The segments of a /64 end in four zeros, the longest run of zeros there can be.\<close>

lemma show_prefix:
  obtains gs where "length gs < 7" "show_ipv6 (prefix_segments p) = show_groups gs @ ''::''"
    "gs @ replicate (8 - length gs) 0 = prefix_segments p"
proof -
  define a :: u16 where "a = ucast (drop_bit 48 p)"
  define b :: u16 where "b = ucast (drop_bit 32 p)"
  define c :: u16 where "c = ucast (drop_bit 16 p)"
  define d :: u16 where "d = ucast p"
  have ps: "prefix_segments p = [a, b, c, d, 0, 0, 0, 0]"
    by (simp add: prefix_segments_def a_def b_def c_def d_def)
  define n where "n = (if d \<noteq> 0 then 4 else if c \<noteq> 0 then 3 else if b \<noteq> 0 then 2 else if a \<noteq> 0 then 1 else 0 :: nat)"
  have span: "zero_span [a, b, c, d, 0, 0, 0, 0] 0 (0, 0) (0, 0) = (n, 8 - n)"
    by (simp add: n_def)
  have n: "n \<le> 4" by (simp add: n_def)
  then have "show_ipv6 (prefix_segments p) = show_groups (take n (prefix_segments p)) @ ''::''"
    unfolding ps using span by (simp add: show_ipv6_def) (simp add: show_groups_def)
  moreover have "take n (prefix_segments p) @ replicate (8 - n) 0 = prefix_segments p"
    by (simp add: ps n_def eval_nat_numeral)
  moreover have "length (take n (prefix_segments p)) = n" using n by (simp add: ps)
  ultimately show ?thesis using n by (intro that [of "take n (prefix_segments p)"]) auto
qed

lemma v6_prefix_segments: "v6_prefix (prefix_segments p) = p"
proof (rule bit_word_eqI)
  fix n assume "n < LENGTH(64)"
  then show "bit (v6_prefix (prefix_segments p)) n = bit p n"
    by (cases "n < 16"; cases "n < 32"; cases "n < 48")
      (auto simp: v6_prefix_def prefix_segments_def bit_simps dest: bit_imp_le_length)
qed

lemma show_nat_chars: "c \<in> set (show_nat n) \<Longrightarrow> c \<noteq> CHR ''/'' \<and> \<not> is_ws c"
proof -
  assume "c \<in> set (show_nat n)"
  then have "is_digit c" using show_nat_digits [of n] by (auto simp: list_all_iff)
  then show ?thesis by (auto simp: is_digit_def is_ws_def)
qed

lemma trim_id: "(\<And>c. c \<in> set s \<Longrightarrow> \<not> is_ws c) \<Longrightarrow> trim s = s"
  by (simp add: trim_def list_all_iff trim_by_id)

lemma strip_suffix_append: "strip_suffix p (s @ p) = Some s"
  by (simp add: strip_suffix_def ends_with_def starts_with_def)

lemma strip_suffix_None:
  assumes "c \<in> set p" "c \<notin> set s"
  shows "strip_suffix p s = None"
proof -
  have "take (length p) (rev s) \<noteq> rev p"
    using assms by (metis in_set_takeD set_rev)
  then show ?thesis by (simp add: strip_suffix_def ends_with_def starts_with_def)
qed

lemma src_of_show: "src_from_str (show_src s) = Some s"
proof (cases s)
  case (V4 ip)
  have chars: "c \<noteq> CHR ''/'' \<and> \<not> is_ws c" if "c \<in> set (show_ipv4 ip)" for c
  proof -
    from that obtain n where "c = CHR ''.'' \<or> c \<in> set (show_nat n)"
      by (auto simp: show_ipv4_def ip_octets_eq)
    then show ?thesis using show_nat_chars [of c n] by (auto simp: is_ws_def)
  qed
  then have "trim (show_ipv4 ip) = show_ipv4 ip" by (intro trim_id) auto
  moreover have "strip_suffix ''/64'' (show_ipv4 ip) = None"
    using chars by (intro strip_suffix_None [of "CHR ''/''"]) auto
  ultimately show ?thesis
    by (simp add: V4 src_from_str_def parse_ip_def read_ip_def parse_with_def read_show_ipv4)
next
  case (V6 p)
  obtain gs where gs: "length gs < 7" "show_ipv6 (prefix_segments p) = show_groups gs @ ''::''"
    "gs @ replicate (8 - length gs) 0 = prefix_segments p"
    by (rule show_prefix)
  have nws: "\<not> is_ws c" if "c \<in> set (show_groups gs @ ''::/64'')" for c
    using that groups_chars(2) [of c gs] by (auto simp: is_ws_def)
  then have "trim (show_groups gs @ ''::/64'') = show_groups gs @ ''::/64''" by (rule trim_id)
  moreover have "strip_suffix ''/64'' (show_groups gs @ ''::/64'') = Some (show_groups gs @ ''::'')"
    using strip_suffix_append [of "''/64''" "show_groups gs @ ''::''"] by simp
  moreover have "read_ipv4 (show_groups gs @ ''::'') = None"
    using groups_chars(2) [of "CHR ''.''" gs] by (intro read_ipv4_no_dot) auto
  ultimately show ?thesis
    using gs(1)
    by (simp add: V6 gs(2) src_from_str_def parse_ip_def read_ip_def parse_with_def read_ipv6_short gs(3)
        v6_prefix_segments)
qed

text \<open>A source survives its text form: what is printed in the status, the state file and the history reads
  back as the same address or /64.\<close>

theorem src_round_trip: "src_from_str (show_src s) = Some s"
  by (rule src_of_show)

end
