(* ===== verification/Config.thy ===== *)
theory Config
  imports Addr
begin

text \<open>
  The configuration (src/ai-firewall/src/config.rs): port specifications, rules with rate limits, IPv4
  networks, the config with its defaults, validation, profiles and the policy in force, and the files the
  daemon reads it from and edits. The TOML library is a parameter: \<open>toml\<close> decodes a text into a config,
  \<open>toml_edit\<close> is a document that can be read and changed under a key.
\<close>

section \<open>Errors\<close>

datatype error =
    Msg string
  | Bad string string
  | Ctx string error

definition ctx :: "string \<Rightarrow> error + 'a \<Rightarrow> error + 'a" where
  "ctx what r = (case r of Inl e \<Rightarrow> Inl (Ctx what e) | Inr x \<Rightarrow> Inr x)"

definition opt_ok :: "error \<Rightarrow> 'a option \<Rightarrow> error + 'a" where
  "opt_ok e x = (case x of Some v \<Rightarrow> Inr v | None \<Rightarrow> Inl e)"

lemma ctx_simps [simp]: "ctx w (Inl e) = Inl (Ctx w e)" "ctx w (Inr x) = Inr x"
  by (simp_all add: ctx_def)

lemma ctx_Inr_iff [simp]: "ctx w r = Inr x \<longleftrightarrow> r = Inr x"
  by (cases r) auto

lemma opt_ok_Inr_iff [simp]: "opt_ok e x = Inr v \<longleftrightarrow> x = Some v"
  by (cases x) (auto simp: opt_ok_def)

section \<open>Ports\<close>

datatype port_spec = One u16 | Text string

fun ports :: "port_spec \<Rightarrow> error + (u16 \<times> u16)" where
  "ports (One p) = (if p = 0 then Inl (Msg ''port 0 is not a port'') else Inr (p, p))"
| "ports (Text t) =
     (let (a, b) = (case split_once (CHR ''-'') t of Some ab \<Rightarrow> ab | None \<Rightarrow> (t, t)) in
      rbind (opt_ok (Bad ''port'' t) (parse_u16 (trim a))) (\<lambda>a.
      rbind (opt_ok (Bad ''port'' t) (parse_u16 (trim b))) (\<lambda>b.
        if a = 0 \<or> b < a \<or> b - a \<ge> 4096 then Inl (Bad ''port range'' t) else Inr (a, b))))"

fun spec_label :: "port_spec \<Rightarrow> string" where
  "spec_label (One p) = show_word p"
| "spec_label (Text t) = trim t"

definition port_range :: "u16 \<times> u16 \<Rightarrow> u16 list" where
  "port_range r = map of_nat [unat (fst r)..<Suc (unat (snd r))]"

definition expand :: "port_spec list \<Rightarrow> error + u16 list" where
  "expand specs = rbind (rmap ports specs) (\<lambda>rs. Inr (remdups_adj (sort (concat (map port_range rs)))))"

section \<open>Rules\<close>

record rule =
  r_proto :: string
  r_port :: port_spec
  r_from :: "string option"
  r_limit :: "string option"

text \<open>The multiplication by 60 is on \<^typ>\<open>u32\<close> and wraps (the release build has no overflow checks).\<close>

definition rate :: "rule \<Rightarrow> error + (u16 \<times> u16) option" where
  "rate r =
     (case r_limit r of
        None \<Rightarrow> Inr None
      | Some l \<Rightarrow>
          (case split_once (CHR ''/'') l of
             None \<Rightarrow> Inl (Bad ''limit shape'' l)
           | Some (n, w0) \<Rightarrow>
               let w = trim w0;
                   (num, mult) =
                     (if w \<noteq> [] \<and> last w = CHR ''s'' then (butlast w, 1)
                      else if w \<noteq> [] \<and> last w = CHR ''m'' then (butlast w, 60)
                      else (w, 1 :: u32))
               in rbind (opt_ok (Bad ''limit'' l) (parse_u16 (trim n))) (\<lambda>n.
                  rbind (opt_ok (Bad ''limit'' l) (parse_u32 (trim num))) (\<lambda>s.
                    let secs = s * mult in
                    if n = 0 \<or> secs = 0 \<or> secs > 3600 then Inl (Bad ''limit range'' l)
                    else Inr (Some (n, ucast secs))))))"

definition rule_label :: "rule \<Rightarrow> string" where
  "rule_label r =
     r_proto r @ '' '' @ spec_label (r_port r)
     @ (case r_from r of Some f \<Rightarrow> '' from '' @ f | None \<Rightarrow> [])
     @ (case r_limit r of Some l \<Rightarrow> '' limit '' @ l | None \<Rightarrow> [])"

definition rule_eq :: "rule \<Rightarrow> rule \<Rightarrow> bool" where
  "rule_eq a b = (rule_label a = rule_label b)"

section \<open>The config\<close>

record feed_config =
  f_lists :: "string list"
  f_urls :: "string list"
  f_refresh_hours :: u64

record profile =
  pr_networks :: "string list"
  pr_allow_tcp :: "port_spec list option"
  pr_allow_udp :: "port_spec list option"
  pr_allow_ping :: "bool option"
  pr_rules :: "rule list option"

record notify_config =
  n_bans :: bool

record assistant_config =
  a_enabled :: bool
  a_model :: string
  a_url :: "string option"

record detector_config =
  d_window_secs :: u64
  d_syn_limit :: u32
  d_port_limit :: u32
  d_udp_limit :: u32
  d_drop_limit :: u32

record ban_config =
  b_base_secs :: u64
  b_max_secs :: u64
  b_forgive_secs :: u64

text \<open>\<open>profiles\<close> is a \<open>BTreeMap\<close>: an association list sorted by name.\<close>

record config =
  c_mode :: string
  c_interface :: string
  c_allow_tcp :: "port_spec list"
  c_allow_udp :: "port_spec list"
  c_allow_ping :: bool
  c_keep_vm_forwarding :: bool
  c_udp_strict :: bool
  c_trusted :: "string list"
  c_blocked :: "string list"
  c_detector :: detector_config
  c_bans :: ban_config
  c_assistant :: assistant_config
  c_rules :: "rule list"
  c_feeds :: feed_config
  c_profiles :: "(string \<times> profile) list"
  c_notify :: notify_config
  c_posture :: "string option"

definition feed_default :: feed_config where
  "feed_default = \<lparr>f_lists = [''spamhaus-drop''], f_urls = [], f_refresh_hours = 24\<rparr>"

definition profile_default :: profile where
  "profile_default =
     \<lparr>pr_networks = [], pr_allow_tcp = None, pr_allow_udp = None, pr_allow_ping = None, pr_rules = None\<rparr>"

definition notify_default :: notify_config where
  "notify_default = \<lparr>n_bans = True\<rparr>"

definition assistant_default :: assistant_config where
  "assistant_default = \<lparr>a_enabled = True, a_model = ''auto'', a_url = None\<rparr>"

definition detector_default :: detector_config where
  "detector_default =
     \<lparr>d_window_secs = 10, d_syn_limit = 40, d_port_limit = 12, d_udp_limit = 150, d_drop_limit = 30\<rparr>"

definition ban_default :: ban_config where
  "ban_default = \<lparr>b_base_secs = 120, b_max_secs = 86400, b_forgive_secs = 21600\<rparr>"

definition default_mode :: string where "default_mode = ''enforce''"
definition default_iface :: string where "default_iface = ''auto''"

text \<open>What an empty file decodes to, and the commented file the daemon writes the first time.\<close>

definition config_default :: config where
  "config_default =
     \<lparr>c_mode = default_mode, c_interface = default_iface, c_allow_tcp = [], c_allow_udp = [], c_allow_ping = True,
      c_keep_vm_forwarding = True, c_udp_strict = True, c_trusted = [], c_blocked = [],
      c_detector = detector_default, c_bans = ban_default, c_assistant = assistant_default, c_rules = [],
      c_feeds = feed_default, c_profiles = [], c_notify = notify_default, c_posture = None\<rparr>"

definition str_of_lines :: "string list \<Rightarrow> string" where
  "str_of_lines ls = concat (map (\<lambda>l. l @ newline) ls)"

definition DEFAULT_CONFIG :: string where
  \<open>DEFAULT_CONFIG = str_of_lines [
    ''# ai-firewall config. Apply changes with: sudo systemctl reload ai-firewall'',
    '''',
    ''# "enforce" drops traffic; "monitor" only logs what it would drop or ban'',
    ''mode = "enforce"'',
    '''',
    ''# "auto" follows the default route (wifi <-> ethernet), or name one, e.g. "wlp3s0"'',
    ''interface = "auto"'',
    '''',
    ''# Inbound ports open to everyone (like `ufw allow 22/tcp`); ranges are strings: "1714-1764".'',
    ''# Outbound traffic is always allowed.'',
    ''allow_tcp = []'',
    ''# 68 and 546 (DHCP client) are always open so you never lose your lease.'',
    ''# 5353 = mDNS (printers, .local names)'',
    ''allow_udp = [5353]'',
    '''',
    ''allow_ping = true'',
    '''',
    ''# Docker (and ufw) set a drop-by-default FORWARD policy that silently cuts libvirt'',
    ''# VMs off the internet. Keep a narrow exception for VM bridges in place.'',
    ''keep_vm_forwarding = true'',
    '''',
    ''# UDP to your high ports only gets in as a reply to something you sent (like ufw's'',
    ''# connection tracking). Turn off if a peer-to-peer app or game stops connecting.'',
    ''udp_strict = true'',
    '''',
    ''# Addresses or CIDRs never auto-banned (your router, DNS servers and own'',
    ''# addresses are protected automatically). e.g. ["192.168.1.0/24"]'',
    ''trusted = []'',
    '''',
    ''# Addresses or CIDRs always dropped, e.g. ["203.0.113.7"]'',
    ''blocked = []'',
    '''',
    ''# Narrower rules: a port open only to some addresses, and / or a limit on new'',
    ''# connections per source (over it, that source's new connections are dropped'',
    ''# and count towards a ban). Examples:'',
    ''# [[rule]]'',
    ''# proto = "tcp"'',
    ''# port = 22'',
    ''# from = "192.168.1.0/24"   # leave out = from anywhere'',
    ''# limit = "6/30s"           # tcp only: at most 6 new connections per 30 s per source'',
    ''#'',
    ''# [[rule]]'',
    ''# proto = "tcp"'',
    ''# port = "1714-1764"        # KDE Connect'',
    ''# from = "192.168.1.0/24"'',
    '''',
    ''# Lists of known-bad networks, downloaded and refreshed by the daemon.'',
    ''# Private and LAN ranges are always taken out of them.'',
    ''[feeds]'',
    ''# spamhaus-drop: hijacked / criminal netblocks (small, very few false positives)'',
    ''# firehol-level1: a bigger mix of attack sources (also blocks more by mistake)'',
    ''lists = ["spamhaus-drop"]'',
    ''# your own: plain text, one address or CIDR per line'',
    ''urls = []'',
    ''refresh_hours = 24'',
    '''',
    ''# Network profiles: different open ports per network, picked by the'',
    ''# NetworkManager connection name (`nmcli connection show --active`).'',
    ''# A profile only replaces what it sets; anywhere else the settings above apply.'',
    ''# [profiles.home]'',
    ''# networks = ["MyHomeWifi", "Wired connection 1"]'',
    ''# allow_tcp = [22, "1714-1764"]'',
    ''# allow_ping = true'',
    '''',
    ''[notify]'',
    ''# A desktop notification when a source is banned (several at once are grouped)'',
    ''bans = true'',
    '''',
    ''[detector]'',
    ''# Threat score is summed per source IP over this window; 1.0 or more = ban'',
    ''window_secs = 10'',
    ''# New TCP connection attempts per window'',
    ''syn_limit = 40'',
    ''# Distinct ports probed per window (port scan)'',
    ''port_limit = 12'',
    ''# Unsolicited UDP packets per window'',
    ''udp_limit = 150'',
    ''# Packets dropped by policy per window'',
    ''drop_limit = 30'',
    '''',
    ''[assistant]'',
    ''# Ask the firewall what's wrong (in `ai-firewall top`, press a). Uses a local model only:'',
    ''# LUNA's model if LUNA is set up, else Ollama. Without one you still get the doctor.'',
    ''enabled = true'',
    ''# "auto": qwen3.5:4b when installed (ollama pull qwen3.5:4b), else LUNA's model, else a small installed one'',
    ''model = "auto"'',
    ''# url = "http://localhost:11434"'',
    '''',
    ''[bans]'',
    ''# First ban length; each repeat offence doubles it up to max_secs'',
    ''base_secs = 120'',
    ''max_secs = 86400'',
    ''# A source that stays quiet this long gets its strikes reset'',
    ''forgive_secs = 21600'']\<close>

definition DEFAULT_PATH :: string where "DEFAULT_PATH = ''/etc/ai-firewall/config.toml''"
definition LAST_GOOD :: string where "LAST_GOOD = ''/var/lib/ai-firewall/last-good.toml''"

text \<open>The config that text says: the default with mDNS open.\<close>

definition shipped_config :: config where
  "shipped_config = config_default\<lparr>c_allow_udp := [One 5353]\<rparr>"

section \<open>IPv4 networks\<close>

record cidr =
  ci_net :: u32
  ci_mask :: u32

definition cidr_mask :: "u32 \<Rightarrow> u32" where
  "cidr_mask bits = (if bits = 0 then 0 else push_bit (unat (32 - bits)) (- 1))"

definition cidr_parse :: "string \<Rightarrow> error + cidr" where
  "cidr_parse s =
     rbind (case split_once (CHR ''/'') s of
              Some (a, b) \<Rightarrow> rbind (opt_ok (Bad ''prefix'' s) (parse_u32 b)) (\<lambda>bits. Inr (a, bits))
            | None \<Rightarrow> Inr (s, 32)) (\<lambda>(addr, bits).
       if bits > 32 then Inl (Bad ''prefix'' s)
       else rbind (opt_ok (Bad ''address'' s) (parse_ipv4 (trim addr))) (\<lambda>ip.
         let mask = cidr_mask bits in Inr \<lparr>ci_net = ip AND mask, ci_mask = mask\<rparr>))"

definition cidr_single :: "u32 \<Rightarrow> cidr" where
  "cidr_single ip = \<lparr>ci_net = ip, ci_mask = - 1\<rparr>"

definition cidr_contains :: "cidr \<Rightarrow> u32 \<Rightarrow> bool" where
  "cidr_contains c ip = (ip AND ci_mask c = ci_net c)"

definition leading_ones :: "u32 \<Rightarrow> nat" where
  "leading_ones w = length (takeWhile (bit w) (rev [0..<32]))"


section \<open>Profiles and policy\<close>

record policy =
  p_profile :: "string option"
  p_allow_tcp :: "port_spec list"
  p_allow_udp :: "port_spec list"
  p_allow_ping :: bool
  p_rules :: "rule list"

definition profile_for :: "config \<Rightarrow> string list \<Rightarrow> string option" where
  "profile_for c active =
     map_option fst (find (\<lambda>(_, p). list_ex (\<lambda>n. list_ex (\<lambda>a. a = n) active) (pr_networks p)) (c_profiles c))"

definition opt_or :: "'a option \<Rightarrow> 'a \<Rightarrow> 'a" where
  "opt_or x d = (case x of Some v \<Rightarrow> v | None \<Rightarrow> d)"

definition policy_of :: "config \<Rightarrow> string option \<Rightarrow> policy" where
  "policy_of c prof =
     (let p = Option.bind prof (map_of (c_profiles c)) in
      \<lparr>p_profile = (if p = None then None else prof),
       p_allow_tcp = opt_or (Option.bind p pr_allow_tcp) (c_allow_tcp c),
       p_allow_udp = opt_or (Option.bind p pr_allow_udp) (c_allow_udp c),
       p_allow_ping = opt_or (Option.bind p pr_allow_ping) (c_allow_ping c),
       p_rules = opt_or (Option.bind p pr_rules) (c_rules c)\<rparr>)"

definition enforce :: "config \<Rightarrow> bool" where
  "enforce c = (c_mode c = ''enforce'')"

definition trusted_cidrs :: "config \<Rightarrow> error + cidr list" where
  "trusted_cidrs c = rmap cidr_parse (c_trusted c)"

definition blocked_cidrs :: "config \<Rightarrow> error + cidr list" where
  "blocked_cidrs c = rmap cidr_parse (c_blocked c)"

section \<open>Validation\<close>

definition KNOWN :: "(string \<times> string) list" where
  "KNOWN =
     [(''spamhaus-drop'', ''https://www.spamhaus.org/drop/drop_v4.json''),
      (''firehol-level1'',
       ''https://raw.githubusercontent.com/firehol/blocklist-ipsets/master/firehol_level1.netset'')]"

definition known :: "string \<Rightarrow> string option" where
  "known name = map_option snd (find (\<lambda>k. fst k = name) KNOWN)"

definition check_rule :: "string \<Rightarrow> rule \<Rightarrow> error + unit" where
  "check_rule what r =
     rbind (rcheck (r_proto r = ''tcp'' \<or> r_proto r = ''udp'') (Bad (what @ '' rule proto'') (rule_label r))) (\<lambda>_.
     rbind (ctx (what @ '' rule '' @ rule_label r) (ports (r_port r))) (\<lambda>_.
     rbind (case r_from r of
              Some f \<Rightarrow> rbind (ctx (what @ '' rule '' @ rule_label r) (cidr_parse f)) (\<lambda>_. Inr ())
            | None \<Rightarrow> Inr ()) (\<lambda>_.
     rbind (rate r) (\<lambda>q.
       rcheck (\<not> (q \<noteq> None \<and> r_proto r \<noteq> ''tcp'')) (Bad (what @ '' rule limit'') (rule_label r))))))"

definition check_policy :: "string \<Rightarrow> port_spec list \<Rightarrow> port_spec list \<Rightarrow> rule list \<Rightarrow> error + unit" where
  "check_policy what tcp udp rules =
     rbind (ctx (what @ '' allow_tcp'') (expand tcp)) (\<lambda>_.
     rbind (ctx (what @ '' allow_udp'') (expand udp)) (\<lambda>_.
     rbind (rmap (check_rule what) rules) (\<lambda>_. Inr ())))"

definition validate :: "config \<Rightarrow> error + unit" where
  "validate c =
     rbind (rcheck (c_mode c = ''enforce'' \<or> c_mode c = ''monitor'') (Bad ''mode'' (c_mode c))) (\<lambda>_.
     rbind (trusted_cidrs c) (\<lambda>_.
     rbind (check_policy [] (c_allow_tcp c) (c_allow_udp c) (c_rules c)) (\<lambda>_.
     rbind (rmap (\<lambda>(name, p). check_policy (''profile '' @ name @ '':'')
              (opt_or (pr_allow_tcp p) []) (opt_or (pr_allow_udp p) []) (opt_or (pr_rules p) [])) (c_profiles c)) (\<lambda>_.
     rbind (rmap (\<lambda>n. rcheck (known n \<noteq> None) (Bad ''unknown feed'' n)) (f_lists (c_feeds c))) (\<lambda>_.
     rbind (rmap (\<lambda>u. rcheck (starts_with ''https://'' u) (Bad ''feed url'' u)) (f_urls (c_feeds c))) (\<lambda>_.
     rbind (blocked_cidrs c) (\<lambda>bs.
     rbind (rmap (\<lambda>b. rcheck (\<not> leading_ones (ci_mask b) < 20) (Msg ''blocked ranges'')) bs) (\<lambda>_.
     let d = c_detector c in
     rbind (rcheck (\<not> (d_window_secs d = 0 \<or> d_syn_limit d = 0 \<or> d_port_limit d = 0 \<or> d_udp_limit d = 0
                        \<or> d_drop_limit d = 0)) (Msg ''detector values must be above 0'')) (\<lambda>_.
       rcheck (\<not> (b_base_secs (c_bans c) = 0 \<or> b_max_secs (c_bans c) < b_base_secs (c_bans c)))
         (Msg ''bans: base_secs must be above 0 and max_secs at least base_secs''))))))))))"

definition parse_config :: "(string \<Rightarrow> error + config) \<Rightarrow> string \<Rightarrow> error + config" where
  "parse_config toml text = rbind (toml text) (\<lambda>cfg. rbind (validate cfg) (\<lambda>_. Inr cfg))"

section \<open>Config files\<close>

text \<open>A file system as the code sees it: the files that can be read, and the paths whose writing succeeds
  (with the directories above them).\<close>

record fsys =
  files :: "string \<rightharpoonup> string"
  writable :: "string \<Rightarrow> bool"
  renamable :: "string \<Rightarrow> bool"

definition write_file :: "string \<Rightarrow> string \<Rightarrow> fsys \<Rightarrow> fsys \<times> bool" where
  "write_file path data fs =
     (if writable fs path then (fs\<lparr>files := (files fs)(path \<mapsto> data)\<rparr>, True) else (fs, False))"

text \<open>\<open>Path::with_extension\<close> for the names the code passes: the last component has an extension.\<close>

definition with_extension :: "string \<Rightarrow> string \<Rightarrow> string" where
  "with_extension ext path = rev (drop 1 (dropWhile (\<lambda>c. c \<noteq> CHR ''.'') (rev path))) @ ''.'' @ ext"

definition write_atomic :: "string \<Rightarrow> string \<Rightarrow> fsys \<Rightarrow> fsys \<times> (error + unit)" where
  "write_atomic path data fs =
     (let tmp = with_extension ''tmp'' path; (fs1, ok) = write_file tmp data fs in
      if \<not> ok then (fs, Inl (Bad ''write'' tmp))
      else if \<not> renamable fs path then (fs1, Inl (Bad ''rename'' path))
      else (fs1\<lparr>files := (files fs1)(tmp := None, path \<mapsto> data)\<rparr>, Inr ()))"

definition read_to_string :: "string \<Rightarrow> fsys \<Rightarrow> error + string" where
  "read_to_string path fs = opt_ok (Bad ''reading'' path) (files fs path)"

definition load_or_create :: "(string \<Rightarrow> error + config) \<Rightarrow> string \<Rightarrow> fsys \<Rightarrow> fsys \<times> (error + config)" where
  "load_or_create toml path fs =
     (let rd = (\<lambda>fs. ctx (''in '' @ path) (rbind (read_to_string path fs) (parse_config toml))) in
      if files fs path = None then
        let (fs1, written) = write_file path DEFAULT_CONFIG fs
        in if \<not> written then (fs1, parse_config toml DEFAULT_CONFIG) else (fs1, rd fs1)
      else (fs, rd fs))"

text \<open>\<open>None\<close> is the panic of \<open>expect\<close>.\<close>

definition load_at_start ::
  "(string \<Rightarrow> error + config) \<Rightarrow> string \<Rightarrow> fsys \<Rightarrow> fsys \<times> (config \<times> error option) option" where
  "load_at_start toml path fs =
     (let (fs1, r) = load_or_create toml path fs in
      case r of
        Inr cfg \<Rightarrow> (fs1, Some (cfg, None))
      | Inl e \<Rightarrow>
          (case rbind (read_to_string LAST_GOOD fs1) (parse_config toml) of
             Inr cfg \<Rightarrow> (fs1, Some (cfg, Some e))
           | Inl _ \<Rightarrow>
               (case parse_config toml DEFAULT_CONFIG of
                  Inr cfg \<Rightarrow> (fs1, Some (cfg, Some e))
                | Inl _ \<Rightarrow> (fs1, None))))"

definition remember_good :: "string \<Rightarrow> fsys \<Rightarrow> fsys" where
  "remember_good path fs =
     (case files fs path of Some text \<Rightarrow> fst (write_atomic LAST_GOOD text fs) | None \<Rightarrow> fs)"

text \<open>An editable document: what stands under a key, and how to put a list there.\<close>

datatype toml_value = TInt nat | TStr string | TOther

datatype toml_item = Missing | Arr "toml_value list" | NoArr

record 'd toml_edit =
  te_parse :: "string \<Rightarrow> error + 'd"
  te_get :: "'d \<Rightarrow> string \<Rightarrow> toml_item"
  te_put :: "'d \<Rightarrow> string \<Rightarrow> toml_value list \<Rightarrow> 'd"
  te_show :: "'d \<Rightarrow> string"

fun names_port :: "port_spec \<Rightarrow> toml_value \<Rightarrow> bool" where
  "names_port (One p) v = (v = TInt (unat p))"
| "names_port (Text t) (TStr s) = (trim s = trim t)"
| "names_port (Text t) _ = False"

fun port_value :: "port_spec \<Rightarrow> toml_value" where
  "port_value (One p) = TInt (unat p)"
| "port_value (Text t) = TStr (trim t)"

fun position :: "('a \<Rightarrow> bool) \<Rightarrow> 'a list \<Rightarrow> nat option" where
  "position p [] = None"
| "position p (x # xs) = (if p x then Some 0 else map_option Suc (position p xs))"

definition remove_at :: "nat \<Rightarrow> 'a list \<Rightarrow> 'a list" where
  "remove_at i xs = take i xs @ drop (Suc i) xs"

definition edit_list :: "port_spec \<Rightarrow> bool \<Rightarrow> toml_value list \<Rightarrow> toml_value list option" where
  "edit_list port opn vs =
     (case (opn, position (names_port port) vs) of
        (True, None) \<Rightarrow> Some (vs @ [port_value port])
      | (False, Some i) \<Rightarrow> Some (remove_at i vs)
      | _ \<Rightarrow> None)"

definition set_port ::
  "(string \<Rightarrow> error + config) \<Rightarrow> 'd toml_edit \<Rightarrow> string \<Rightarrow> string \<Rightarrow> port_spec \<Rightarrow> bool \<Rightarrow> fsys
     \<Rightarrow> fsys \<times> (error + bool)" where
  "set_port toml te path proto port opn fs =
     (let prep =
        rbind (ports port) (\<lambda>_.
        rbind (if proto = ''tcp'' then Inr ''allow_tcp'' else if proto = ''udp'' then Inr ''allow_udp''
               else Inl (Msg ''protocol must be tcp or udp'')) (\<lambda>key.
        rbind (read_to_string path fs) (\<lambda>text.
        rbind (te_parse te text) (\<lambda>doc0.
        let doc = (if te_get te doc0 key = Missing then te_put te doc0 key [] else doc0) in
        (case te_get te doc key of
           Arr vs \<Rightarrow>
             (case edit_list port opn vs of
                Some vs' \<Rightarrow> (let new = te_show te (te_put te doc key vs')
                             in rbind (parse_config toml new) (\<lambda>_. Inr (Some new)))
              | None \<Rightarrow> Inr None)
         | _ \<Rightarrow> Inl (Bad ''not a list'' key))))))
      in case prep of
           Inl e \<Rightarrow> (fs, Inl e)
         | Inr None \<Rightarrow> (fs, Inr False)
         | Inr (Some new) \<Rightarrow> (let (fs', r) = write_atomic path new fs in (fs', rbind r (\<lambda>_. Inr True))))"


section \<open>Ports and rates\<close>

lemma ports_ok: "ports s = Inr (a, b) \<Longrightarrow> a \<noteq> 0 \<and> a \<le> b \<and> unat b - unat a < 4096"
proof (cases s)
  case (One p)
  moreover assume "ports s = Inr (a, b)"
  ultimately show ?thesis by (auto split: if_splits)
next
  case (Text t)
  moreover assume "ports s = Inr (a, b)"
  ultimately have h: "a \<noteq> 0" "\<not> b < a" "\<not> b - a \<ge> 4096"
    by (auto simp: rbind_Inr_iff Let_def split: if_splits prod.splits)
  then have "a \<le> b" by simp
  moreover have "unat (b - a) < 4096" using h(3) by (simp add: not_le word_less_nat_alt)
  ultimately have "unat b - unat a < 4096" "a \<le> b" by (simp_all add: unat_sub word_le_nat_alt)
  then show ?thesis using h(1) by blast
qed

lemma set_port_range: "p \<in> set (port_range (a, b)) \<longleftrightarrow> a \<le> p \<and> p \<le> b"
proof -
  have "p \<in> set (port_range (a, b)) \<longleftrightarrow> (\<exists>n. unat a \<le> n \<and> n \<le> unat b \<and> p = of_nat n)"
    by (auto simp: port_range_def)
  also have "\<dots> \<longleftrightarrow> unat a \<le> unat p \<and> unat p \<le> unat b"
  proof
    assume "\<exists>n. unat a \<le> n \<and> n \<le> unat b \<and> p = of_nat n"
    then obtain n where n: "unat a \<le> n" "n \<le> unat b" "p = of_nat n" by blast
    then have "n < 2 ^ 16" using unat_lt2p16 [of b] by simp
    then show "unat a \<le> unat p \<and> unat p \<le> unat b" using n by (simp add: unat_of_nat)
  next
    assume "unat a \<le> unat p \<and> unat p \<le> unat b"
    then show "\<exists>n. unat a \<le> n \<and> n \<le> unat b \<and> p = of_nat n" by (intro exI [of _ "unat p"]) simp
  qed
  finally show ?thesis by (simp add: word_le_nat_alt)
qed

lemma distinct_sorted_adj: "sorted xs \<Longrightarrow> distinct (remdups_adj xs)"
  by (induction xs rule: remdups_adj.induct) (auto simp: order.order_iff_strict)

lemma expand_mem:
  assumes "expand specs = Inr ps"
  shows "p \<in> set ps \<longleftrightarrow> (\<exists>s \<in> set specs. \<exists>a b. ports s = Inr (a, b) \<and> a \<le> p \<and> p \<le> b)"
proof -
  obtain rs where rs: "rmap ports specs = Inr rs" and ps: "ps = remdups_adj (sort (concat (map port_range rs)))"
    using assms by (auto simp: expand_def rbind_Inr_iff)
  have "p \<in> set ps \<longleftrightarrow> (\<exists>r \<in> set rs. p \<in> set (port_range r))"
    by (simp add: ps)
  then show ?thesis using rmap_set [OF rs] set_port_range by fastforce
qed

lemma expand_sorted: "expand specs = Inr ps \<Longrightarrow> sorted ps \<and> distinct ps"
  by (auto simp: expand_def rbind_Inr_iff distinct_sorted_adj sorted_remdups_adj)

text \<open>Expanding a list of ports and ranges gives exactly the ports some entry names, sorted and without
  repetition, and never port 0.\<close>

theorem expand_exact:
  assumes "expand specs = Inr ps"
  shows "sorted ps \<and> distinct ps \<and> 0 \<notin> set ps
    \<and> (\<forall>p. p \<in> set ps \<longleftrightarrow> (\<exists>s \<in> set specs. \<exists>a b. ports s = Inr (a, b) \<and> a \<le> p \<and> p \<le> b))"
proof -
  have "0 \<notin> set ps" using ports_ok by (fastforce simp: expand_mem [OF assms])
  then show ?thesis using expand_sorted [OF assms] expand_mem [OF assms] by blast
qed

lemma expand_exact_witness:
  "expand [One 80, One 22] = Inr [22, 80] \<and> sorted [22, 80 :: u16] \<and> (0 :: u16) \<notin> set [22, 80]"
proof -
  have e: "expand [One 80, One 22] = Inr [22, 80]" by code_simp
  from expand_exact [OF e] e show ?thesis by simp
qed

lemmas text_eval = trim_def trim_by_def trim_start_by_def trim_end_by_def is_ws_def parse_u16_def parse_u32_def
  parse_uint_def is_digit_def digits_val_def digit_val_def opt_ok_def

lemma rate_Some:
  assumes "rate r = Inr (Some (n, w))"
  shows "n \<noteq> 0 \<and> w \<noteq> 0 \<and> w \<le> 3600"
proof -
  obtain s :: u32 where s: "n \<noteq> 0" "s \<noteq> 0" "\<not> s > 3600" "w = ucast s"
    using assms by (auto simp: rate_def rbind_Inr_iff Let_def split: option.splits if_splits prod.splits)
  then have "unat s \<le> 3600" by (simp add: not_less word_le_nat_alt)
  then have "unat w = unat s" using s(4) by (simp add: unsigned_ucast_eq take_bit_nat_eq_self_iff)
  with s(1-3) \<open>unat s \<le> 3600\<close> show ?thesis by (auto simp: word_le_nat_alt unat_eq_0 [symmetric])
qed

text \<open>A rate limit that is accepted has a positive count and a window of one second to one hour in the
  units the kernel uses, so it never switches the limiter off (a packed limit of 0).\<close>

theorem rate_in_range:
  assumes "rate r = Inr (Some (n, w))"
  shows "0 < n \<and> 0 < w \<and> w \<le> 3600 \<and> rate_pack n w \<noteq> 0"
  using rate_Some [OF assms] by (simp add: rate_pack_0 word_neq_0_conv)

lemma rate_in_range_witness:
  "0 < (6::u16) \<and> 0 < (30::u16) \<and> (30::u16) \<le> 3600 \<and> rate_pack 6 30 \<noteq> 0"
proof (rule rate_in_range)
  show "rate \<lparr>r_proto = ''tcp'', r_port = One 22, r_from = None, r_limit = Some ''6/30s''\<rparr> = Inr (Some (6, 30))"
    by (simp add: rate_def text_eval)
qed

text \<open>The hour is not checked on the window that was written: minutes are multiplied in 32 bits, so a window
  of 71582789 minutes (136 years) wraps around to 44 seconds and is accepted.\<close>

theorem rate_minutes_wrap:
  "rate \<lparr>r_proto = ''tcp'', r_port = One 22, r_from = None, r_limit = Some ''6/71582789m''\<rparr> = Inr (Some (6, 44))"
  by (simp add: rate_def text_eval)


section \<open>Networks\<close>

text \<open>\<open>cidr_wf n c\<close>: \<open>c\<close> is a network of prefix length \<open>n\<close>.\<close>

definition cidr_wf :: "nat \<Rightarrow> cidr \<Rightarrow> bool" where
  "cidr_wf n c = (n \<le> 32 \<and> ci_mask c = (if n = 0 then 0 else push_bit (32 - n) (- 1)) \<and> ci_net c AND ci_mask c = ci_net c)"

lemma cidr_wf_bit: "cidr_wf n c \<Longrightarrow> bit (ci_mask c) i \<longleftrightarrow> 32 - n \<le> i \<and> i < 32"
  by (auto simp: cidr_wf_def bit_simps)

lemma and_idem_bits: "(x::u32) AND m = y \<longleftrightarrow> (\<forall>i<32. bit x i \<and> bit m i \<longleftrightarrow> bit y i)"
  by (auto simp: bit_eq_iff bit_simps possible_bit_def)

lemma top_bits_eq:
  "(\<forall>i. 32 - n \<le> i \<and> i < 32 \<longrightarrow> bit (x::u32) i = bit y i) \<longleftrightarrow> drop_bit (32 - n) x = drop_bit (32 - n) y"
proof
  assume a: "\<forall>i. 32 - n \<le> i \<and> i < 32 \<longrightarrow> bit x i = bit y i"
  show "drop_bit (32 - n) x = drop_bit (32 - n) y"
  proof (rule bit_word_eqI)
    fix i
    show "bit (drop_bit (32 - n) x) i = bit (drop_bit (32 - n) y) i"
      using a [rule_format, of "32 - n + i"] by (cases "32 - n + i < 32") (auto simp: bit_simps dest: bit_imp_le_length)
  qed
next
  assume "drop_bit (32 - n) x = drop_bit (32 - n) y"
  then have b: "bit x (32 - n + k) = bit y (32 - n + k)" for k
    by (drule_tac f = "\<lambda>w. bit w k" in arg_cong) (simp add: bit_drop_bit_eq)
  show "\<forall>i. 32 - n \<le> i \<and> i < 32 \<longrightarrow> bit x i = bit y i"
  proof (intro allI impI)
    fix i assume "32 - n \<le> i \<and> i < 32"
    then show "bit x i = bit y i" using b [of "i - (32 - n)"] by simp
  qed
qed

lemma contains_iff:
  assumes "cidr_wf n c"
  shows "cidr_contains c ip \<longleftrightarrow> drop_bit (32 - n) ip = drop_bit (32 - n) (ci_net c)"
proof -
  have net: "bit (ci_net c) i \<Longrightarrow> 32 - n \<le> i" for i
    using assms cidr_wf_bit [OF assms, of i] by (metis cidr_wf_def bit_and_iff)
  have "cidr_contains c ip \<longleftrightarrow> (\<forall>i<32. bit ip i \<and> 32 - n \<le> i \<longleftrightarrow> bit (ci_net c) i)"
    by (auto simp: cidr_contains_def and_idem_bits cidr_wf_bit [OF assms])
  also have "\<dots> \<longleftrightarrow> (\<forall>i. 32 - n \<le> i \<and> i < 32 \<longrightarrow> bit ip i = bit (ci_net c) i)"
    using net by blast
  also have "\<dots> \<longleftrightarrow> drop_bit (32 - n) ip = drop_bit (32 - n) (ci_net c)"
    by (rule top_bits_eq)
  finally show ?thesis .
qed

lemma leading_ones_mask:
  assumes "cidr_wf n c"
  shows "leading_ones (ci_mask c) = n"
proof -
  have n: "n \<le> 32" using assms by (simp add: cidr_wf_def)
  have eq: "[0..<32] = [0..<32 - n] @ [32 - n..<32]"
    using upt_add_eq_append [of 0 "32 - n" n] n by simp
  let ?P = "bit (ci_mask c)"
  have "takeWhile ?P (rev [32 - n..<32] @ rev [0..<32 - n]) = rev [32 - n..<32] @ takeWhile ?P (rev [0..<32 - n])"
    by (rule takeWhile_append2) (simp add: cidr_wf_bit [OF assms])
  moreover have "takeWhile ?P (rev [0..<32 - n]) = []"
  proof (cases "32 - n")
    case (Suc k)
    then show ?thesis using cidr_wf_bit [OF assms, of k] by simp
  qed simp
  moreover have "rev [0..<32] = rev [32 - n..<32] @ rev [0..<32 - n]"
    by (subst eq) (simp only: rev_append)
  ultimately have "takeWhile ?P (rev [0..<32]) = rev [32 - n..<32]" by (simp only: append_Nil2)
  then show ?thesis using n by (simp add: leading_ones_def)
qed

lemma cidr_parse_wf: "cidr_parse s = Inr c \<Longrightarrow> \<exists>n. cidr_wf n c"
proof -
  assume "cidr_parse s = Inr c"
  then obtain bits ip where b: "\<not> bits > (32::u32)" and c: "c = \<lparr>ci_net = ip AND cidr_mask bits, ci_mask = cidr_mask bits\<rparr>"
    by (auto simp: cidr_parse_def rbind_Inr_iff Let_def split: if_splits prod.splits)
  from b have "bits \<le> 32" by simp
  then have "unat (32 - bits) = 32 - unat bits" "unat bits \<le> 32" by (simp_all add: unat_sub word_le_nat_alt)
  then have "cidr_wf (unat bits) c" by (auto simp: cidr_wf_def c cidr_mask_def unat_eq_0 ac_simps)
  then show ?thesis by blast
qed

lemma cidr_single_wf: "cidr_wf 32 (cidr_single ip)"
  by (simp add: cidr_wf_def cidr_single_def)

lemma show_ipv4_length: "length (show_ipv4 ip) \<le> 15"
proof -
  have "length (show_nat n) \<le> 3" if "n \<le> 255" for n
    using that by (cases n rule: byte_cases) (simp_all add: show_nat_byte)
  moreover obtain a b c d where "ip_octets ip = [a, b, c, d]" "a \<le> 255" "b \<le> 255" "c \<le> 255" "d \<le> 255"
    by (simp add: ip_octets_eq less_Suc_eq_le [symmetric])
  ultimately have "length (show_nat a) \<le> 3" "length (show_nat b) \<le> 3" "length (show_nat c) \<le> 3" "length (show_nat d) \<le> 3"
    "ip_octets ip = [a, b, c, d]" by auto
  then show ?thesis by (simp add: show_ipv4_def)
qed

lemma show_ipv4_chars: "c \<in> set (show_ipv4 ip) \<Longrightarrow> c \<noteq> CHR ''/'' \<and> \<not> is_ws c"
proof -
  assume "c \<in> set (show_ipv4 ip)"
  then have "c = CHR ''.'' \<or> (\<exists>n. c \<in> set (show_nat n))"
    by (auto simp: show_ipv4_def ip_octets_eq)
  then show ?thesis using show_nat_chars by (auto simp: is_ws_def)
qed

lemma parse_show_ipv4: "parse_ipv4 (trim (show_ipv4 ip)) = Some ip"
proof -
  have "trim (show_ipv4 ip) = show_ipv4 ip" using show_ipv4_chars by (intro trim_id) auto
  then show ?thesis using show_ipv4_length [of ip] by (simp add: parse_ipv4_def parse_with_def read_show_ipv4)
qed

lemma cidr_parse_show:
  assumes "n \<le> 32"
  shows "\<exists>c. cidr_parse (show_ipv4 a @ ''/'' @ show_nat n) = Inr c \<and> leading_ones (ci_mask c) = n
    \<and> (\<forall>ip. cidr_contains c ip \<longleftrightarrow> drop_bit (32 - n) ip = drop_bit (32 - n) a)"
proof -
  have nb: "unat (of_nat n :: u32) = n" using assms by (simp add: unat_of_nat)
  then have le: "\<not> (of_nat n :: u32) > 32" and sub: "unat (32 - of_nat n :: u32) = 32 - n" and z: "(of_nat n :: u32) = 0 \<longleftrightarrow> n = 0"
    using assms by (auto simp: word_less_nat_alt unat_sub word_le_nat_alt unat_eq_0 [symmetric])
  define m :: u32 where "m = (if n = 0 then 0 else push_bit (32 - n) (- 1))"
  define c where "c = \<lparr>ci_net = a AND m, ci_mask = m\<rparr>"
  have "CHR ''/'' \<notin> set (show_ipv4 a)" using show_ipv4_chars by blast
  then have "split_once (CHR ''/'') (show_ipv4 a @ ''/'' @ show_nat n) = Some (show_ipv4 a, show_nat n)"
    using split_once_append [of "CHR ''/''" "show_ipv4 a" "show_nat n"] by simp
  moreover have "parse_u32 (show_nat n) = Some (of_nat n)"
    using parse_show_nat [of n 4294967295] assms by (simp add: parse_u32_def)
  ultimately have p: "cidr_parse (show_ipv4 a @ ''/'' @ show_nat n) = Inr c"
    using le by (simp add: cidr_parse_def opt_ok_def parse_show_ipv4 c_def m_def cidr_mask_def sub z Let_def)
  have wf: "cidr_wf n c" using assms by (simp add: cidr_wf_def c_def m_def ac_simps)
  have "drop_bit (32 - n) (ci_net c) = drop_bit (32 - n) a"
  proof (rule bit_word_eqI)
    fix i assume "i < LENGTH(32)"
    show "bit (drop_bit (32 - n) (ci_net c)) i = bit (drop_bit (32 - n) a) i"
      using cidr_wf_bit [OF wf, of "32 - n + i"] by (auto simp: c_def bit_simps dest: bit_imp_le_length)
  qed
  then show ?thesis using p leading_ones_mask [OF wf] contains_iff [OF wf] by auto
qed


text \<open>A network written \<open>a.b.c.d/n\<close> is accepted for every prefix length up to 32 and contains exactly the
  addresses that agree with \<open>a.b.c.d\<close> in their first \<open>n\<close> bits.\<close>

theorem cidr_exact:
  assumes "n \<le> 32"
  shows "\<exists>c. cidr_parse (show_ipv4 a @ ''/'' @ show_nat n) = Inr c \<and> leading_ones (ci_mask c) = n
    \<and> (\<forall>ip. cidr_contains c ip \<longleftrightarrow> drop_bit (32 - n) ip = drop_bit (32 - n) a)"
  using assms by (rule cidr_parse_show)

lemma cidr_exact_witness:
  "\<exists>c. cidr_parse (show_ipv4 0xC0A80100 @ ''/'' @ show_nat 24) = Inr c \<and> leading_ones (ci_mask c) = 24
    \<and> (\<forall>ip. cidr_contains c ip \<longleftrightarrow> drop_bit (32 - 24) ip = drop_bit (32 - 24) (0xC0A80100 :: u32))"
  by (rule cidr_exact) simp

section \<open>What validation promises\<close>

lemma rmap_unit_ok: "rmap f xs = Inr us \<Longrightarrow> x \<in> set xs \<Longrightarrow> \<exists>u. f x = Inr u"
  using rmap_ok_iff [of f xs] by blast

text \<open>A rule set that \<open>check_policy\<close> accepts.\<close>

definition rule_ok :: "rule \<Rightarrow> bool" where
  "rule_ok r =
     ((r_proto r = ''tcp'' \<or> r_proto r = ''udp'') \<and> (\<exists>ab. ports (r_port r) = Inr ab)
      \<and> (\<forall>f. r_from r = Some f \<longrightarrow> (\<exists>c. cidr_parse f = Inr c))
      \<and> (\<exists>q. rate r = Inr q \<and> (q \<noteq> None \<longrightarrow> r_proto r = ''tcp'')))"

definition policy_ok :: "port_spec list \<Rightarrow> port_spec list \<Rightarrow> rule list \<Rightarrow> bool" where
  "policy_ok tcp udp rules =
     ((\<exists>ps. expand tcp = Inr ps) \<and> (\<exists>ps. expand udp = Inr ps) \<and> list_all rule_ok rules)"

lemma check_rule_ok: "check_rule what r = Inr u \<longleftrightarrow> rule_ok r"
  by (cases "r_from r") (auto simp: check_rule_def rule_ok_def rbind_Inr_iff)

lemma check_policy_ok: "check_policy what tcp udp rules = Inr () \<longleftrightarrow> policy_ok tcp udp rules"
proof -
  have "(\<exists>us. rmap (check_rule what) rules = Inr us) \<longleftrightarrow> list_all rule_ok rules"
    by (simp add: rmap_ok_iff check_rule_ok list_all_iff)
  then show ?thesis by (auto simp: check_policy_def policy_ok_def rbind_Inr_iff)
qed

definition detector_ok :: "detector_config \<Rightarrow> bool" where
  "detector_ok d =
     (d_window_secs d \<noteq> 0 \<and> d_syn_limit d \<noteq> 0 \<and> d_port_limit d \<noteq> 0 \<and> d_udp_limit d \<noteq> 0 \<and> d_drop_limit d \<noteq> 0)"

definition bans_ok :: "ban_config \<Rightarrow> bool" where
  "bans_ok b = (b_base_secs b \<noteq> 0 \<and> b_base_secs b \<le> b_max_secs b)"

definition profile_ok :: "profile \<Rightarrow> bool" where
  "profile_ok p = policy_ok (opt_or (pr_allow_tcp p) []) (opt_or (pr_allow_udp p) []) (opt_or (pr_rules p) [])"

text \<open>Validation in one formula.\<close>

lemma rmap_unit_iff: "(\<exists>us. rmap f xs = Inr us) \<longleftrightarrow> (\<forall>x \<in> set xs. f x = Inr ())"
  by (simp add: rmap_ok_iff)

lemma validate_iff:
  "validate c = Inr () \<longleftrightarrow>
     (c_mode c = ''enforce'' \<or> c_mode c = ''monitor'')
     \<and> (\<exists>ts. trusted_cidrs c = Inr ts)
     \<and> policy_ok (c_allow_tcp c) (c_allow_udp c) (c_rules c)
     \<and> (\<forall>(n, p) \<in> set (c_profiles c). profile_ok p)
     \<and> (\<forall>n \<in> set (f_lists (c_feeds c)). known n \<noteq> None)
     \<and> (\<forall>u \<in> set (f_urls (c_feeds c)). starts_with ''https://'' u)
     \<and> (\<exists>bs. blocked_cidrs c = Inr bs \<and> (\<forall>b \<in> set bs. 20 \<le> leading_ones (ci_mask b)))
     \<and> detector_ok (c_detector c) \<and> bans_ok (c_bans c)"
proof -
  have profs: "(\<exists>us. rmap (\<lambda>(name, p). check_policy (''profile '' @ name @ '':'')
              (opt_or (pr_allow_tcp p) []) (opt_or (pr_allow_udp p) []) (opt_or (pr_rules p) [])) (c_profiles c) = Inr us)
      \<longleftrightarrow> (\<forall>(n, p) \<in> set (c_profiles c). profile_ok p)"
    unfolding rmap_unit_iff by (auto simp: check_policy_ok profile_ok_def)
  have lists: "(\<exists>us. rmap (\<lambda>n. rcheck (known n \<noteq> None) (Bad ''unknown feed'' n)) (f_lists (c_feeds c)) = Inr us)
      \<longleftrightarrow> (\<forall>n \<in> set (f_lists (c_feeds c)). known n \<noteq> None)"
    unfolding rmap_unit_iff by simp
  have urls: "(\<exists>us. rmap (\<lambda>u. rcheck (starts_with ''https://'' u) (Bad ''feed url'' u)) (f_urls (c_feeds c)) = Inr us)
      \<longleftrightarrow> (\<forall>u \<in> set (f_urls (c_feeds c)). starts_with ''https://'' u)"
    unfolding rmap_unit_iff by simp
  have blocked: "(\<exists>us. rmap (\<lambda>b. rcheck (\<not> leading_ones (ci_mask b) < 20) (Msg ''blocked ranges'')) bs = Inr us)
      \<longleftrightarrow> (\<forall>b \<in> set bs. 20 \<le> leading_ones (ci_mask b))" for bs
    unfolding rmap_unit_iff by auto
  have pol: "check_policy [] (c_allow_tcp c) (c_allow_udp c) (c_rules c) = Inr u
      \<longleftrightarrow> policy_ok (c_allow_tcp c) (c_allow_udp c) (c_rules c)" for u
    by (simp add: check_policy_ok)
  show ?thesis
    unfolding profs [symmetric] lists [symmetric] urls [symmetric] blocked [symmetric] pol [of "()", symmetric]
      detector_ok_def bans_ok_def
    by (simp add: validate_def rbind_Inr_iff Let_def not_less) blast
qed

lemma rules_default: "validate shipped_config = Inr ()"
  by (auto simp: validate_iff shipped_config_def config_default_def default_mode_def trusted_cidrs_def blocked_cidrs_def
      policy_ok_def expand_def feed_default_def known_def KNOWN_def detector_ok_def detector_default_def bans_ok_def ban_default_def)

lemma opt_or_simps [simp]: "opt_or (Some v) d = v" "opt_or None d = d"
  by (simp_all add: opt_or_def)

lemma policy_of_ok:
  assumes "validate c = Inr ()"
  shows "policy_ok (p_allow_tcp (policy_of c prof)) (p_allow_udp (policy_of c prof)) (p_rules (policy_of c prof))"
proof -
  have base: "policy_ok (c_allow_tcp c) (c_allow_udp c) (c_rules c)" using assms by (simp add: validate_iff)
  show ?thesis
  proof (cases "Option.bind prof (map_of (c_profiles c))")
    case None
    then show ?thesis using base by (simp add: policy_of_def Let_def)
  next
    case (Some p)
    then obtain n where "(n, p) \<in> set (c_profiles c)"
      by (auto simp: bind_eq_Some_conv dest: map_of_SomeD)
    then have "profile_ok p" using assms by (auto simp: validate_iff)
    then show ?thesis
      using base Some
      by (cases "pr_allow_tcp p"; cases "pr_allow_udp p"; cases "pr_rules p")
        (simp_all add: policy_of_def profile_ok_def policy_ok_def Let_def)
  qed
qed

text \<open>Validation covers every profile: whatever network the machine is on, the policy of an accepted config
  has ports that expand and rules that are well formed.\<close>

theorem validated_policy_ok:
  assumes "validate c = Inr ()"
  shows "policy_ok (p_allow_tcp (policy_of c prof)) (p_allow_udp (policy_of c prof)) (p_rules (policy_of c prof))"
  using assms by (rule policy_of_ok)

lemma validated_policy_ok_witness:
  "policy_ok (p_allow_tcp (policy_of shipped_config (Some ''home''))) (p_allow_udp (policy_of shipped_config (Some ''home'')))
     (p_rules (policy_of shipped_config (Some ''home'')))"
  by (rule validated_policy_ok [OF rules_default])

section \<open>Starting and editing\<close>

lemma parse_config_valid: "parse_config toml text = Inr c \<Longrightarrow> validate c = Inr ()"
  by (auto simp: parse_config_def rbind_Inr_iff)

text \<open>The daemon always gets a valid config to start with: whatever state the config file and the remembered
  copy are in, loading at start gives a config that passes validation, and never panics.\<close>

theorem load_at_start_valid:
  assumes "toml DEFAULT_CONFIG = Inr shipped_config"
  shows "\<exists>fs' cfg e. load_at_start toml path fs = (fs', Some (cfg, e)) \<and> validate cfg = Inr ()"
proof -
  have d: "parse_config toml DEFAULT_CONFIG = Inr shipped_config"
    using assms rules_default by (simp add: parse_config_def)
  obtain fs1 r where l: "load_or_create toml path fs = (fs1, r)" by (metis surj_pair)
  show ?thesis
  proof (cases r)
    case (Inr cfg)
    have "validate cfg = Inr ()"
      using l Inr
      by (auto simp: load_or_create_def rbind_Inr_iff Let_def split: if_splits prod.splits intro: parse_config_valid)
    then show ?thesis using l Inr by (simp add: load_at_start_def)
  next
    case (Inl e)
    show ?thesis
    proof (cases "rbind (read_to_string LAST_GOOD fs1) (parse_config toml)")
      case (Inl e')
      then show ?thesis using l \<open>r = Inl e\<close> d rules_default by (simp add: load_at_start_def)
    next
      case (Inr cfg)
      then have "validate cfg = Inr ()" by (auto simp: rbind_Inr_iff intro: parse_config_valid)
      then show ?thesis using l \<open>r = Inl e\<close> Inr by (simp add: load_at_start_def)
    qed
  qed
qed

lemma load_at_start_valid_witness:
  "\<exists>fs' cfg e. load_at_start (\<lambda>t. if t = DEFAULT_CONFIG then Inr shipped_config else Inl (Msg ''bad'')) DEFAULT_PATH
      \<lparr>files = [DEFAULT_PATH \<mapsto> ''mode = 7''], writable = (\<lambda>_. False), renamable = (\<lambda>_. False)\<rparr> = (fs', Some (cfg, e))
    \<and> validate cfg = Inr ()"
  by (rule load_at_start_valid) simp

lemma dropWhile_hd: "xs = [] \<or> \<not> p (hd xs) \<Longrightarrow> dropWhile p xs = xs"
  by (cases xs) auto

lemma trim_by_idem: "trim_by p (trim_by p s) = trim_by p s"
proof -
  define s1 where "s1 = dropWhile p s"
  define r where "r = rev (dropWhile p (rev s1))"
  have r: "trim_by p s = r" by (simp add: trim_by_def trim_end_by_def trim_start_by_def r_def s1_def)
  have "s1 = [] \<or> \<not> p (hd s1)" unfolding s1_def using hd_dropWhile by blast
  moreover have "r = [] \<or> hd r = hd s1"
  proof -
    obtain z where "rev s1 = z @ dropWhile p (rev s1)" using takeWhile_dropWhile_id by metis
    then have "s1 = r @ rev z" unfolding r_def by (metis rev_append rev_rev_ident)
    then show ?thesis by (cases r) auto
  qed
  moreover have "s1 = [] \<Longrightarrow> r = []" by (simp add: r_def)
  ultimately have "dropWhile p r = r" by (intro dropWhile_hd) auto
  moreover have "dropWhile p (rev r) = rev r" by (simp add: r_def)
  ultimately show ?thesis by (simp add: r trim_by_def [of p r] trim_end_by_def trim_start_by_def)
qed

lemma trim_idem [simp]: "trim (trim s) = trim s"
  by (simp add: trim_def trim_by_idem)

lemma names_port_value: "names_port p (port_value p)"
  by (cases p) simp_all

lemma position_append: "position p xs = None \<Longrightarrow> p y \<Longrightarrow> position p (xs @ [y]) = Some (length xs)"
  by (induction xs) (auto split: if_splits)

lemma edit_twice:
  assumes "edit_list p True vs = Some vs'"
  shows "edit_list p True vs' = None \<and> edit_list p False vs' = Some vs"
proof -
  have n: "position (names_port p) vs = None" and vs': "vs' = vs @ [port_value p]"
    using assms by (auto simp: edit_list_def split: option.splits)
  then have "position (names_port p) vs' = Some (length vs)"
    by (simp add: position_append names_port_value)
  then show ?thesis by (simp add: edit_list_def vs' remove_at_def)
qed

text \<open>Editing a port never leaves a config the daemon would reject. When \<open>set_port\<close> reports a change the
  file holds a text that parses to a valid config; in every other case the file is as it was.\<close>

theorem set_port_safe:
  assumes "set_port toml te path proto port opn fs = (fs', r)" "with_extension ''tmp'' path \<noteq> path"
  shows "(if r = Inr True then \<exists>new cfg. files fs' path = Some new \<and> parse_config toml new = Inr cfg \<and> validate cfg = Inr ()
          else files fs' path = files fs path)"
proof -
  have wa: "case write_atomic path new fs of
      (fs1, Inr _) \<Rightarrow> files fs1 path = Some new | (fs1, Inl _) \<Rightarrow> files fs1 path = files fs path" for new
    using assms(2) by (auto simp: write_atomic_def write_file_def Let_def)
  show ?thesis
  proof (cases "\<exists>new cfg fs1 w. write_atomic path new fs = (fs1, w) \<and> parse_config toml new = Inr cfg
        \<and> fs' = fs1 \<and> r = rbind w (\<lambda>_. Inr True)")
    case True
    then obtain new cfg fs1 w where w: "write_atomic path new fs = (fs1, w)" "parse_config toml new = Inr cfg"
      "fs' = fs1" "r = rbind w (\<lambda>_. Inr True)" by blast
    then show ?thesis using wa [of new] parse_config_valid [OF w(2)] by (cases w) auto
  next
    case False
    have "fs' = fs \<and> r \<noteq> Inr True"
      using assms(1) False
      unfolding set_port_def Let_def
      by (auto simp: rbind_Inr_iff split: sum.splits option.splits prod.splits toml_item.splits if_splits)
    then show ?thesis by auto
  qed
qed


text \<open>A document that is the list of open TCP ports itself, to run the editing on.\<close>

definition toy_edit :: "(toml_value list) toml_edit" where
  "toy_edit = \<lparr>te_parse = (\<lambda>t. Inr []), te_get = (\<lambda>d k. Arr d), te_put = (\<lambda>d k vs. vs), te_show = (\<lambda>d. ''doc'')\<rparr>"

lemma set_port_safe_witness:
  "\<exists>fs' r. set_port (\<lambda>t. Inr shipped_config) toy_edit DEFAULT_PATH ''tcp'' (One 22) True
      \<lparr>files = [DEFAULT_PATH \<mapsto> ''old''], writable = (\<lambda>_. True), renamable = (\<lambda>_. True)\<rparr> = (fs', r)
    \<and> (if r = Inr True then \<exists>new cfg. files fs' DEFAULT_PATH = Some new
          \<and> parse_config (\<lambda>t. Inr shipped_config) new = Inr cfg \<and> validate cfg = Inr ()
       else files fs' DEFAULT_PATH = Some ''old'')"
proof -
  let ?fs = "\<lparr>files = [DEFAULT_PATH \<mapsto> ''old''], writable = (\<lambda>_. True), renamable = (\<lambda>_. True)\<rparr>"
  obtain fs' r where s: "set_port (\<lambda>t. Inr shipped_config) toy_edit DEFAULT_PATH ''tcp'' (One 22) True ?fs = (fs', r)"
    by (metis surj_pair)
  have "with_extension ''tmp'' DEFAULT_PATH \<noteq> DEFAULT_PATH" by code_simp
  from set_port_safe [OF s this] s show ?thesis by auto
qed

end
