(* ===== verification/F32.thy ===== *)
theory F32
  imports Prelude "HOL-Library.Log_Nat"
begin

text \<open>
  Rust's \<open>f32\<close> (IEEE 754 binary32) as far as the threat score uses it: integers converted, quotients,
  sums and differences, each rounded to nearest with ties to even at 24 significant bits. Every value
  the score reaches lies far inside the normal range (quotients of 32-bit counts are 0 or between
  \<open>2 ^ (-32)\<close> and \<open>2 ^ 32\<close>), so there is no overflow and no subnormal; the infinities and the NaN
  that a division by a zero limit gives are values of their own.
\<close>

section \<open>Rounding\<close>

text \<open>The exponent of the unit in the last place of a positive \<open>x\<close>: \<open>2 ^ 23 * 2 ^ e \<le> x < 2 ^ 24 * 2 ^ e\<close>.\<close>

definition f32_exp :: "rat \<Rightarrow> int" where
  "f32_exp x =
     (if 1 \<le> x then int (floorlog 2 (nat \<lfloor>x\<rfloor>)) - 24
      else - int (floorlog 2 (nat (\<lceil>1 / x\<rceil> - 1))) - 23)"

definition round_half_even :: "rat \<Rightarrow> int" where
  "round_half_even y =
     (let f = \<lfloor>y\<rfloor>; d = y - of_int f
      in if d < 1 / 2 then f else if 1 / 2 < d then f + 1 else if even f then f else f + 1)"

definition round_pos :: "rat \<Rightarrow> rat" where
  "round_pos x = of_int (round_half_even (x / 2 powi f32_exp x)) * 2 powi f32_exp x"

definition f32_round :: "rat \<Rightarrow> rat" where
  "f32_round x = (if x = 0 then 0 else if 0 < x then round_pos x else - round_pos (- x))"

section \<open>Values and operations\<close>

datatype f32 = Fin rat | PInf | NInf | NaN

fun f32_add :: "f32 \<Rightarrow> f32 \<Rightarrow> f32" where
  "f32_add (Fin a) (Fin b) = Fin (f32_round (a + b))"
| "f32_add NaN _ = NaN"
| "f32_add _ NaN = NaN"
| "f32_add PInf NInf = NaN"
| "f32_add NInf PInf = NaN"
| "f32_add PInf _ = PInf"
| "f32_add _ PInf = PInf"
| "f32_add NInf _ = NInf"
| "f32_add _ NInf = NInf"

fun f32_neg :: "f32 \<Rightarrow> f32" where
  "f32_neg (Fin a) = Fin (- a)"
| "f32_neg PInf = NInf"
| "f32_neg NInf = PInf"
| "f32_neg NaN = NaN"

definition f32_sub :: "f32 \<Rightarrow> f32 \<Rightarrow> f32" where
  "f32_sub a b = f32_add a (f32_neg b)"

text \<open>Division of two non-negative finite values, the only ones the code divides.\<close>

definition f32_div :: "rat \<Rightarrow> rat \<Rightarrow> f32" where
  "f32_div a b = (if b = 0 then (if a = 0 then NaN else PInf) else Fin (f32_round (a / b)))"

text \<open>\<open>n as f32\<close> of an unsigned integer.\<close>

definition f32_of_nat :: "nat \<Rightarrow> rat" where
  "f32_of_nat n = f32_round (of_nat n)"

text \<open>\<open><\<close> is false as soon as one side is a NaN.\<close>

fun f32_less :: "f32 \<Rightarrow> f32 \<Rightarrow> bool" where
  "f32_less NaN _ = False"
| "f32_less _ NaN = False"
| "f32_less (Fin a) (Fin b) = (a < b)"
| "f32_less NInf b = (b \<noteq> NInf)"
| "f32_less (Fin a) b = (b = PInf)"
| "f32_less PInf _ = False"

text \<open>\<open>total_cmp\<close> not \<open>Greater\<close>; a NaN (taken with a clear sign bit) is above every number.\<close>

fun f32_total_le :: "f32 \<Rightarrow> f32 \<Rightarrow> bool" where
  "f32_total_le _ NaN = True"
| "f32_total_le NaN _ = False"
| "f32_total_le (Fin a) (Fin b) = (a \<le> b)"
| "f32_total_le NInf _ = True"
| "f32_total_le (Fin a) b = (b = PInf)"
| "f32_total_le PInf b = (b = PInf)"

section \<open>Rounding is monotone and exact on short significands\<close>

lemma powi2_pos [simp]: "0 < (2::rat) powi e"
  by (simp add: power_int_def)

lemma powi2_not_neg [simp]: "\<not> (2::rat) powi e < 0"
  using powi2_pos [of e] by (simp add: not_less less_imp_le)

lemma powi2_add: "(2::rat) powi (a + b) = 2 powi a * 2 powi b"
  by (simp add: power_int_add)

lemma powi2_mono: "a \<le> b \<Longrightarrow> (2::rat) powi a \<le> 2 powi b"
  by (simp add: power_int_increasing)

lemma powi2_of_nat: "(2::rat) powi int n = 2 ^ n"
  by simp

lemma f32_exp_bounds:
  assumes "0 < x"
  shows "2 powi (f32_exp x + 23) \<le> x" and "x < 2 powi (f32_exp x + 24)"
proof -
  have "2 powi (f32_exp x + 23) \<le> x \<and> x < 2 powi (f32_exp x + 24)"
  proof (cases "1 \<le> x")
    case True
    define n where "n = nat \<lfloor>x\<rfloor>"
    define k where "k = floorlog 2 n"
    have "of_nat n = (of_int \<lfloor>x\<rfloor> :: rat)" using True by (simp add: n_def)
    then have n: "0 < n" "of_nat n \<le> x" "x < of_nat n + 1"
      using True floor_correct [of x] by (simp_all add: n_def)
    have b: "2 ^ (k - 1) \<le> n" "n < 2 ^ k"
      using floorlog_bounds [of n 2] n(1) by (auto simp: k_def)
    have k: "0 < k" using b n(1) by (cases k) auto
    have e: "f32_exp x = int k - 24" using True by (simp add: f32_exp_def k_def n_def)
    have "(2::rat) powi (int k - 1) = 2 ^ (k - 1)"
      using k by (simp add: power_int_def nat_diff_distrib)
    also have "\<dots> \<le> of_nat n" using b(1) by (metis of_nat_le_iff of_nat_numeral of_nat_power)
    finally have lo: "2 powi (int k - 1) \<le> x" using n(2) by linarith
    have "of_nat n + 1 \<le> (2::rat) ^ k"
      using b(2) by (metis Suc_leI of_nat_Suc add.commute of_nat_le_iff of_nat_numeral of_nat_power)
    then have hi: "x < 2 powi int k" using n(3) by (simp add: powi2_of_nat)
    from lo hi show ?thesis by (simp add: e)
  next
    case False
    define c where "c = nat (\<lceil>1 / x\<rceil> - 1)"
    define k where "k = floorlog 2 c"
    have y: "1 < 1 / x" using False assms by simp
    then have "2 \<le> \<lceil>1 / x\<rceil>" by linarith
    then have c: "0 < c" "of_nat c < 1 / x" "1 / x \<le> of_nat c + 1"
      by (auto simp: c_def) linarith+
    have b: "2 ^ (k - 1) \<le> c" "c < 2 ^ k"
      using floorlog_bounds [of c 2] c(1) by (auto simp: k_def)
    have k: "0 < k" using b c(1) by (cases k) auto
    have e: "f32_exp x = - int k - 23" using False by (simp add: f32_exp_def k_def c_def)
    have "of_nat c + 1 \<le> (2::rat) ^ k"
      using b(2) by (metis Suc_leI of_nat_Suc add.commute of_nat_le_iff of_nat_numeral of_nat_power)
    with c(3) have "1 / x \<le> 2 ^ k" by linarith
    then have "1 \<le> 2 ^ k * x" using assms by (simp add: field_simps)
    then have "1 / 2 ^ k \<le> x" by (simp add: field_simps)
    then have lo: "2 powi (- int k) \<le> x" by (simp add: power_int_minus inverse_eq_divide)
    have "(2::rat) ^ (k - 1) \<le> of_nat c" using b(1) by (metis of_nat_le_iff of_nat_numeral of_nat_power)
    with c(2) have "2 ^ (k - 1) < 1 / x" by linarith
    then have "x < 1 / 2 ^ (k - 1)" using assms by (simp add: field_simps)
    also have "1 / (2::rat) ^ (k - 1) = 2 powi (1 - int k)"
      using k by (cases k) (auto simp: power_int_minus inverse_eq_divide)
    finally have hi: "x < 2 powi (1 - int k)" .
    from lo hi show ?thesis by (simp add: e)
  qed
  then show "2 powi (f32_exp x + 23) \<le> x" and "x < 2 powi (f32_exp x + 24)" by blast+
qed

lemma round_half_even_floor: "\<lfloor>y\<rfloor> \<le> round_half_even y" and round_half_even_ceil: "round_half_even y \<le> \<lfloor>y\<rfloor> + 1"
  by (auto simp: round_half_even_def Let_def)

lemma round_half_even_err: "\<bar>of_int (round_half_even y) - y\<bar> \<le> 1 / 2"
proof -
  have "of_int \<lfloor>y\<rfloor> \<le> y" "y < of_int \<lfloor>y\<rfloor> + 1" by linarith+
  then show ?thesis by (auto simp: round_half_even_def Let_def abs_if simp del: of_int_floor_le)
qed

lemma round_half_even_int [simp]: "round_half_even (of_int n) = n"
  by (simp add: round_half_even_def)

lemma round_half_even_mono: "x \<le> y \<Longrightarrow> round_half_even x \<le> round_half_even y"
proof -
  assume xy: "x \<le> y"
  then have f: "\<lfloor>x\<rfloor> \<le> \<lfloor>y\<rfloor>" by (rule floor_mono)
  show ?thesis
  proof (cases "\<lfloor>x\<rfloor> = \<lfloor>y\<rfloor>")
    case True
    with xy show ?thesis by (auto simp: round_half_even_def Let_def)
  next
    case False
    with f have "\<lfloor>x\<rfloor> + 1 \<le> \<lfloor>y\<rfloor>" by simp
    with round_half_even_ceil [of x] round_half_even_floor [of y] show ?thesis by linarith
  qed
qed

lemma round_half_even_le_int: "y \<le> of_int n \<Longrightarrow> round_half_even y \<le> n"
  using round_half_even_mono [of y "of_int n"] by simp

lemma round_half_even_ge_int: "of_int n \<le> y \<Longrightarrow> n \<le> round_half_even y"
  using round_half_even_mono [of "of_int n" y] by simp

lemma round_pos_bounds:
  assumes "0 < x"
  shows "2 powi (f32_exp x + 23) \<le> round_pos x" and "round_pos x \<le> 2 powi (f32_exp x + 24)"
proof -
  let ?u = "(2::rat) powi f32_exp x"
  have "2 ^ 23 * ?u \<le> x" "x < 2 ^ 24 * ?u"
    using f32_exp_bounds [OF assms] by (simp_all add: powi2_add mult.commute)
  then have "(of_int (2 ^ 23) :: rat) \<le> x / ?u" "x / ?u \<le> of_int (2 ^ 24)"
    by (simp_all add: field_simps)
  then have "2 ^ 23 \<le> round_half_even (x / ?u)" "round_half_even (x / ?u) \<le> 2 ^ 24"
    by (blast intro: round_half_even_ge_int round_half_even_le_int)+
  then have "(2 ^ 23 :: rat) \<le> of_int (round_half_even (x / ?u))" "of_int (round_half_even (x / ?u)) \<le> (2 ^ 24 :: rat)"
    by (metis of_int_le_iff of_int_numeral of_int_power)+
  then show "2 powi (f32_exp x + 23) \<le> round_pos x" and "round_pos x \<le> 2 powi (f32_exp x + 24)"
    by (simp_all add: round_pos_def powi2_add mult.commute)
qed

lemma f32_exp_mono:
  assumes "0 < x" "x \<le> y"
  shows "f32_exp x \<le> f32_exp y"
proof (rule ccontr)
  assume "\<not> f32_exp x \<le> f32_exp y"
  then have "(2::rat) powi (f32_exp y + 24) \<le> 2 powi (f32_exp x + 23)" by (intro powi2_mono) simp
  with f32_exp_bounds [of x] f32_exp_bounds [of y] assms show False by (auto simp: not_less)
qed

lemma round_pos_mono:
  assumes "0 < x" "x \<le> y"
  shows "round_pos x \<le> round_pos y"
proof (cases "f32_exp x = f32_exp y")
  case True
  have "x / 2 powi f32_exp y \<le> y / 2 powi f32_exp y"
    using assms by (simp add: divide_right_mono less_imp_le)
  then have "round_half_even (x / 2 powi f32_exp y) \<le> round_half_even (y / 2 powi f32_exp y)"
    by (rule round_half_even_mono)
  with True show ?thesis by (simp add: round_pos_def)
next
  case False
  then have "f32_exp x + 24 \<le> f32_exp y + 23" using f32_exp_mono [OF assms] by simp
  then have "(2::rat) powi (f32_exp x + 24) \<le> 2 powi (f32_exp y + 23)" by (rule powi2_mono)
  with round_pos_bounds [of x] round_pos_bounds [of y] assms show ?thesis by (auto intro: order_trans)
qed

lemma round_pos_pos: "0 < x \<Longrightarrow> 0 < round_pos x"
  using round_pos_bounds(1) [of x] powi2_pos [of "f32_exp x + 23"] by linarith

theorem f32_round_mono: "x \<le> y \<Longrightarrow> f32_round x \<le> f32_round y"
proof -
  assume xy: "x \<le> y"
  consider "0 < x" | "x = 0" | "x < 0" "y \<le> 0" | "x < 0" "0 < y" by linarith
  then show ?thesis
  proof cases
    case 1
    with xy show ?thesis by (simp add: f32_round_def round_pos_mono)
  next
    case 2
    with xy show ?thesis using round_pos_pos [of y] by (auto simp: f32_round_def)
  next
    case 3
    then show ?thesis
      using round_pos_mono [of "- y" "- x"] round_pos_pos [of "- x"] xy by (auto simp: f32_round_def)
  next
    case 4
    then show ?thesis using round_pos_pos [of y] round_pos_pos [of "- x"] by (simp add: f32_round_def)
  qed
qed

lemma f32_round_0 [simp]: "f32_round 0 = 0"
  by (simp add: f32_round_def)

lemma f32_round_minus [simp]: "f32_round (- x) = - f32_round x"
  by (simp add: f32_round_def)

lemma f32_round_nonneg: "0 \<le> x \<Longrightarrow> 0 \<le> f32_round x"
  using f32_round_mono [of 0 x] by simp

text \<open>A value with at most 24 significant bits is its own rounding.\<close>

lemma f32_round_exact:
  assumes "\<bar>m\<bar> < 2 ^ 24"
  shows "f32_round (of_int m * 2 powi e) = of_int m * 2 powi e"
proof -
  have pos: "round_pos (of_int m * 2 powi e) = of_int m * 2 powi e" if m: "0 < m" "m < 2 ^ 24" for m :: int
  proof -
    let ?x = "of_int m * (2::rat) powi e"
    have x: "0 < ?x" using m(1) by simp
    have "f32_exp ?x \<le> e"
    proof (rule ccontr)
      assume "\<not> f32_exp ?x \<le> e"
      then have "(2::rat) powi (e + 24) \<le> 2 powi (f32_exp ?x + 23)" by (intro powi2_mono) simp
      then have "(2::rat) powi (e + 24) \<le> of_int m * 2 powi e"
        using f32_exp_bounds(1) [OF x] by (rule order_trans)
      then have "(2::rat) ^ 24 \<le> of_int m" by (simp add: powi2_add mult.commute)
      then have "2 ^ 24 \<le> m" by (metis of_int_le_iff of_int_numeral of_int_power)
      with m(2) show False by linarith
    qed
    then obtain k where k: "e = f32_exp ?x + int k" using zle_iff_zadd [of "f32_exp ?x" e] by blast
    then have "(2::rat) powi e = 2 ^ k * 2 powi f32_exp ?x"
      by (metis powi2_add powi2_of_nat mult.commute)
    then have "?x / 2 powi f32_exp ?x = of_int (m * 2 ^ k)" by (simp add: field_simps)
    then show ?thesis unfolding round_pos_def
      using \<open>2 powi e = 2 ^ k * 2 powi f32_exp ?x\<close> by (metis nonzero_divide_eq_eq powi2_pos less_irrefl round_half_even_int)
  qed
  consider "m = 0" | "0 < m" | "m < 0" by linarith
  then show ?thesis
  proof cases
    case 2
    then show ?thesis using pos [of m] assms by (simp add: f32_round_def zero_less_mult_iff)
  next
    case 3
    then have "round_pos (of_int (- m) * 2 powi e) = of_int (- m) * 2 powi e" using assms by (intro pos) auto
    then show ?thesis using 3 by (simp add: f32_round_def mult_less_0_iff zero_less_mult_iff)
  qed simp
qed

lemma f32_round_int: "\<bar>m\<bar> < 2 ^ 24 \<Longrightarrow> f32_round (of_int m) = of_int m"
  using f32_round_exact [of m 0] by simp

lemma f32_round_nat: "n < 2 ^ 24 \<Longrightarrow> f32_round (of_nat n) = of_nat n"
  using f32_round_int [of "int n"] by simp

lemma f32_round_1 [simp]: "f32_round 1 = 1"
  using f32_round_nat [of 1] by simp

lemma f32_round_ge_1: "1 \<le> x \<Longrightarrow> 1 \<le> f32_round x"
  using f32_round_mono [of 1 x] by simp

text \<open>The relative error of one rounding is at most \<open>2 ^ (-24)\<close>.\<close>

lemma f32_round_err: "\<bar>f32_round x - x\<bar> \<le> \<bar>x\<bar> / 2 ^ 24"
proof -
  have pos: "\<bar>round_pos x - x\<bar> \<le> x / 2 ^ 24" if x: "0 < x" for x
  proof -
    let ?u = "(2::rat) powi f32_exp x"
    have "\<bar>of_int (round_half_even (x / ?u)) - x / ?u\<bar> * ?u \<le> 1 / 2 * ?u"
      using round_half_even_err [of "x / ?u"] by (intro mult_right_mono) auto
    also have "\<bar>of_int (round_half_even (x / ?u)) - x / ?u\<bar> * ?u = \<bar>(of_int (round_half_even (x / ?u)) - x / ?u) * ?u\<bar>"
      by (simp add: abs_mult)
    also have "(of_int (round_half_even (x / ?u)) - x / ?u) * ?u = round_pos x - x"
      by (simp add: round_pos_def left_diff_distrib)
    finally have "\<bar>round_pos x - x\<bar> \<le> ?u / 2" by simp
    moreover have "2 ^ 23 * ?u \<le> x" using f32_exp_bounds(1) [OF x] by (simp add: powi2_add mult.commute)
    ultimately show ?thesis by simp
  qed
  consider "x = 0" | "0 < x" | "x < 0" by linarith
  then show ?thesis
  proof cases
    case 3
    have "\<bar>f32_round x - x\<bar> = \<bar>round_pos (- x) - (- x)\<bar>" using 3 by (simp add: f32_round_def abs_if)
    also have "\<dots> \<le> \<bar>x\<bar> / 2 ^ 24" using pos [of "- x"] 3 by simp
    finally show ?thesis .
  qed (use pos [of x] in \<open>auto simp: f32_round_def\<close>)
qed

lemma f32_less_Fin [simp]: "f32_less (Fin a) (Fin b) = (a < b)"
  by simp

end
