(* ===== verification/Detector.thy ===== *)
theory Detector
  imports Config F32
begin

text \<open>
  The threat detector (src/ai-firewall/src/detector.rs): a track per source over a window, a score from
  its signals in \<open>f32\<close> arithmetic, and bans that double with every strike. The two \<open>HashMap\<close>s are
  association lists. Counters are \<open>u32\<close> and wrap, as in the release build.
\<close>

section \<open>State\<close>

definition MAX_TRACKED :: nat where "MAX_TRACKED = 16384"
definition ODD_LIMIT :: rat where "ODD_LIMIT = 3"

record track =
  tr_window_start :: u64
  tr_syn :: u32
  tr_udp :: u32
  tr_drops :: u32
  tr_odd :: u32
  tr_ports :: "u16 list"
  tr_udp_seen :: bool
  tr_tcp_seen :: bool

definition track_default :: track where
  "track_default = \<lparr>tr_window_start = 0, tr_syn = 0, tr_udp = 0, tr_drops = 0, tr_odd = 0, tr_ports = [],
     tr_udp_seen = False, tr_tcp_seen = False\<rparr>"

record offender =
  of_strikes :: u32
  of_last_ban :: u64

record ban =
  ban_ip :: src
  ban_secs :: u64
  ban_strikes :: u32
  ban_score :: f32
  ban_reason :: string
  ban_ports :: string

record detector =
  dt_cfg :: detector_config
  dt_bans :: ban_config
  dt_protected :: "cidr list"
  dt_protected6 :: "u64 list"
  dt_tracks :: "(src, track) hmap"
  dt_offenders :: "(src, offender) hmap"

section \<open>Operations\<close>

definition detector_new :: "detector_config \<Rightarrow> ban_config \<Rightarrow> detector" where
  "detector_new cfg bans =
     \<lparr>dt_cfg = cfg, dt_bans = bans, dt_protected = [], dt_protected6 = [], dt_tracks = [], dt_offenders = []\<rparr>"

definition reconfigure :: "detector_config \<Rightarrow> ban_config \<Rightarrow> detector \<Rightarrow> detector" where
  "reconfigure cfg bans d = d\<lparr>dt_cfg := cfg, dt_bans := bans\<rparr>"

fun is_protected :: "detector \<Rightarrow> src \<Rightarrow> bool" where
  "is_protected d (V4 ip) = list_ex (\<lambda>c. cidr_contains c ip) (dt_protected d)"
| "is_protected d (V6 p) = (drop_bit 54 p = 0x3fa \<or> p \<in> set (dt_protected6 d))"

definition set_protected :: "cidr list \<Rightarrow> u64 list \<Rightarrow> detector \<Rightarrow> detector" where
  "set_protected ps ps6 d =
     (let d1 = d\<lparr>dt_protected := ps, dt_protected6 := ps6\<rparr>
      in d1\<lparr>dt_tracks := hm_retain (\<lambda>s _. \<not> is_protected d1 s) (dt_tracks d1)\<rparr>)"

definition tracked :: "detector \<Rightarrow> nat" where
  "tracked d = length (dt_tracks d)"

definition restore_offender :: "src \<Rightarrow> offender \<Rightarrow> detector \<Rightarrow> detector" where
  "restore_offender ip off d = d\<lparr>dt_offenders := hm_put ip off (dt_offenders d)\<rparr>"

definition prune :: "u64 \<Rightarrow> detector \<Rightarrow> detector" where
  "prune now d =
     (let keep = sat_add (b_forgive_secs (dt_bans d)) (b_max_secs (dt_bans d))
      in d\<lparr>dt_tracks := hm_retain (\<lambda>_ t. sat_sub now (tr_window_start t) < d_window_secs (dt_cfg d)) (dt_tracks d),
           dt_offenders := hm_retain (\<lambda>_ off. sat_sub now (of_last_ban off) \<le> keep) (dt_offenders d)\<rparr>)"

definition escalate :: "src \<Rightarrow> f32 \<Rightarrow> string \<Rightarrow> string \<Rightarrow> u64 \<Rightarrow> detector \<Rightarrow> detector \<times> ban" where
  "escalate ip score reason ps now d =
     (let o0 = (case hm_get (dt_offenders d) ip of Some off \<Rightarrow> off | None \<Rightarrow> \<lparr>of_strikes = 0, of_last_ban = now\<rparr>);
          o1 = (if sat_sub now (of_last_ban o0) > b_forgive_secs (dt_bans d) then o0\<lparr>of_strikes := 0\<rparr> else o0);
          o2 = o1\<lparr>of_strikes := of_strikes o1 + 1, of_last_ban := now\<rparr>;
          shift = min (of_strikes o2 - 1) 20;
          secs = min (sat_mul (b_base_secs (dt_bans d)) (push_bit (unat shift) 1)) (b_max_secs (dt_bans d))
      in (d\<lparr>dt_offenders := hm_put ip o2 (dt_offenders d)\<rparr>,
          \<lparr>ban_ip = ip, ban_secs = secs, ban_strikes = of_strikes o2, ban_score = score, ban_reason = reason, ban_ports = ps\<rparr>))"

text \<open>The body of \<open>observe\<close> in its parts: the track after the event, its signals, score, reason and ports.\<close>

definition count_event :: "detector_config \<Rightarrow> packet_event \<Rightarrow> track \<Rightarrow> track" where
  "count_event cfg ev t =
     (let t1 = (if protocol ev = PROTO_UDP then t\<lparr>tr_udp_seen := True\<rparr> else t\<lparr>tr_tcp_seen := True\<rparr>);
          t2 = (if protocol ev = PROTO_UDP then t1\<lparr>tr_udp := tr_udp t1 + 1\<rparr>
                else if is_null_scan ev \<or> is_xmas_scan ev \<or> is_fin_scan ev then t1\<lparr>tr_odd := tr_odd t1 + 1\<rparr>
                else if is_syn ev then t1\<lparr>tr_syn := tr_syn t1 + 1\<rparr> else t1);
          t3 = (if verdict ev = VERDICT_DROP_POLICY then t2\<lparr>tr_drops := tr_drops t2 + 1\<rparr> else t2)
      in if length (tr_ports t3) \<le> unat (d_port_limit cfg) \<and> dst_port ev \<notin> set (tr_ports t3)
         then t3\<lparr>tr_ports := tr_ports t3 @ [dst_port ev]\<rparr> else t3)"

definition open_window :: "detector_config \<Rightarrow> u64 \<Rightarrow> track \<Rightarrow> track" where
  "open_window cfg now t =
     (if sat_sub now (tr_window_start t) \<ge> d_window_secs cfg then track_default\<lparr>tr_window_start := now\<rparr> else t)"

definition as_f32 :: "u32 \<Rightarrow> rat" where
  "as_f32 w = f32_of_nat (unat w)"

definition signals :: "detector_config \<Rightarrow> track \<Rightarrow> (f32 \<times> string) list" where
  "signals cfg t =
     [(f32_div (as_f32 (tr_syn t)) (as_f32 (d_syn_limit cfg)), ''connection flood''),
      (f32_div (f32_of_nat (length (tr_ports t))) (as_f32 (d_port_limit cfg)), ''port scan''),
      (f32_div (as_f32 (tr_udp t)) (as_f32 (d_udp_limit cfg)), ''udp flood''),
      (f32_div (as_f32 (tr_drops t)) (as_f32 (d_drop_limit cfg)), ''probing closed ports''),
      (f32_div (as_f32 (tr_odd t)) ODD_LIMIT, ''stealth scan'')]"

definition score_of :: "detector_config \<Rightarrow> track \<Rightarrow> f32" where
  "score_of cfg t =
     f32_sub (foldl f32_add (Fin 0) (map fst (signals cfg t))) (f32_div 1 (as_f32 (d_port_limit cfg)))"

text \<open>\<open>max_by\<close> keeps the last of several greatest elements.\<close>

definition max_signal :: "(f32 \<times> string) list \<Rightarrow> (f32 \<times> string) option" where
  "max_signal ss =
     (case ss of [] \<Rightarrow> None
      | x # xs \<Rightarrow> Some (foldl (\<lambda>best s. if f32_total_le (fst best) (fst s) then s else best) x xs))"

definition reason_of :: "detector_config \<Rightarrow> track \<Rightarrow> string" where
  "reason_of cfg t = (case max_signal (signals cfg t) of Some s \<Rightarrow> snd s | None \<Rightarrow> ''anomaly'')"

definition proto_of :: "track \<Rightarrow> string" where
  "proto_of t = (if tr_tcp_seen t \<and> tr_udp_seen t then ''tcp/udp'' else if tr_udp_seen t then ''udp'' else ''tcp'')"

definition ports_text :: "track \<Rightarrow> string" where
  "ports_text t =
     (let first = map show_word (take 4 (tr_ports t));
          all = (if length (tr_ports t) > 4 then first @ [''+'' @ show_nat (length (tr_ports t) - 4)] else first)
      in proto_of t @ '' '' @ join '' '' all)"

definition observe :: "packet_event \<Rightarrow> u64 \<Rightarrow> detector \<Rightarrow> detector \<times> ban option" where
  "observe ev now d =
     (let ip = src_of ev in
      if is_protected d ip then (d, None)
      else
        let full = (length (dt_tracks d) \<ge> MAX_TRACKED \<and> \<not> hm_has (dt_tracks d) ip);
            d1 = (if full then prune now d else d)
        in if full \<and> length (dt_tracks d1) \<ge> MAX_TRACKED then (d1, None)
           else
             let cfg = dt_cfg d1;
                 t0 = (case hm_get (dt_tracks d1) ip of Some t \<Rightarrow> t | None \<Rightarrow> track_default);
                 t = count_event cfg ev (open_window cfg now t0);
                 score = score_of cfg t
             in if f32_less score (Fin 1) then (d1\<lparr>dt_tracks := hm_put ip t (dt_tracks d1)\<rparr>, None)
                else
                  let (d2, b) = escalate ip score (reason_of cfg t) (ports_text t) now
                                  (d1\<lparr>dt_tracks := hm_del ip (dt_tracks d1)\<rparr>)
                  in (d2, Some b))"


section \<open>Runs and the invariant\<close>

fun observe_all :: "(packet_event \<times> u64) list \<Rightarrow> detector \<Rightarrow> detector \<times> ban list" where
  "observe_all [] d = (d, [])"
| "observe_all ((ev, now) # es) d =
     (let (d1, b) = observe ev now d; (d2, bs) = observe_all es d1
      in (d2, (case b of Some x \<Rightarrow> x # bs | None \<Rightarrow> bs)))"

definition det_ok :: "detector \<Rightarrow> bool" where
  "det_ok d = (hm_ok (dt_tracks d) \<and> hm_ok (dt_offenders d) \<and> length (dt_tracks d) \<le> MAX_TRACKED
     \<and> (\<forall>s. hm_has (dt_tracks d) s \<longrightarrow> \<not> is_protected d s))"

lemma is_protected_cong:
  "dt_protected d' = dt_protected d \<Longrightarrow> dt_protected6 d' = dt_protected6 d \<Longrightarrow> is_protected d' s = is_protected d s"
  by (cases s) simp_all

lemma is_protected_simps [simp]:
  "is_protected (d\<lparr>dt_tracks := ts\<rparr>) s = is_protected d s"
  "is_protected (d\<lparr>dt_offenders := os\<rparr>) s = is_protected d s"
  "is_protected (d\<lparr>dt_cfg := c\<rparr>) s = is_protected d s"
  "is_protected (d\<lparr>dt_bans := b\<rparr>) s = is_protected d s"
  by (rule is_protected_cong; simp)+

lemma hm_has_simps:
  "hm_has (hm_put k v m) x \<longleftrightarrow> x = k \<or> hm_has m x"
  "hm_has (hm_del k m) x \<longleftrightarrow> x \<noteq> k \<and> hm_has m x"
  "hm_ok m \<Longrightarrow> hm_has (hm_retain p m) x \<Longrightarrow> hm_has m x"
  by (auto simp: hm_has_def hm_get_put hm_get_del hm_get_retain split: option.splits if_splits)

lemma prune_ok: "det_ok d \<Longrightarrow> det_ok (prune now d)"
proof -
  assume d: "det_ok d"
  then have "length (hm_retain (\<lambda>_ t. sat_sub now (tr_window_start t) < d_window_secs (dt_cfg d)) (dt_tracks d)) \<le> MAX_TRACKED"
    by (meson det_ok_def hm_length_retain le_trans)
  with d show ?thesis
    by (auto simp: det_ok_def prune_def Let_def hm_ok_retain dest: hm_has_simps(3))
qed

lemma prune_protected [simp]: "is_protected (prune now d) s = is_protected d s"
  by (simp add: prune_def Let_def)

lemma escalate_frame:
  "escalate ip score reason ps now d = (d', b) \<Longrightarrow> \<exists>os. d' = d\<lparr>dt_offenders := os\<rparr> \<and> (hm_ok (dt_offenders d) \<longrightarrow> hm_ok os) \<and> ban_ip b = ip"
  by (auto simp: escalate_def Let_def hm_ok_put)

lemma observe_cases:
  obtains (skip) "is_protected d (src_of ev)" "observe ev now d = (d, None)"
  | (full) "observe ev now d = (prune now d, None)"
  | (quiet) d1 t where "d1 = d \<or> d1 = prune now d" "observe ev now d = (d1\<lparr>dt_tracks := hm_put (src_of ev) t (dt_tracks d1)\<rparr>, None)"
      "hm_has (dt_tracks d1) (src_of ev) \<or> length (dt_tracks d1) < MAX_TRACKED" "\<not> is_protected d (src_of ev)"
  | (ban) d1 os b where "d1 = d \<or> d1 = prune now d"
      "observe ev now d = (d1\<lparr>dt_tracks := hm_del (src_of ev) (dt_tracks d1), dt_offenders := os\<rparr>, Some b)"
      "hm_ok (dt_offenders d1) \<longrightarrow> hm_ok os" "ban_ip b = src_of ev" "\<not> is_protected d (src_of ev)"
proof (cases "is_protected d (src_of ev)")
  case True
  then show ?thesis by (intro skip) (simp_all add: observe_def)
next
  case np: False
  define f where "f = (length (dt_tracks d) \<ge> MAX_TRACKED \<and> \<not> hm_has (dt_tracks d) (src_of ev))"
  define d1 where "d1 = (if f then prune now d else d)"
  have d1: "d1 = d \<or> d1 = prune now d" by (simp add: d1_def)
  show ?thesis
  proof (cases "f \<and> length (dt_tracks d1) \<ge> MAX_TRACKED")
    case True
    then have "observe ev now d = (prune now d, None)"
      using np by (auto simp: observe_def Let_def f_def d1_def)
    then show ?thesis by (rule full)
  next
    case False
    then have room: "hm_has (dt_tracks d1) (src_of ev) \<or> length (dt_tracks d1) < MAX_TRACKED"
      by (auto simp: f_def d1_def)
    define t0 where "t0 = (case hm_get (dt_tracks d1) (src_of ev) of Some t \<Rightarrow> t | None \<Rightarrow> track_default)"
    define t where "t = count_event (dt_cfg d1) ev (open_window (dt_cfg d1) now t0)"
    define sc where "sc = score_of (dt_cfg d1) t"
    obtain d2 b where e: "escalate (src_of ev) sc (reason_of (dt_cfg d1) t) (ports_text t) now
        (d1\<lparr>dt_tracks := hm_del (src_of ev) (dt_tracks d1)\<rparr>) = (d2, b)" by (metis surj_pair)
    have eq: "observe ev now d =
        (if f32_less sc (Fin 1) then (d1\<lparr>dt_tracks := hm_put (src_of ev) t (dt_tracks d1)\<rparr>, None) else (d2, Some b))"
      using np False e unfolding observe_def Let_def f_def [symmetric] d1_def [symmetric] t0_def [symmetric] t_def [symmetric] sc_def [symmetric]
      by auto
    show ?thesis
    proof (cases "f32_less sc (Fin 1)")
      case True
      with eq show ?thesis by (intro quiet [OF d1 _ room np]) simp
    next
      case False
      from escalate_frame [OF e] obtain os where "d2 = d1\<lparr>dt_tracks := hm_del (src_of ev) (dt_tracks d1), dt_offenders := os\<rparr>"
        "hm_ok (dt_offenders d1) \<longrightarrow> hm_ok os" "ban_ip b = src_of ev" by auto
      with eq False show ?thesis by (intro ban [OF d1 _ _ _ np]) auto
    qed
  qed
qed

lemma observe_ok:
  assumes "det_ok d"
  shows "det_ok (fst (observe ev now d))"
proof (cases rule: observe_cases [of d ev now])
  case skip
  then show ?thesis using assms by simp
next
  case full
  then show ?thesis using prune_ok [OF assms] by simp
next
  case (quiet d1 t)
  then have "det_ok d1" "is_protected d1 = is_protected d" using assms prune_ok by (auto simp: fun_eq_iff)
  then show ?thesis
    using quiet(2-4) by (auto simp: det_ok_def hm_has_simps hm_ok_put hm_length_put)
next
  case (ban d1 os b)
  then have "det_ok d1" using assms prune_ok by auto
  moreover have "length (hm_del (src_of ev) (dt_tracks d1)) \<le> length (dt_tracks d1)" by (rule hm_length_del)
  ultimately show ?thesis
    using ban(2-4) by (auto simp: det_ok_def hm_has_simps hm_ok_del)
qed

interpretation detector_run: invariant_run "\<lambda>(ev, now) d. fst (observe ev now d)" det_ok
  by unfold_locales (auto intro: observe_ok)

lemma observe_all_fst: "fst (observe_all es d) = fold (\<lambda>(ev, now) d. fst (observe ev now d)) es d"
  by (induction es d rule: observe_all.induct) (auto simp: Let_def split: prod.splits)

lemma set_protected_ok:
  assumes "det_ok d"
  shows "det_ok (set_protected ps ps6 d)"
proof -
  let ?d1 = "d\<lparr>dt_protected := ps, dt_protected6 := ps6\<rparr>"
  let ?ts = "hm_retain (\<lambda>s _. \<not> is_protected ?d1 s) (dt_tracks d)"
  have ok: "hm_ok (dt_tracks d)" using assms by (simp add: det_ok_def)
  have "length ?ts \<le> MAX_TRACKED" using assms hm_length_retain [of _ "dt_tracks d"] by (meson det_ok_def le_trans)
  moreover have "\<not> is_protected ?d1 s" if "hm_has ?ts s" for s
    using that by (auto simp: hm_has_def hm_get_retain [OF ok] split: option.splits if_splits)
  moreover have "is_protected (?d1\<lparr>dt_tracks := ts\<rparr>) s = is_protected ?d1 s" for ts s by simp
  ultimately show ?thesis
    using assms ok by (simp add: det_ok_def set_protected_def Let_def hm_ok_retain)
qed

text \<open>C12: the detector's memory stays bounded under any traffic, spoofed sources included: through every run of
  events it tracks at most 16384 sources, each once, and never a protected one.\<close>

theorem detector_bounded:
  assumes "det_ok d"
  shows "det_ok (fst (observe_all es d)) \<and> tracked (fst (observe_all es d)) \<le> 16384"
proof -
  have "det_ok (fst (observe_all es d))"
    unfolding observe_all_fst by (rule detector_run.inv_run) (rule assms)
  then show ?thesis by (simp add: det_ok_def tracked_def MAX_TRACKED_def)
qed

lemma detector_new_ok: "det_ok (detector_new c b)"
  by (simp add: det_ok_def detector_new_def hm_has_def)

text \<open>A dropped SYN from 10.0.0.5 to a port, to evaluate the properties on.\<close>

definition syn_event :: "u16 \<Rightarrow> packet_event" where
  "syn_event p = \<lparr>src6 = 0, src_ip = 0x0a000005, dst_port = p, src_port = 40000, protocol = PROTO_TCP,
     tcp_flags = TCP_FLAG_SYN, payload_len = 0, verdict = VERDICT_DROP_POLICY, family = FAMILY_V4\<rparr>"

lemma syn_event_src: "src_of (syn_event p) = V4 0x0a000005"
  by (simp add: src_of_def syn_event_def family_defs)

lemma detector_bounded_witness:
  "let d = fst (observe_all [(syn_event 22, 100), (syn_event 23, 100)] (detector_new detector_default ban_default))
   in det_ok d \<and> tracked d \<le> 16384"
  unfolding Let_def by (rule detector_bounded) (rule detector_new_ok)

text \<open>C11: a protected source (own address, router, DNS server, trusted network, any link-local IPv6 neighbour) is
  never banned, whatever it sends.\<close>

theorem protected_never_banned:
  assumes "is_protected d ip"
  shows "\<forall>b \<in> set (snd (observe_all es d)). ban_ip b \<noteq> ip"
  using assms
proof (induction es arbitrary: d)
  case (Cons e es)
  obtain ev now where e: "e = (ev, now)" by (cases e)
  obtain d1 b where o1: "observe ev now d = (d1, b)" by (metis surj_pair)
  have "is_protected d1 ip \<and> (\<forall>x. b = Some x \<longrightarrow> ban_ip x \<noteq> ip)"
    by (cases rule: observe_cases [of d ev now]) (use o1 Cons.prems in auto)
  then show ?case
    using Cons.IH [of d1] by (auto simp: e o1 Let_def split: prod.splits option.splits)
qed simp


lemma protected_never_banned_witness:
  "filter (\<lambda>b. ban_ip b = V4 0x0a000005) (snd (observe_all [(syn_event 22, 100)]
     ((detector_new detector_default ban_default)\<lparr>dt_protected := [cidr_single 0x0a000005]\<rparr>))) = []"
  unfolding filter_empty_conv by (rule protected_never_banned) (simp add: cidr_contains_def cidr_single_def)

section \<open>Escalation\<close>

text \<open>Successive bans of one source at the given times.\<close>

fun ban_run :: "src \<Rightarrow> f32 \<Rightarrow> string \<Rightarrow> string \<Rightarrow> u64 list \<Rightarrow> detector \<Rightarrow> ban list" where
  "ban_run ip score reason ps [] d = []"
| "ban_run ip score reason ps (now # ts) d =
     (let (d', b) = escalate ip score reason ps now d in b # ban_run ip score reason ps ts d')"

fun gaps_within :: "u64 \<Rightarrow> u64 list \<Rightarrow> bool" where
  "gaps_within g (a # b # ts) = (sat_sub b a \<le> g \<and> gaps_within g (b # ts))"
| "gaps_within g _ = True"

text \<open>The length of the ban with \<open>n\<close> strikes: the base doubled \<open>n - 1\<close> times (at most 20), up to the maximum.\<close>

definition ban_length :: "ban_config \<Rightarrow> nat \<Rightarrow> nat" where
  "ban_length b n = min (unat (b_base_secs b) * 2 ^ min (n - 1) 20) (unat (b_max_secs b))"

lemma escalate_secs:
  assumes "unat s \<le> 20"
  shows "unat (min (sat_mul base (push_bit (unat s) 1)) mx) = min (unat base * 2 ^ unat s) (unat (mx::u64))"
proof -
  have "(2::nat) ^ unat s \<le> 2 ^ 20" using assms by (intro power_increasing) simp_all
  also have "(2::nat) ^ 20 < 2 ^ 64" by simp
  finally have "(2::nat) ^ unat s < 2 ^ 64" .
  then have p: "unat (push_bit (unat s) 1 :: u64) = 2 ^ unat s"
    unfolding unsigned_push_bit_eq using assms by (simp add: take_bit_nat_eq_self_iff push_bit_eq_mult)
  have m: "unat mx \<le> 2 ^ LENGTH(64) - 1" using unat_lt2p64 [of mx] by simp
  show ?thesis unfolding unat_min_word unat_sat_mul p using m by linarith
qed

lemma escalate_known:
  assumes "hm_get (dt_offenders d) ip = Some off" "sat_sub now (of_last_ban off) \<le> b_forgive_secs (dt_bans d)"
    "unat (of_strikes off) + 1 < 2 ^ 32"
  shows "\<exists>d' b. escalate ip score reason ps now d = (d', b) \<and> dt_bans d' = dt_bans d
    \<and> hm_get (dt_offenders d') ip = Some \<lparr>of_strikes = of_strikes off + 1, of_last_ban = now\<rparr>
    \<and> ban_strikes b = of_strikes off + 1 \<and> unat (ban_secs b) = ban_length (dt_bans d) (unat (of_strikes off) + 1)"
proof -
  have "\<not> sat_sub now (of_last_ban off) > b_forgive_secs (dt_bans d)" using assms(2) by simp
  moreover have "unat (min (of_strikes off) 20) = min (unat (of_strikes off)) 20"
    by (simp add: unat_min_word)
  ultimately show ?thesis
    using assms(1) escalate_secs [of "min (of_strikes off) 20" "b_base_secs (dt_bans d)" "b_max_secs (dt_bans d)"]
    by (simp add: escalate_def Let_def hm_get_put ban_length_def)
qed

lemma escalate_fresh:
  assumes "hm_get (dt_offenders d) ip = None"
  shows "\<exists>d' b. escalate ip score reason ps now d = (d', b) \<and> dt_bans d' = dt_bans d
    \<and> hm_get (dt_offenders d') ip = Some \<lparr>of_strikes = 1, of_last_ban = now\<rparr>
    \<and> ban_strikes b = 1 \<and> unat (ban_secs b) = ban_length (dt_bans d) 1"
  using assms escalate_secs [of 0 "b_base_secs (dt_bans d)" "b_max_secs (dt_bans d)"]
  by (simp add: escalate_def Let_def hm_get_put ban_length_def)

lemma ban_run_known:
  assumes "hm_get (dt_offenders d) ip = Some \<lparr>of_strikes = s, of_last_ban = t0\<rparr>"
    "gaps_within (b_forgive_secs (dt_bans d)) (t0 # ts)" "unat s + length ts < 2 ^ 32"
  shows "map (\<lambda>b. unat (ban_secs b)) (ban_run ip score reason ps ts d)
    = map (\<lambda>i. ban_length (dt_bans d) (unat s + 1 + i)) [0..<length ts]"
  using assms
proof (induction ts arbitrary: d s t0)
  case (Cons now ts)
  have s1: "unat (s + 1) = unat s + 1" using Cons.prems(3) by (subst unat_add_no_wrap) simp_all
  obtain d' b where e: "escalate ip score reason ps now d = (d', b)" "dt_bans d' = dt_bans d"
    "hm_get (dt_offenders d') ip = Some \<lparr>of_strikes = s + 1, of_last_ban = now\<rparr>"
    "unat (ban_secs b) = ban_length (dt_bans d) (unat s + 1)"
    using escalate_known [OF Cons.prems(1), of now score reason ps] Cons.prems(2,3) by auto
  have "map (\<lambda>b. unat (ban_secs b)) (ban_run ip score reason ps ts d')
      = map (\<lambda>i. ban_length (dt_bans d') (unat (s + 1) + 1 + i)) [0..<length ts]"
    by (rule Cons.IH [OF e(3)]) (use Cons.prems e(2) s1 in auto)
  moreover have "[0..<length (now # ts)] = 0 # map Suc [0..<length ts]"
    by (simp add: map_Suc_upt upt_conv_Cons del: upt_Suc)
  ultimately show ?case using e s1 by simp
qed simp

text \<open>C14: repeat offenders get exponentially longer bans. When a source with no record is banned again and again,
  each time within \<open>forgive_secs\<close> of the last, ban number \<open>i + 1\<close> lasts \<open>base_secs * 2 ^ i\<close> seconds (\<open>i\<close> capped at
  20), never more than \<open>max_secs\<close>, with no overflow on the way.\<close>

theorem bans_double:
  assumes "hm_get (dt_offenders d) ip = None" "gaps_within (b_forgive_secs (dt_bans d)) ts" "length ts < 2 ^ 32"
  shows "map (\<lambda>b. unat (ban_secs b)) (ban_run ip score reason ps ts d)
    = map (\<lambda>i. min (unat (b_base_secs (dt_bans d)) * 2 ^ min i 20) (unat (b_max_secs (dt_bans d)))) [0..<length ts]"
proof (cases ts)
  case (Cons now ts')
  obtain d' b where e: "escalate ip score reason ps now d = (d', b)" "dt_bans d' = dt_bans d"
    "hm_get (dt_offenders d') ip = Some \<lparr>of_strikes = 1, of_last_ban = now\<rparr>" "unat (ban_secs b) = ban_length (dt_bans d) 1"
    using escalate_fresh [OF assms(1), of score reason ps now] by blast
  have "map (\<lambda>b. unat (ban_secs b)) (ban_run ip score reason ps ts' d')
      = map (\<lambda>i. ban_length (dt_bans d') (unat (1::u32) + 1 + i)) [0..<length ts']"
    by (rule ban_run_known [OF e(3)]) (use assms(2,3) Cons e(2) in auto)
  moreover have "[0..<length ts] = 0 # map Suc [0..<length ts']"
    by (simp add: Cons map_Suc_upt upt_conv_Cons del: upt_Suc)
  ultimately show ?thesis using e Cons by (simp add: ban_length_def)
qed simp

lemma bans_double_witness:
  "map (\<lambda>b. unat (ban_secs b)) (ban_run (V4 1) (Fin 1) ''port scan'' ''tcp 1'' [0, 200, 600] (detector_new detector_default ban_default))
   = [120, 240, 480]"
  by (subst bans_double) (simp_all add: detector_new_def ban_default_def sat_sub_def upt_rec)

end
