(* ===== verification/Host.thy ===== *)
theory Host
  imports Config
begin

text \<open>
  Host facts (src/ai-firewall/src/net.rs): the clocks, the default route, name servers, own addresses and
  the sources that must never be banned. What the operating system answers is the record \<open>host\<close>: the texts of the files read,
  the output of \<open>nmcli\<close> and the interface addresses of \<open>getifaddrs\<close>, in their order.
\<close>

section \<open>What the system answers\<close>

datatype if_addr = If_V4 u32 "u32 option" | If_V6 "u16 list" | If_Other

record host =
  h_files :: "string \<rightharpoonup> string"
  h_nmcli :: "string option"
  h_ifaddrs :: "(string \<times> if_addr) list"
  h_net_dir :: "string list"
  h_boot :: "u64 \<times> u64"
  h_unix :: "u64 option"

section \<open>Clocks\<close>

definition boot_ns :: "host \<Rightarrow> u64" where
  "boot_ns h = fst (h_boot h) * 1000000000 + snd (h_boot h)"

definition boot_secs :: "host \<Rightarrow> u64" where
  "boot_secs h = boot_ns h div 1000000000"

definition unix_secs :: "host \<Rightarrow> u64" where
  "unix_secs h = opt_or (h_unix h) 0"

section \<open>Default route\<close>

text \<open>\<open>u32::from_str_radix(s, 16)\<close>, and \<open>u32::from_be\<close> on a little-endian machine.\<close>

definition parse_hex32 :: "string \<Rightarrow> u32 option" where
  "parse_hex32 s =
     (let ds = (case s of c # r \<Rightarrow> if c = CHR ''+'' then r else s | [] \<Rightarrow> [])
      in if ds \<noteq> [] \<and> list_all (\<lambda>c. to_digit 16 c \<noteq> None) ds \<and> radix_val 16 ds \<le> 4294967295
         then Some (of_nat (radix_val 16 ds)) else None)"

definition from_be32 :: "u32 \<Rightarrow> u32" where
  "from_be32 w = (case rev (bytes32 w) of [a, b, c, d] \<Rightarrow> be32 a b c d | _ \<Rightarrow> 0)"

text \<open>One line: the outer \<open>None\<close> is the panic of \<open>f[7]\<close> on a line of exactly seven fields, the inner one a line
  that is skipped.\<close>

definition route_line :: "string \<Rightarrow> (u32 \<times> string \<times> u32) option option" where
  "route_line line =
     (let f = split_whitespace line in
      if length f < 7 \<or> f ! 1 \<noteq> ''00000000'' then Some None
      else if length f \<le> 7 then None
      else if f ! 7 \<noteq> ''00000000'' then Some None
      else Some (do {
        g \<leftarrow> parse_hex32 (f ! 2);
        metric \<leftarrow> parse_u32 (f ! 6);
        Some (metric, f ! 0, from_be32 g)
      }))"

fun min_by_key :: "('a \<Rightarrow> 'k::linorder) \<Rightarrow> 'a list \<Rightarrow> 'a option" where
  "min_by_key k [] = None"
| "min_by_key k (x # xs) =
     (case min_by_key k xs of None \<Rightarrow> Some x | Some y \<Rightarrow> if k y < k x then Some y else Some x)"

fun collect_opt :: "('a \<Rightarrow> 'b option option) \<Rightarrow> 'a list \<Rightarrow> 'b list option" where
  "collect_opt f [] = Some []"
| "collect_opt f (x # xs) =
     (case f x of
        None \<Rightarrow> None
      | Some None \<Rightarrow> collect_opt f xs
      | Some (Some y) \<Rightarrow> map_option ((#) y) (collect_opt f xs))"

definition parse_default_route :: "string \<Rightarrow> (string \<times> u32) option option" where
  "parse_default_route text =
     map_option (\<lambda>rs. map_option snd (min_by_key fst rs)) (collect_opt route_line (drop 1 (str_lines text)))"

definition default_route :: "host \<Rightarrow> (string \<times> u32) option option" where
  "default_route h =
     (case h_files h ''/proc/net/route'' of None \<Rightarrow> Some None | Some t \<Rightarrow> parse_default_route t)"

section \<open>Files and interfaces\<close>

function replace_all :: "string \<Rightarrow> string \<Rightarrow> string \<Rightarrow> string" where
  "replace_all p r [] = []"
| "replace_all p r (c # cs) =
     (if p \<noteq> [] \<and> starts_with p (c # cs) then r @ replace_all p r (drop (length p) (c # cs))
      else c # replace_all p r cs)"
  by pat_completeness auto
termination
  by (relation "measure (\<lambda>(p, r, s). length s)") auto

definition active_connections :: "host \<Rightarrow> string list" where
  "active_connections h =
     (case h_nmcli h of
        None \<Rightarrow> []
      | Some out \<Rightarrow>
          filter (\<lambda>l. l \<noteq> [])
            (map (\<lambda>l. replace_all [CHR 0x5C, CHR 0x5C] [CHR 0x5C] (replace_all [CHR 0x5C, CHR '':''] '':'' l)) (str_lines out)))"

definition ifindex :: "host \<Rightarrow> string \<Rightarrow> u32 option" where
  "ifindex h iface = do {
     t \<leftarrow> h_files h (''/sys/class/net/'' @ iface @ ''/ifindex'');
     parse_u32 (trim t)
   }"

definition ephemeral_low :: "host \<Rightarrow> u32" where
  "ephemeral_low h =
     opt_or (do {
       s \<leftarrow> h_files h ''/proc/sys/net/ipv4/ip_local_port_range'';
       (case split_whitespace s of w # _ \<Rightarrow> parse_u32 w | [] \<Rightarrow> None)
     }) 32768"

definition nameserver_line :: "string \<Rightarrow> u32 option" where
  "nameserver_line line = do {
     r \<leftarrow> strip_prefix ''nameserver'' (trim line);
     parse_ipv4 (trim r)
   }"

definition nameservers :: "host \<Rightarrow> u32 list" where
  "nameservers h =
     concat (map (\<lambda>p. case h_files h p of None \<Rightarrow> [] | Some t \<Rightarrow> List.map_filter nameserver_line (str_lines t))
       [''/etc/resolv.conf'', ''/run/systemd/resolve/resolv.conf''])"

record iface_net =
  in_iface :: string
  in_addr :: u32
  in_net :: cidr

definition interface_networks :: "host \<Rightarrow> iface_net list" where
  "interface_networks h =
     List.map_filter (\<lambda>(n, a). case a of
       If_V4 addr m \<Rightarrow> (let mask = opt_or m (- 1) in
         Some \<lparr>in_iface = n, in_addr = addr, in_net = \<lparr>ci_net = addr AND mask, ci_mask = mask\<rparr>\<rparr>)
     | _ \<Rightarrow> None) (h_ifaddrs h)"

definition own_addresses :: "host \<Rightarrow> u32 list" where
  "own_addresses h = map in_addr (interface_networks h)"

definition is_virt_bridge :: "string \<Rightarrow> bool" where
  "is_virt_bridge iface =
     list_ex (\<lambda>p. starts_with p iface) [''virbr'', ''docker'', ''br-'', ''podman'', ''lxdbr'', ''vmnet'', ''cni'']"

definition own_v6_prefixes :: "host \<Rightarrow> u64 list" where
  "own_v6_prefixes h =
     remdups_adj (sort (List.map_filter (\<lambda>(n, a). case a of
       If_V6 ip \<Rightarrow> if ip = [0, 0, 0, 0, 0, 0, 0, 1] then None else Some (v6_prefix ip)
     | _ \<Rightarrow> None) (h_ifaddrs h)))"

text \<open>\<open>None\<close> is the panic of \<open>default_route\<close>.\<close>

definition auto_protected :: "host \<Rightarrow> cidr list option" where
  "auto_protected h =
     map_option (\<lambda>route.
       [projr (cidr_parse ''127.0.0.0/8''), cidr_single 0]
       @ (case route of Some (_, gw) \<Rightarrow> [cidr_single gw] | None \<Rightarrow> [])
       @ map cidr_single (nameservers h)
       @ map cidr_single (own_addresses h)
       @ map in_net (filter (\<lambda>n. is_virt_bridge (in_iface n)) (interface_networks h)))
     (default_route h)"

section \<open>Facts\<close>

lemma min_by_key_None: "min_by_key k xs = None \<longleftrightarrow> xs = []"
  by (cases xs) (auto split: option.splits)

lemma min_by_key_Some:
  "min_by_key k xs = Some y \<Longrightarrow> y \<in> set xs \<and> (\<forall>x \<in> set xs. k y \<le> k x)"
proof (induction xs arbitrary: y)
  case (Cons x xs)
  then show ?case
    by (cases "min_by_key k xs") (auto simp: min_by_key_None split: if_splits)
qed simp

lemma collect_opt_set: "collect_opt f xs = Some ys \<Longrightarrow> y \<in> set ys \<longleftrightarrow> (\<exists>x \<in> set xs. f x = Some (Some y))"
  by (induction xs arbitrary: ys) (auto split: option.splits)

text \<open>The uplink is the default route of lowest metric: it is one of the lines of the kernel's table that parse
  as a default route, and no such line has a smaller metric.\<close>

theorem default_route_lowest_metric:
  assumes "parse_default_route text = Some (Some (iface, gw))"
  shows "\<exists>metric. (\<exists>l \<in> set (drop 1 (str_lines text)). route_line l = Some (Some (metric, iface, gw)))
    \<and> (\<forall>l \<in> set (drop 1 (str_lines text)). \<forall>r. route_line l = Some (Some r) \<longrightarrow> metric \<le> fst r)"
proof -
  obtain rs r where rs: "collect_opt route_line (drop 1 (str_lines text)) = Some rs" and r: "min_by_key fst rs = Some r"
    and g: "snd r = (iface, gw)"
    using assms by (auto simp: parse_default_route_def)
  note m = min_by_key_Some [OF r]
  have "route_line l = Some (Some x) \<Longrightarrow> l \<in> set (drop 1 (str_lines text)) \<Longrightarrow> fst r \<le> fst x" for l x
    using m collect_opt_set [OF rs, of x] by blast
  moreover have "\<exists>l \<in> set (drop 1 (str_lines text)). route_line l = Some (Some (fst r, iface, gw))"
    using m collect_opt_set [OF rs, of r] g by (metis prod.collapse)
  ultimately show ?thesis by blast
qed

definition demo_routes :: string where
  "demo_routes = ''head'' @ newline @ ''w 00000000 0100430A 3 0 0 600 00000000'' @ newline
     @ ''e 00000000 0200430A 3 0 0 100 00000000'' @ newline"

lemma default_route_lowest_metric_witness:
  "\<exists>metric. (\<exists>l \<in> set (drop 1 (str_lines demo_routes)). route_line l = Some (Some (metric, ''e'', 0x0A430002)))
    \<and> (\<forall>l \<in> set (drop 1 (str_lines demo_routes)). \<forall>r. route_line l = Some (Some r) \<longrightarrow> metric \<le> fst r)"
proof -
  have "parse_default_route demo_routes = Some (Some (''e'', 0x0A430002))"
    by (simp add: demo_routes_def parse_default_route_def newline_def str_lines_def route_line_def split_whitespace_def
        starts_with_def parse_hex32_def to_digit_def radix_val_def from_be32_def bytes32_def be32_def Let_def text_eval)
  from default_route_lowest_metric [OF this] show ?thesis .
qed

text \<open>A line of the route table with exactly seven fields and destination 0 makes the parser index past the end
  of the line's fields, a panic that takes the daemon down.\<close>

theorem default_route_panics:
  "parse_default_route (''header'' @ newline @ ''w 00000000 0100430A 3 0 0 600'' @ newline) = None"
  by code_simp

text \<open>The sources \<open>auto_protected\<close> covers.\<close>

definition host_source :: "host \<Rightarrow> u32 \<Rightarrow> bool" where
  "host_source h ip =
     (ip \<in> set (own_addresses h) \<or> ip \<in> set (nameservers h) \<or> (\<exists>i. default_route h = Some (Some (i, ip))) \<or> ip = 0)"

lemma cidr_single_contains [simp]: "cidr_contains (cidr_single a) ip \<longleftrightarrow> ip = a"
  by (simp add: cidr_contains_def cidr_single_def)

lemma auto_protected_covers:
  assumes "auto_protected h = Some ps" "host_source h ip"
  shows "\<exists>c \<in> set ps. cidr_contains c ip"
proof -
  obtain route where r: "default_route h = Some route" and ps: "ps =
      [projr (cidr_parse ''127.0.0.0/8''), cidr_single 0]
       @ (case route of Some (_, gw) \<Rightarrow> [cidr_single gw] | None \<Rightarrow> [])
       @ map cidr_single (nameservers h) @ map cidr_single (own_addresses h)
       @ map in_net (filter (\<lambda>n. is_virt_bridge (in_iface n)) (interface_networks h))"
    using assms(1) by (auto simp: auto_protected_def)
  have "cidr_single ip \<in> set ps"
    using assms(2) r by (auto simp: host_source_def ps)
  then show ?thesis by (metis cidr_single_contains)
qed

end
