(* ===== verification/Rules.thy ===== *)
theory Rules
  imports Config Kernel
begin

text \<open>
  How a policy becomes the kernel's rule maps (src/ai-firewall/src/daemon.rs: \<open>compile\<close>, \<open>sync_ports\<close>,
  \<open>sync_trie\<close> and the map updates of \<open>apply_config\<close> and \<open>apply_feeds\<close>). User space writes differences: it
  remembers what it last wrote. The contract of that mirroring is the locale \<open>mirrored\<close>, interpreted
  on the port arrays, the rule tries and the feed trie. A map operation gives \<open>None\<close> when the kernel refuses it: an index
  outside an array, a full map, a key to remove that is not there.
\<close>

section \<open>Map operations from user space\<close>

definition arr_set :: "u32 \<Rightarrow> u32 \<Rightarrow> 'v \<Rightarrow> (u32 \<rightharpoonup> 'v) \<Rightarrow> (u32 \<rightharpoonup> 'v) option" where
  "arr_set max_entries i v m = (if i < max_entries then Some (m(i \<mapsto> v)) else None)"

definition trie_insert :: "nat \<Rightarrow> u32 \<times> u8 list \<Rightarrow> trie \<Rightarrow> trie option" where
  "trie_insert max_entries k t = (if k \<in> t \<or> card t < max_entries then Some (insert k t) else None)"

definition trie_remove :: "u32 \<times> u8 list \<Rightarrow> trie \<Rightarrow> trie option" where
  "trie_remove k t = (if k \<in> t then Some (t - {k}) else None)"

text \<open>A loop that stops at the first refusal (\<open>?\<close>), and one that goes on (\<open>let _ =\<close>) and counts refusals.\<close>

fun run_all :: "('k \<Rightarrow> 'm \<Rightarrow> 'm option) \<Rightarrow> 'k list \<Rightarrow> 'm \<Rightarrow> 'm \<times> bool" where
  "run_all f [] m = (m, True)"
| "run_all f (k # ks) m = (case f k m of Some m' \<Rightarrow> run_all f ks m' | None \<Rightarrow> (m, False))"

fun run_try :: "('k \<Rightarrow> 'm \<Rightarrow> 'm option) \<Rightarrow> 'k list \<Rightarrow> 'm \<Rightarrow> 'm \<times> nat" where
  "run_try f [] m = (m, 0)"
| "run_try f (k # ks) m =
     (case f k m of
        Some m' \<Rightarrow> run_try f ks m'
      | None \<Rightarrow> (let (m'', n) = run_try f ks m in (m'', Suc n)))"

section \<open>The mirroring contract\<close>

locale mirrored =
  fixes valid :: "'k \<Rightarrow> bool"
    and has :: "'m \<Rightarrow> 'k \<Rightarrow> bool"
    and put :: "'k \<Rightarrow> 'm \<Rightarrow> 'm option"
    and del :: "'k \<Rightarrow> 'm \<Rightarrow> 'm option"
  assumes put_has: "valid k \<Longrightarrow> valid x \<Longrightarrow> put k m = Some m' \<Longrightarrow> has m' x \<longleftrightarrow> x = k \<or> has m x"
    and del_has: "valid k \<Longrightarrow> valid x \<Longrightarrow> del k m = Some m' \<Longrightarrow> has m' x \<longleftrightarrow> x \<noteq> k \<and> has m x"
    and del_ok: "valid k \<Longrightarrow> has m k \<Longrightarrow> del k m \<noteq> None"
begin

text \<open>\<open>agrees m ks\<close>: the map holds exactly the remembered keys.\<close>

definition agrees :: "'m \<Rightarrow> 'k list \<Rightarrow> bool" where
  "agrees m ks = (\<forall>x. valid x \<longrightarrow> (has m x \<longleftrightarrow> x \<in> set ks))"

lemma run_all_put:
  "run_all put ks m = (m', True) \<Longrightarrow> \<forall>k \<in> set ks. valid k \<Longrightarrow> valid x \<Longrightarrow> has m' x \<longleftrightarrow> x \<in> set ks \<or> has m x"
proof (induction ks arbitrary: m)
  case (Cons k ks)
  then obtain m1 where p: "put k m = Some m1" "run_all put ks m1 = (m', True)" by (auto split: option.splits)
  with Cons.IH [OF p(2)] Cons.prems have "has m' x \<longleftrightarrow> x \<in> set ks \<or> has m1 x" by simp
  then show ?case using put_has [of k x m m1] p Cons.prems by auto
qed simp

lemma run_all_del:
  "run_all del ks m = (m', True) \<Longrightarrow> \<forall>k \<in> set ks. valid k \<Longrightarrow> valid x \<Longrightarrow> has m' x \<longleftrightarrow> x \<notin> set ks \<and> has m x"
proof (induction ks arbitrary: m)
  case (Cons k ks)
  then obtain m1 where p: "del k m = Some m1" "run_all del ks m1 = (m', True)" by (auto split: option.splits)
  with Cons.IH [OF p(2)] Cons.prems have "has m' x \<longleftrightarrow> x \<notin> set ks \<and> has m1 x" by simp
  then show ?case using del_has [of k x m m1] p Cons.prems by auto
qed simp

lemma run_try_del:
  "\<forall>k \<in> set ks. valid k \<Longrightarrow> valid x \<Longrightarrow> has (fst (run_try del ks m)) x \<longleftrightarrow> x \<notin> set ks \<and> has m x"
proof (induction ks arbitrary: m)
  case (Cons k ks)
  show ?case
  proof (cases "del k m")
    case None
    then have "\<not> has m k" using del_ok [of k m] Cons.prems by auto
    moreover have "has (fst (run_try del ks m)) x \<longleftrightarrow> x \<notin> set ks \<and> has m x"
      using Cons by simp
    ultimately show ?thesis using None by (auto split: prod.splits)
  next
    case (Some m1)
    have "has (fst (run_try del ks m1)) x \<longleftrightarrow> x \<notin> set ks \<and> has m1 x" using Cons by simp
    then show ?thesis using Some del_has [of k x m m1] Cons.prems by auto
  qed
qed simp

text \<open>Removing what is no longer wanted and adding what is new makes the map agree with what is wanted.\<close>

lemma sync_strict:
  assumes "agrees m have" "\<forall>k \<in> set have \<union> set wanted. valid k"
    "run_all del (hs_diff have wanted) m = (m1, True)" "run_all put (hs_diff wanted have) m1 = (m2, True)"
  shows "agrees m2 wanted"
  using assms run_all_del [OF assms(3)] run_all_put [OF assms(4)] by (auto simp: agrees_def)

lemma sync_lenient:
  assumes "agrees m have" "\<forall>k \<in> set have \<union> set wanted. valid k"
    "run_all put (hs_diff wanted have) (fst (run_try del (hs_diff have wanted) m)) = (m2, True)"
  shows "agrees m2 wanted"
  using assms run_try_del [of "hs_diff have wanted" _ m] run_all_put [OF assms(3)] by (auto simp: agrees_def)

text \<open>When the insertions may be refused, only wanted keys and no stale ones are in the map.\<close>

lemma run_try_put:
  "\<forall>k \<in> set ks. valid k \<Longrightarrow> valid x \<Longrightarrow> has (fst (run_try put ks m)) x \<Longrightarrow> x \<in> set ks \<or> has m x"
  "\<forall>k \<in> set ks. valid k \<Longrightarrow> valid x \<Longrightarrow> has m x \<Longrightarrow> has (fst (run_try put ks m)) x"
proof (induction ks arbitrary: m)
  case (Cons k ks)
  {
    case 1
    then show ?case
      using put_has [of k x m] Cons.IH(1) [of "case put k m of Some m' \<Rightarrow> m' | None \<Rightarrow> m"]
      by (auto split: option.splits prod.splits)
  next
    case 2
    then show ?case
      using put_has [of k x m] Cons.IH(2) [of "case put k m of Some m' \<Rightarrow> m' | None \<Rightarrow> m"]
      by (auto split: option.splits prod.splits)
  }
qed simp_all

lemma sync_try:
  assumes "\<forall>x. valid x \<longrightarrow> has m x \<longrightarrow> x \<in> set have" "\<forall>k \<in> set have \<union> set wanted. valid k" "valid x"
    "has (fst (run_try put (hs_diff wanted have) (fst (run_try del (hs_diff have wanted) m)))) x"
  shows "x \<in> set wanted"
  using assms run_try_del [of "hs_diff have wanted" x m]
    run_try_put(1) [of "hs_diff wanted have" x "fst (run_try del (hs_diff have wanted) m)"]
  by auto

text \<open>When none is refused, the map agrees with what is wanted.\<close>

lemma run_try_put_all:
  "\<forall>k \<in> set ks. valid k \<Longrightarrow> valid x \<Longrightarrow> run_try put ks m = (m', 0) \<Longrightarrow> has m' x \<longleftrightarrow> x \<in> set ks \<or> has m x"
proof (induction ks arbitrary: m)
  case (Cons k ks)
  then obtain m1 where p: "put k m = Some m1" "run_try put ks m1 = (m', 0)"
    by (auto split: option.splits prod.splits simp: Let_def)
  with Cons.IH [of m1] Cons.prems have "has m' x \<longleftrightarrow> x \<in> set ks \<or> has m1 x" by simp
  then show ?case using put_has [of k x m m1] p Cons.prems by auto
qed simp

lemma sync_try_all:
  assumes "agrees m have" "\<forall>k \<in> set have \<union> set wanted. valid k"
    "run_try put (hs_diff wanted have) (fst (run_try del (hs_diff have wanted) m)) = (m2, 0)"
  shows "agrees m2 wanted"
  using assms run_try_del [of "hs_diff have wanted" _ m] run_try_put_all [OF _ _ assms(3)]
  by (auto simp: agrees_def)

end

section \<open>Ports\<close>

definition ALLOW_ENTRIES :: u32 where "ALLOW_ENTRIES = 65536"
definition FROM_ENTRIES :: nat where "FROM_ENTRIES = 4096"
definition FEED_ENTRIES :: nat where "FEED_ENTRIES = 131072"

definition set_port_flag :: "u8 \<Rightarrow> u16 \<Rightarrow> (u32 \<rightharpoonup> u8) \<Rightarrow> (u32 \<rightharpoonup> u8) option" where
  "set_port_flag v port m = arr_set ALLOW_ENTRIES (ucast port) v m"

text \<open>Result: the map, what is remembered, and whether it succeeded.\<close>

definition sync_ports :: "(u32 \<rightharpoonup> u8) \<Rightarrow> u16 list \<Rightarrow> u16 list \<Rightarrow> (u32 \<rightharpoonup> u8) \<times> u16 list \<times> bool" where
  "sync_ports m opn wanted =
     (let (m1, ok1) = run_all (set_port_flag 0) (hs_diff opn wanted) m in
      if \<not> ok1 then (m1, opn, False)
      else
        let (m2, ok2) = run_all (set_port_flag 1) (hs_diff wanted opn) m1 in
        if \<not> ok2 then (m2, opn, False) else (m2, wanted, True))"

lemma ucast_16_32_inj: "(ucast (a::u16) :: u32) = ucast b \<longleftrightarrow> a = b"
  by (metis unat_ucast_16_32 unsigned_word_eqI)

lemma port_index: "(ucast (p::u16) :: u32) < ALLOW_ENTRIES"
  using unat_lt2p16 [of p] by (simp add: word_less_nat_alt ALLOW_ENTRIES_def unat_ucast_16_32)

lemma set_port_flag_eq: "set_port_flag v p m = Some (m(ucast p \<mapsto> v))"
  by (simp add: set_port_flag_def arr_set_def port_index)

lemma port_open_upd: "port_open (m(ucast p \<mapsto> v)) x \<longleftrightarrow> (if x = p then v \<noteq> 0 else port_open m x)"
  by (auto simp: port_open_def ucast_16_32_inj)

interpretation port_map: mirrored "\<lambda>_. True" port_open "set_port_flag 1" "set_port_flag 0"
  by unfold_locales (auto simp: set_port_flag_eq port_open_upd)

lemma run_all_ports: "\<exists>m'. run_all (set_port_flag v) ps m = (m', True)"
  by (induction ps arbitrary: m) (auto simp: set_port_flag_eq)

text \<open>Every port is a valid index, so opening and closing ports cannot fail.\<close>

lemma sync_ports_ok:
  obtains m' where "sync_ports m opn wanted = (m', wanted, True)"
    "(\<forall>p. port_open m p \<longleftrightarrow> p \<in> set opn) \<Longrightarrow> \<forall>p. port_open m' p \<longleftrightarrow> p \<in> set wanted"
proof -
  obtain m1 where m1: "run_all (set_port_flag 0) (hs_diff opn wanted) m = (m1, True)" using run_all_ports by blast
  obtain m2 where m2: "run_all (set_port_flag 1) (hs_diff wanted opn) m1 = (m2, True)" using run_all_ports by blast
  show ?thesis
  proof (rule that [of m2])
    show "sync_ports m opn wanted = (m2, wanted, True)" by (simp add: sync_ports_def m1 m2)
    show "\<forall>p. port_open m2 p \<longleftrightarrow> p \<in> set wanted" if "\<forall>p. port_open m p \<longleftrightarrow> p \<in> set opn"
      using port_map.sync_strict [OF _ _ m1 m2] that by (simp add: port_map.agrees_def)
  qed
qed

section \<open>Rule tries\<close>

definition sync_trie ::
  "trie \<Rightarrow> (u32 \<times> rule_key) list \<Rightarrow> (u32 \<times> rule_key) list \<Rightarrow> trie \<times> (u32 \<times> rule_key) list \<times> bool" where
  "sync_trie t have wanted =
     (let (t1, _) = run_try trie_remove (hs_diff have wanted) t;
          (t2, ok) = run_all (trie_insert FROM_ENTRIES) (hs_diff wanted have) t1
      in if ok then (t2, wanted, True) else (t2, have, False))"

interpretation rule_trie: mirrored "\<lambda>_. True" "\<lambda>t k. k \<in> t" "trie_insert FROM_ENTRIES" trie_remove
  by unfold_locales (auto simp: trie_insert_def trie_remove_def split: if_splits)

lemma sync_trie_agrees:
  assumes "sync_trie t have wanted = (t', have', True)" "t = set have"
  shows "t' = set wanted \<and> have' = wanted"
proof -
  let ?t1 = "fst (run_try trie_remove (hs_diff have wanted) t)"
  have r: "run_all (trie_insert FROM_ENTRIES) (hs_diff wanted have) ?t1 = (t', True)" and h: "have' = wanted"
    using assms(1) by (auto simp: sync_trie_def Let_def split: prod.splits if_splits)
  have "rule_trie.agrees t have" using assms(2) by (simp add: rule_trie.agrees_def)
  from rule_trie.sync_lenient [OF this _ r] have "t' = set wanted" by (auto simp: rule_trie.agrees_def)
  with h show ?thesis by simp
qed


section \<open>Compiling a policy\<close>

definition DHCP_CLIENT_PORTS :: "u16 list" where
  "DHCP_CLIENT_PORTS = [68, 546]"

record compiled =
  co_tcp :: "u16 list"
  co_udp :: "u16 list"
  co_from_tcp :: "(u32 \<times> rule_key) list"
  co_from_udp :: "(u32 \<times> rule_key) list"
  co_rates :: "(u16, u32) hmap"

definition from_key :: "cidr \<Rightarrow> u16 \<Rightarrow> u32 \<times> rule_key" where
  "from_key net port = (16 + of_nat (leading_ones (ci_mask net)), bytes16 port @ bytes32 (ci_net net))"

text \<open>Two rules limiting one port: the lower rate wins; the comparison multiplies in 64 bits.\<close>

definition lower_rate :: "u16 \<Rightarrow> u16 \<Rightarrow> u32 \<Rightarrow> u32" where
  "lower_rate mx window r =
     (let m = (ucast (drop_bit 16 r) :: u64); w = (ucast (r AND 0xffff) :: u64) in
      if ucast mx * w < m * ucast window then rate_pack mx window else r)"

definition add_rate :: "u16 \<Rightarrow> (u16 \<times> u16) option \<Rightarrow> (u16, u32) hmap \<Rightarrow> (u16, u32) hmap" where
  "add_rate port rt rates =
     (case rt of
        None \<Rightarrow> rates
      | Some (mx, window) \<Rightarrow>
          (case hm_get rates port of
             Some r \<Rightarrow> hm_put port (lower_rate mx window r) rates
           | None \<Rightarrow> hm_put port (rate_pack mx window) rates))"

definition compile_port :: "bool \<Rightarrow> cidr option \<Rightarrow> (u16 \<times> u16) option \<Rightarrow> u16 \<Rightarrow> compiled \<Rightarrow> compiled" where
  "compile_port tcp_rule from rt port c =
     (let c1 = (case from of
                  None \<Rightarrow> if tcp_rule then c\<lparr>co_tcp := hs_insert port (co_tcp c)\<rparr>
                          else c\<lparr>co_udp := hs_insert port (co_udp c)\<rparr>
                | Some net \<Rightarrow>
                    if tcp_rule then c\<lparr>co_from_tcp := hs_insert (from_key net port) (co_from_tcp c)\<rparr>
                    else c\<lparr>co_from_udp := hs_insert (from_key net port) (co_from_udp c)\<rparr>)
      in c1\<lparr>co_rates := add_rate port rt (co_rates c1)\<rparr>)"

definition compile_rule :: "rule \<Rightarrow> compiled \<Rightarrow> error + compiled" where
  "compile_rule r c =
     rbind (case r_from r of Some f \<Rightarrow> rbind (cidr_parse f) (\<lambda>n. Inr (Some n)) | None \<Rightarrow> Inr None) (\<lambda>from.
     rbind (rate r) (\<lambda>rt.
     rbind (ports (r_port r)) (\<lambda>ps.
       Inr (fold (compile_port (r_proto r = ''tcp'') from rt) (port_range ps) c))))"

definition compile :: "policy \<Rightarrow> error + compiled" where
  "compile pol =
     rbind (expand (p_allow_tcp pol)) (\<lambda>tcp.
     rbind (expand (p_allow_udp pol)) (\<lambda>udp.
       rfold compile_rule (p_rules pol)
         \<lparr>co_tcp = remdups tcp, co_udp = remdups (udp @ DHCP_CLIENT_PORTS), co_from_tcp = [], co_from_udp = [],
          co_rates = []\<rparr>))"

text \<open>What the rules say, without reference to sets and keys.\<close>

definition covers :: "rule \<Rightarrow> u16 \<Rightarrow> bool" where
  "covers r p = (\<exists>a b. ports (r_port r) = Inr (a, b) \<and> a \<le> p \<and> p \<le> b)"

definition opens :: "string \<Rightarrow> rule \<Rightarrow> u16 \<Rightarrow> bool" where
  "opens proto r p = ((r_proto r = ''tcp'' \<longleftrightarrow> proto = ''tcp'') \<and> r_from r = None \<and> covers r p)"

definition opens_from :: "string \<Rightarrow> rule \<Rightarrow> u16 \<Rightarrow> cidr \<Rightarrow> bool" where
  "opens_from proto r p net =
     ((r_proto r = ''tcp'' \<longleftrightarrow> proto = ''tcp'') \<and> covers r p
      \<and> (\<exists>f. r_from r = Some f \<and> cidr_parse f = Inr net))"

lemma compile_port_parts:
  "co_tcp (compile_port True None rt p c) = hs_insert p (co_tcp c)"
  "co_tcp (compile_port False from rt p c) = co_tcp c"
  "co_tcp (compile_port t (Some net) rt p c) = co_tcp c"
  "co_udp (compile_port False None rt p c) = hs_insert p (co_udp c)"
  "co_udp (compile_port True from rt p c) = co_udp c"
  "co_udp (compile_port t (Some net) rt p c) = co_udp c"
  "co_from_tcp (compile_port True (Some net) rt p c) = hs_insert (from_key net p) (co_from_tcp c)"
  "co_from_tcp (compile_port False from rt p c) = co_from_tcp c"
  "co_from_tcp (compile_port t None rt p c) = co_from_tcp c"
  "co_from_udp (compile_port False (Some net) rt p c) = hs_insert (from_key net p) (co_from_udp c)"
  "co_from_udp (compile_port True from rt p c) = co_from_udp c"
  "co_from_udp (compile_port t None rt p c) = co_from_udp c"
  "co_rates (compile_port t from rt p c) = add_rate p rt (co_rates c)"
  by (simp_all add: compile_port_def Let_def split: option.split)

lemma fold_tcp: "set (co_tcp (fold (compile_port t from rt) ps c)) =
    set (co_tcp c) \<union> (if t \<and> from = None then set ps else {})"
  by (induction ps arbitrary: c; cases t; cases "from") (auto simp: compile_port_parts)

lemma fold_udp: "set (co_udp (fold (compile_port t from rt) ps c)) =
    set (co_udp c) \<union> (if \<not> t \<and> from = None then set ps else {})"
  by (induction ps arbitrary: c; cases t; cases "from") (auto simp: compile_port_parts)

lemma fold_from_tcp: "set (co_from_tcp (fold (compile_port t from rt) ps c)) =
    set (co_from_tcp c) \<union> (case from of Some net \<Rightarrow> if t then from_key net ` set ps else {} | None \<Rightarrow> {})"
  by (induction ps arbitrary: c; cases t; cases "from") (auto simp: compile_port_parts)

lemma fold_from_udp: "set (co_from_udp (fold (compile_port t from rt) ps c)) =
    set (co_from_udp c) \<union> (case from of Some net \<Rightarrow> if \<not> t then from_key net ` set ps else {} | None \<Rightarrow> {})"
  by (induction ps arbitrary: c; cases t; cases "from") (auto simp: compile_port_parts)

lemmas fold_parts = fold_tcp fold_udp fold_from_tcp fold_from_udp

lemma covers_range: "ports (r_port r) = Inr ps \<Longrightarrow> p \<in> set (port_range ps) \<longleftrightarrow> covers r p"
  by (cases ps) (simp add: covers_def set_port_range)

lemma compile_rule_parts:
  assumes "compile_rule r c = Inr c'"
  shows "p \<in> set (co_tcp c') \<longleftrightarrow> p \<in> set (co_tcp c) \<or> opens ''tcp'' r p"
    and "p \<in> set (co_udp c') \<longleftrightarrow> p \<in> set (co_udp c) \<or> opens ''udp'' r p"
    and "k \<in> set (co_from_tcp c') \<longleftrightarrow> k \<in> set (co_from_tcp c) \<or> (\<exists>p net. opens_from ''tcp'' r p net \<and> k = from_key net p)"
    and "k \<in> set (co_from_udp c') \<longleftrightarrow> k \<in> set (co_from_udp c) \<or> (\<exists>p net. opens_from ''udp'' r p net \<and> k = from_key net p)"
proof -
  obtain frm rt ps where f: "(case r_from r of Some f \<Rightarrow> rbind (cidr_parse f) (\<lambda>n. Inr (Some n)) | None \<Rightarrow> Inr None) = (Inr frm :: error + cidr option)"
    and ps: "ports (r_port r) = Inr ps"
    and c': "c' = fold (compile_port (r_proto r = ''tcp'') frm rt) (port_range ps) c"
    using assms by (auto simp: compile_rule_def rbind_Inr_iff)
  note rng = covers_range [OF ps]
  have im: "k \<in> from_key net ` set (port_range ps) \<longleftrightarrow> (\<exists>p. covers r p \<and> k = from_key net p)" for net
    using rng by blast
  show "p \<in> set (co_tcp c') \<longleftrightarrow> p \<in> set (co_tcp c) \<or> opens ''tcp'' r p"
    "p \<in> set (co_udp c') \<longleftrightarrow> p \<in> set (co_udp c) \<or> opens ''udp'' r p"
    using f by (cases "r_from r"; auto simp: c' fold_parts opens_def rng rbind_Inr_iff)+
  have frm: "frm = Some net \<longleftrightarrow> (\<exists>f. r_from r = Some f \<and> cidr_parse f = Inr net)" for net
    using f by (cases "r_from r") (auto simp: rbind_Inr_iff)
  have keys: "(\<exists>p net. opens_from proto r p net \<and> k = from_key net p) \<longleftrightarrow>
      (r_proto r = ''tcp'' \<longleftrightarrow> proto = ''tcp'') \<and> (\<exists>net. frm = Some net \<and> k \<in> from_key net ` set (port_range ps))" for proto
    unfolding opens_from_def im frm by blast
  show "k \<in> set (co_from_tcp c') \<longleftrightarrow> k \<in> set (co_from_tcp c) \<or> (\<exists>p net. opens_from ''tcp'' r p net \<and> k = from_key net p)"
    unfolding keys c' fold_parts by (cases frm) simp_all
  show "k \<in> set (co_from_udp c') \<longleftrightarrow> k \<in> set (co_from_udp c) \<or> (\<exists>p net. opens_from ''udp'' r p net \<and> k = from_key net p)"
    unfolding keys c' fold_parts by (cases frm) simp_all
qed

lemma compile_rules_parts:
  assumes "rfold compile_rule rs c = Inr c'"
  shows "p \<in> set (co_tcp c') \<longleftrightarrow> p \<in> set (co_tcp c) \<or> (\<exists>r \<in> set rs. opens ''tcp'' r p)"
    and "p \<in> set (co_udp c') \<longleftrightarrow> p \<in> set (co_udp c) \<or> (\<exists>r \<in> set rs. opens ''udp'' r p)"
    and "k \<in> set (co_from_tcp c') \<longleftrightarrow> k \<in> set (co_from_tcp c) \<or> (\<exists>r \<in> set rs. \<exists>p net. opens_from ''tcp'' r p net \<and> k = from_key net p)"
    and "k \<in> set (co_from_udp c') \<longleftrightarrow> k \<in> set (co_from_udp c) \<or> (\<exists>r \<in> set rs. \<exists>p net. opens_from ''udp'' r p net \<and> k = from_key net p)"
  using assms
proof (induction rs arbitrary: c)
  case (Cons r rs)
  {
    case 1
    then obtain c1 where c1: "compile_rule r c = Inr c1" "rfold compile_rule rs c1 = Inr c'" by (auto simp: rbind_Inr_iff)
    from Cons.IH(1) [OF c1(2)] compile_rule_parts(1) [OF c1(1), of p] show ?case by auto
  next
    case 2
    then obtain c1 where c1: "compile_rule r c = Inr c1" "rfold compile_rule rs c1 = Inr c'" by (auto simp: rbind_Inr_iff)
    from Cons.IH(2) [OF c1(2)] compile_rule_parts(2) [OF c1(1), of p] show ?case by auto
  next
    case 3
    then obtain c1 where c1: "compile_rule r c = Inr c1" "rfold compile_rule rs c1 = Inr c'" by (auto simp: rbind_Inr_iff)
    from Cons.IH(3) [OF c1(2)] compile_rule_parts(3) [OF c1(1), of k] show ?case by auto
  next
    case 4
    then obtain c1 where c1: "compile_rule r c = Inr c1" "rfold compile_rule rs c1 = Inr c'" by (auto simp: rbind_Inr_iff)
    from Cons.IH(4) [OF c1(2)] compile_rule_parts(4) [OF c1(1), of k] show ?case by auto
  }
qed simp_all

lemma compile_ports:
  assumes "compile pol = Inr k"
  shows "p \<in> set (co_tcp k) \<longleftrightarrow>
      (\<exists>s \<in> set (p_allow_tcp pol). \<exists>a b. ports s = Inr (a, b) \<and> a \<le> p \<and> p \<le> b)
      \<or> (\<exists>r \<in> set (p_rules pol). opens ''tcp'' r p)"
    and "p \<in> set (co_udp k) \<longleftrightarrow>
      (\<exists>s \<in> set (p_allow_udp pol). \<exists>a b. ports s = Inr (a, b) \<and> a \<le> p \<and> p \<le> b)
      \<or> (\<exists>r \<in> set (p_rules pol). opens ''udp'' r p) \<or> p = 68 \<or> p = 546"
proof -
  obtain tcp udp where e: "expand (p_allow_tcp pol) = Inr tcp" "expand (p_allow_udp pol) = Inr udp"
    and r: "rfold compile_rule (p_rules pol)
         \<lparr>co_tcp = remdups tcp, co_udp = remdups (udp @ DHCP_CLIENT_PORTS), co_from_tcp = [], co_from_udp = [],
          co_rates = []\<rparr> = Inr k"
    using assms by (auto simp: compile_def rbind_Inr_iff)
  show "p \<in> set (co_tcp k) \<longleftrightarrow>
      (\<exists>s \<in> set (p_allow_tcp pol). \<exists>a b. ports s = Inr (a, b) \<and> a \<le> p \<and> p \<le> b)
      \<or> (\<exists>r \<in> set (p_rules pol). opens ''tcp'' r p)"
    "p \<in> set (co_udp k) \<longleftrightarrow>
      (\<exists>s \<in> set (p_allow_udp pol). \<exists>a b. ports s = Inr (a, b) \<and> a \<le> p \<and> p \<le> b)
      \<or> (\<exists>r \<in> set (p_rules pol). opens ''udp'' r p) \<or> p = 68 \<or> p = 546"
    using compile_rules_parts(1,2) [OF r, of p] expand_mem [OF e(1), of p] expand_mem [OF e(2), of p]
    by (auto simp: DHCP_CLIENT_PORTS_def)
qed

text \<open>The ports open to everyone are exactly those of the policy's lists and of its rules without \<open>from\<close>,
  and for UDP the two DHCP client ports besides.\<close>

theorem compile_open_ports:
  assumes "compile pol = Inr k"
  shows "(p \<in> set (co_tcp k) \<longleftrightarrow>
      (\<exists>s \<in> set (p_allow_tcp pol). \<exists>a b. ports s = Inr (a, b) \<and> a \<le> p \<and> p \<le> b)
      \<or> (\<exists>r \<in> set (p_rules pol). opens ''tcp'' r p))
    \<and> (p \<in> set (co_udp k) \<longleftrightarrow>
      (\<exists>s \<in> set (p_allow_udp pol). \<exists>a b. ports s = Inr (a, b) \<and> a \<le> p \<and> p \<le> b)
      \<or> (\<exists>r \<in> set (p_rules pol). opens ''udp'' r p) \<or> p = 68 \<or> p = 546)"
  using compile_ports [OF assms, of p] by blast


section \<open>A rule key matches its network\<close>

lemma key_bits_append: "key_bits (xs @ ys) = key_bits xs @ key_bits ys"
  by (simp add: key_bits_def)

lemma bit_positions:
  "rev [0..<32] = [31, 30, 29, 28, 27, 26, 25, 24, 23, 22, 21, 20, 19, 18, 17, 16, 15, 14, 13, 12, 11, 10, 9, 8, 7, 6, 5, 4, 3, 2, 1, 0]"
  "rev [0..<16] = [15, 14, 13, 12, 11, 10, 9, 8, 7, 6, 5, 4, 3, 2, 1, 0]"
  by code_simp+

lemma bytes32_bits: "key_bits (bytes32 w) = map (bit w) (rev [0..<32])"
  unfolding bit_positions by (simp add: key_bits_def bytes32_def byte_bits_def bit_simps)

lemma bytes16_bits: "key_bits (bytes16 w) = map (bit w) (rev [0..<16])"
  unfolding bit_positions by (simp add: key_bits_def bytes16_def byte_bits_def bit_simps)

lemma bytes16_key_inj: "key_bits (bytes16 p) = key_bits (bytes16 q) \<longleftrightarrow> p = q"
proof
  assume "key_bits (bytes16 p) = key_bits (bytes16 q)"
  then have "\<forall>i<16. bit p i = bit q i" by (auto simp: bytes16_bits)
  then show "p = q" by (auto intro: bit_word_eqI)
qed simp

lemma take_bits32: "n \<le> 32 \<Longrightarrow> take n (map (bit (w::u32)) (rev [0..<32])) = map (bit w) (rev [32 - n..<32])"
  by (simp add: take_map rev_drop [symmetric] take_rev)

lemma top_bits_take:
  assumes "n \<le> 32"
  shows "take n (key_bits (bytes32 x)) = take n (key_bits (bytes32 y)) \<longleftrightarrow> drop_bit (32 - n) x = drop_bit (32 - n) y"
proof -
  have "take n (key_bits (bytes32 x)) = take n (key_bits (bytes32 y)) \<longleftrightarrow> (\<forall>i. 32 - n \<le> i \<and> i < 32 \<longrightarrow> bit x i = bit y i)"
    using assms by (auto simp: bytes32_bits take_bits32)
  then show ?thesis by (simp add: top_bits_eq)
qed

lemma from_key_matches:
  assumes "cidr_wf n net"
  shows "(case from_key net q of (l, d) \<Rightarrow>
      l \<le> 48 \<and> take (unat l) (key_bits d) = take (unat l) (key_bits (bytes16 p @ bytes32 ip)))
    \<longleftrightarrow> p = q \<and> cidr_contains net ip"
proof -
  have n: "n \<le> 32" using assms by (simp add: cidr_wf_def)
  have u: "unat (16 + of_nat n :: u32) = 16 + n"
    using n by (simp add: unat_word_ariths unat_of_nat)
  have le: "(16 + of_nat n :: u32) \<le> 48" using n by (simp add: word_le_nat_alt u)
  have len: "length (key_bits (bytes16 x)) = 16" for x by (simp add: bytes16_bits)
  have "take (16 + n) (key_bits (bytes16 q @ bytes32 (ci_net net))) = take (16 + n) (key_bits (bytes16 p @ bytes32 ip))
      \<longleftrightarrow> key_bits (bytes16 q) = key_bits (bytes16 p) \<and> take n (key_bits (bytes32 (ci_net net))) = take n (key_bits (bytes32 ip))"
    by (simp add: key_bits_append len)
  also have "\<dots> \<longleftrightarrow> p = q \<and> cidr_contains net ip"
    using n by (auto simp: bytes16_key_inj top_bits_take contains_iff [OF assms])
  finally show ?thesis
    by (simp add: from_key_def leading_ones_mask [OF assms] u le)
qed

lemma lpm_from_keys:
  assumes "\<forall>k. k \<in> t \<longleftrightarrow> (\<exists>r \<in> set rs. \<exists>p net. opens_from proto r p net \<and> k = from_key net p)"
  shows "lpm_match t 48 (bytes16 p @ bytes32 ip) \<longleftrightarrow>
    (\<exists>r \<in> set rs. \<exists>net. opens_from proto r p net \<and> cidr_contains net ip)"
proof -
  define P where "P = (\<lambda>k. case k of (l, d) \<Rightarrow>
      l \<le> (48::u32) \<and> take (unat l) (key_bits d) = take (unat l) (key_bits (bytes16 p @ bytes32 ip)))"
  have m: "P (from_key net q) \<longleftrightarrow> p = q \<and> cidr_contains net ip" if "opens_from proto r q net" for r q net
  proof -
    obtain n where "cidr_wf n net" using \<open>opens_from proto r q net\<close> cidr_parse_wf by (auto simp: opens_from_def)
    then show ?thesis unfolding P_def by (rule from_key_matches)
  qed
  have "lpm_match t 48 (bytes16 p @ bytes32 ip) \<longleftrightarrow> (\<exists>k. k \<in> t \<and> P k)"
    by (simp add: lpm_match_def Bex_def P_def)
  also have "\<dots> \<longleftrightarrow> (\<exists>r \<in> set rs. \<exists>q net. opens_from proto r q net \<and> P (from_key net q))"
    unfolding assms [rule_format] by blast
  finally show ?thesis using m by blast
qed

lemma compiled_from:
  assumes "compile pol = Inr k"
  shows "lpm_match (set (co_from_tcp k)) 48 (bytes16 p @ bytes32 ip) \<longleftrightarrow>
      (\<exists>r \<in> set (p_rules pol). \<exists>net. opens_from ''tcp'' r p net \<and> cidr_contains net ip)"
    "lpm_match (set (co_from_udp k)) 48 (bytes16 p @ bytes32 ip) \<longleftrightarrow>
      (\<exists>r \<in> set (p_rules pol). \<exists>net. opens_from ''udp'' r p net \<and> cidr_contains net ip)"
proof -
  obtain c where c: "rfold compile_rule (p_rules pol) c = Inr k" "co_from_tcp c = []" "co_from_udp c = []"
    using assms by (auto simp: compile_def rbind_Inr_iff)
  show "lpm_match (set (co_from_tcp k)) 48 (bytes16 p @ bytes32 ip) \<longleftrightarrow>
      (\<exists>r \<in> set (p_rules pol). \<exists>net. opens_from ''tcp'' r p net \<and> cidr_contains net ip)"
    by (rule lpm_from_keys) (use compile_rules_parts(3) [OF c(1)] c(2) in auto)
  show "lpm_match (set (co_from_udp k)) 48 (bytes16 p @ bytes32 ip) \<longleftrightarrow>
      (\<exists>r \<in> set (p_rules pol). \<exists>net. opens_from ''udp'' r p net \<and> cidr_contains net ip)"
    by (rule lpm_from_keys) (use compile_rules_parts(4) [OF c(1)] c(3) in auto)
qed

text \<open>The kernel's longest-prefix lookup means what the rules say. In the trie compiled from a policy, a
  source matches at a TCP port, or a UDP port, if and only if some rule opens that port to a network that contains it.\<close>

theorem from_rules_exact:
  assumes "compile pol = Inr k"
  shows "(lpm_match (set (co_from_tcp k)) 48 (bytes16 p @ bytes32 ip) \<longleftrightarrow>
      (\<exists>r \<in> set (p_rules pol). \<exists>net. opens_from ''tcp'' r p net \<and> cidr_contains net ip))
    \<and> (lpm_match (set (co_from_udp k)) 48 (bytes16 p @ bytes32 ip) \<longleftrightarrow>
      (\<exists>r \<in> set (p_rules pol). \<exists>net. opens_from ''udp'' r p net \<and> cidr_contains net ip))"
  using compiled_from [OF assms] by blast

section \<open>The lower rate wins\<close>

definition limits :: "rule list \<Rightarrow> u16 \<Rightarrow> (u16 \<times> u16) set" where
  "limits rs p = {mw. \<exists>r \<in> set rs. covers r p \<and> rate r = Inr (Some mw)}"

definition strictest :: "(u16 \<times> u16) set \<Rightarrow> u32 option \<Rightarrow> bool" where
  "strictest S x =
     (case x of
        None \<Rightarrow> S = {}
      | Some r \<Rightarrow> \<exists>(m, w) \<in> S. r = rate_pack m w \<and> (\<forall>(a, b) \<in> S. unat m * unat b \<le> unat a * unat w))"

lemma unat_mult_16: "unat (ucast (a::u16) * ucast (b::u16) :: u64) = unat a * unat b"
proof -
  have "unat a * unat b \<le> 65535 * 65535"
    by (rule mult_le_mono) (use unat_lt2p16 [of a] unat_lt2p16 [of b] in simp_all)
  then have "unat a * unat b < 2 ^ LENGTH(64)" by simp
  moreover have "unat (ucast x :: u64) = unat x" for x :: u16
    using unat_lt2p16 [of x] by (simp add: unsigned_ucast_eq take_bit_nat_eq_self_iff)
  ultimately show ?thesis by (simp add: unat_mult_no_wrap)
qed

lemma lower_rate_pack:
  "lower_rate m w (rate_pack a b) = (if unat m * unat b < unat a * unat w then rate_pack m w else rate_pack a b)"
proof -
  have "(ucast (ucast x :: u32) :: u64) = ucast x" for x :: u16
    by (rule bit_word_eqI) (auto simp: bit_simps dest: bit_imp_le_length)
  then show ?thesis
    by (simp add: lower_rate_def Let_def rate_pack_max rate_pack_window word_less_nat_alt unat_mult_16)
qed

lemma add_rate_strictest:
  assumes "strictest S (hm_get rates p)" "w \<noteq> 0" "\<forall>(a, b) \<in> S. b \<noteq> 0"
  shows "strictest (insert (m, w) S) (hm_get (add_rate p (Some (m, w)) rates) p)"
proof (cases "hm_get rates p")
  case None
  then show ?thesis using assms(1) by (simp add: strictest_def add_rate_def hm_get_put)
next
  case (Some r)
  then obtain a b where ab: "(a, b) \<in> S" "r = rate_pack a b" "\<forall>(x, y) \<in> S. unat a * unat y \<le> unat x * unat b"
    using assms(1) by (auto simp: strictest_def)
  have b: "0 < unat b" using assms(3) ab(1) by (auto simp: unat_gt_0)
  have get: "hm_get (add_rate p (Some (m, w)) rates) p = Some (lower_rate m w (rate_pack a b))"
    by (simp add: add_rate_def Some ab(2) hm_get_put)
  show ?thesis
  proof (cases "unat m * unat b < unat a * unat w")
    case True
    have "unat m * unat y \<le> unat x * unat w" if "(x, y) \<in> S" for x y
    proof -
      have "unat a * unat y \<le> unat x * unat b" using ab(3) that by auto
      then have two: "unat w * (unat a * unat y) \<le> unat w * (unat x * unat b)" by (rule mult_le_mono2)
      have "unat b * (unat m * unat y) = unat y * (unat m * unat b)" by (simp only: ac_simps)
      also have "\<dots> \<le> unat y * (unat a * unat w)" by (rule mult_le_mono2) (use True in simp)
      also have "\<dots> = unat w * (unat a * unat y)" by (simp only: ac_simps)
      also note two
      also have "unat w * (unat x * unat b) = unat b * (unat x * unat w)" by (simp only: ac_simps)
      finally have "unat b * (unat m * unat y) \<le> unat b * (unat x * unat w)" .
      then show ?thesis using b by simp
    qed
    then show ?thesis unfolding get by (auto simp: strictest_def lower_rate_pack True)
  next
    case False
    then have le: "unat a * unat w \<le> unat m * unat b" by simp
    have "lower_rate m w (rate_pack a b) = rate_pack a b" using False by (simp add: lower_rate_pack)
    with ab le show ?thesis unfolding get strictest_def by auto
  qed
qed

lemma add_rate_other: "q \<noteq> p \<Longrightarrow> hm_get (add_rate p rt rates) q = hm_get rates q"
  by (simp add: add_rate_def hm_get_put split: option.split)

lemma fold_rates: "co_rates (fold (compile_port t from rt) ps c) = fold (\<lambda>p. add_rate p rt) ps (co_rates c)"
  by (induction ps arbitrary: c) (simp_all add: compile_port_parts)

lemma fold_add_rate_strictest:
  assumes "\<forall>p. strictest (S p) (hm_get rates p)" "w \<noteq> 0" "\<forall>p. \<forall>(a, b) \<in> S p. b \<noteq> 0"
  shows "strictest (if p \<in> set ps then insert (m, w) (S p) else S p) (hm_get (fold (\<lambda>p. add_rate p (Some (m, w))) ps rates) p)"
  using assms
proof (induction ps arbitrary: rates S)
  case (Cons q ps)
  define S1 where "S1 = S(q := insert (m, w) (S q))"
  have "\<forall>p. strictest (S1 p) (hm_get (add_rate q (Some (m, w)) rates) p)"
    using Cons.prems add_rate_strictest add_rate_other by (simp add: S1_def)
  moreover have "\<forall>p. \<forall>(a, b) \<in> S1 p. b \<noteq> 0" using Cons.prems by (auto simp: S1_def)
  ultimately have "strictest (if p \<in> set ps then insert (m, w) (S1 p) else S1 p)
      (hm_get (fold (\<lambda>p. add_rate p (Some (m, w))) ps (add_rate q (Some (m, w)) rates)) p)"
    using Cons.IH Cons.prems(2) by blast
  moreover have "(if p \<in> set ps then insert (m, w) (S1 p) else S1 p) = (if p \<in> set (q # ps) then insert (m, w) (S p) else S p)"
    by (auto simp: S1_def)
  ultimately show ?case by simp
qed simp

lemma limits_Cons: "limits (r # rs) p = (if covers r p then {mw. rate r = Inr (Some mw)} else {}) \<union> limits rs p"
  by (auto simp: limits_def)

lemma limits_windows: "\<forall>(a, b) \<in> limits rs p. b \<noteq> 0"
  using rate_Some by (fastforce simp: limits_def)

lemma compile_rule_rates:
  assumes "compile_rule r c = Inr c'" "\<forall>p. strictest (limits seen p) (hm_get (co_rates c) p)"
  shows "\<forall>p. strictest (limits (r # seen) p) (hm_get (co_rates c') p)"
proof
  fix p
  obtain frm rt ps where rt: "rate r = Inr rt" and ps: "ports (r_port r) = Inr ps"
    and c': "c' = fold (compile_port (r_proto r = ''tcp'') frm rt) (port_range ps) c"
    using assms(1) by (auto simp: compile_rule_def rbind_Inr_iff)
  show "strictest (limits (r # seen) p) (hm_get (co_rates c') p)"
  proof (cases rt)
    case None
    then have "fold (\<lambda>p. add_rate p rt) xs m = m" for xs m by (induction xs arbitrary: m) (simp_all add: add_rate_def)
    then show ?thesis using assms(2) None rt by (simp add: c' fold_rates limits_Cons)
  next
    case (Some mw)
    obtain m w where mw: "mw = (m, w)" by (cases mw)
    have "w \<noteq> 0" using rate_Some [of r m w] rt Some mw by simp
    from fold_add_rate_strictest [OF assms(2) this, of p "port_range ps" m] limits_windows
    have "strictest (if p \<in> set (port_range ps) then insert (m, w) (limits seen p) else limits seen p) (hm_get (co_rates c') p)"
      by (simp add: c' fold_rates Some mw)
    moreover have "limits (r # seen) p = (if p \<in> set (port_range ps) then insert (m, w) (limits seen p) else limits seen p)"
      using rt Some mw by (auto simp: limits_Cons covers_range [OF ps])
    ultimately show ?thesis by simp
  qed
qed

lemma compile_rules_rates:
  "rfold compile_rule rs c = Inr c' \<Longrightarrow> \<forall>p. strictest (limits seen p) (hm_get (co_rates c) p) \<Longrightarrow>
    \<forall>p. strictest (limits (rev rs @ seen) p) (hm_get (co_rates c') p)"
proof (induction rs arbitrary: c seen)
  case (Cons r rs)
  then obtain c1 where c1: "compile_rule r c = Inr c1" "rfold compile_rule rs c1 = Inr c'" by (auto simp: rbind_Inr_iff)
  from Cons.IH [OF c1(2) compile_rule_rates [OF c1(1) Cons.prems(2)]] show ?case by simp
qed simp

text \<open>C22: when rules limit one port, the kernel gets the strictest of them: a compiled limit is one of the limits
  the rules give for that port, its count per second is at most that of every other, and a port has one
  exactly when some rule limits it.\<close>

theorem strictest_rate_wins:
  assumes "compile pol = Inr k"
  shows "strictest (limits (p_rules pol) p) (hm_get (co_rates k) p)"
proof -
  obtain c where c: "rfold compile_rule (p_rules pol) c = Inr k" "co_rates c = []"
    using assms by (auto simp: compile_def rbind_Inr_iff)
  have "\<forall>p. strictest (limits [] p) (hm_get (co_rates c) p)" by (simp add: c(2) strictest_def limits_def)
  from compile_rules_rates [OF c(1) this] have "strictest (limits (rev (p_rules pol)) p) (hm_get (co_rates k) p)" by simp
  then show ?thesis by (simp add: limits_def)
qed


section \<open>Validated policies compile\<close>

lemma compile_rule_ok: "rule_ok r \<Longrightarrow> \<exists>c'. compile_rule r c = Inr c'"
  by (cases "r_from r") (auto simp: rule_ok_def compile_rule_def rbind_def)

lemma compile_rules_ok: "list_all rule_ok rs \<Longrightarrow> \<exists>c'. rfold compile_rule rs c = Inr c'"
proof (induction rs arbitrary: c)
  case (Cons r rs)
  then obtain c1 where "compile_rule r c = Inr c1" using compile_rule_ok by force
  with Cons show ?case by simp
qed simp

lemma compile_ok: "policy_ok (p_allow_tcp pol) (p_allow_udp pol) (p_rules pol) \<Longrightarrow> \<exists>k. compile pol = Inr k"
  using compile_rules_ok by (auto simp: policy_ok_def compile_def)

text \<open>A policy to evaluate the properties on: web open to all, SSH to a LAN and at most 6 times in 30 seconds.\<close>

definition lan :: string where
  "lan = show_ipv4 0xC0A80100 @ ''/'' @ show_nat 24"

definition ssh_rule :: rule where
  "ssh_rule = \<lparr>r_proto = ''tcp'', r_port = One 22, r_from = Some lan, r_limit = Some ''6/30s''\<rparr>"

definition demo_policy :: policy where
  "demo_policy = \<lparr>p_profile = None, p_allow_tcp = [One 80], p_allow_udp = [], p_allow_ping = True, p_rules = [ssh_rule]\<rparr>"

lemma lan_net:
  "\<exists>c. cidr_parse lan = Inr c \<and> (\<forall>ip. cidr_contains c ip \<longleftrightarrow> drop_bit 8 ip = drop_bit 8 0xC0A80100)"
proof -
  have "24 \<le> (32::nat)" by simp
  from cidr_parse_show [OF this, of "0xC0A80100"] show ?thesis unfolding lan_def by auto
qed

lemma ssh_rate: "rate ssh_rule = Inr (Some (6, 30))"
  by (simp add: rate_def ssh_rule_def text_eval)

lemma demo_compiles: "\<exists>k. compile demo_policy = Inr k"
proof (rule compile_ok)
  obtain c where "cidr_parse lan = Inr c" using lan_net by blast
  then have "rule_ok ssh_rule" using ssh_rate by (simp add: rule_ok_def) (simp add: ssh_rule_def)
  then show "policy_ok (p_allow_tcp demo_policy) (p_allow_udp demo_policy) (p_rules demo_policy)"
    by (simp add: demo_policy_def policy_ok_def expand_def)
qed

lemma compile_open_ports_witness: "\<exists>k. compile demo_policy = Inr k \<and> 80 \<in> set (co_tcp k) \<and> 22 \<notin> set (co_tcp k) \<and> 68 \<in> set (co_udp k)"
proof -
  obtain k where k: "compile demo_policy = Inr k" using demo_compiles by blast
  show ?thesis
    using k compile_open_ports [OF k, of 80] compile_open_ports [OF k, of 22] compile_open_ports [OF k, of 68]
    by (auto simp: demo_policy_def opens_def ssh_rule_def)
qed

lemma from_rules_exact_witness:
  "\<exists>k. compile demo_policy = Inr k \<and> lpm_match (set (co_from_tcp k)) 48 (bytes16 22 @ bytes32 0xC0A8014D)
     \<and> \<not> lpm_match (set (co_from_tcp k)) 48 (bytes16 22 @ bytes32 0xC0A8024D)"
proof -
  obtain k where k: "compile demo_policy = Inr k" using demo_compiles by blast
  obtain c where c: "cidr_parse lan = Inr c" "\<forall>ip. cidr_contains c ip \<longleftrightarrow> drop_bit 8 ip = drop_bit 8 0xC0A80100"
    using lan_net by blast
  have "covers ssh_rule 22" by (simp add: covers_def ssh_rule_def)
  then have "opens_from ''tcp'' ssh_rule 22 net \<longleftrightarrow> net = c" for net
    using c(1) by (auto simp: opens_from_def ssh_rule_def)
  then show ?thesis
    using k from_rules_exact [OF k, of 22 "0xC0A8014D"] from_rules_exact [OF k, of 22 "0xC0A8024D"]
    by (simp add: demo_policy_def c(2))
qed

lemma strictest_rate_wins_witness: "\<exists>k. compile demo_policy = Inr k \<and> hm_get (co_rates k) 22 = Some (rate_pack 6 30)"
proof -
  obtain k where k: "compile demo_policy = Inr k" using demo_compiles by blast
  have "covers ssh_rule 22" by (simp add: covers_def ssh_rule_def)
  then have "limits (p_rules demo_policy) 22 = {(6, 30)}"
    using ssh_rate by (auto simp: limits_def demo_policy_def)
  then show ?thesis
    using k strictest_rate_wins [OF k, of 22] by (auto simp: strictest_def split: option.splits)
qed

text \<open>A config that validation accepts can always be put into force: its policy compiles for every network
  profile, so neither a start nor a profile switch fails on the rules.\<close>

theorem validated_compiles:
  assumes "validate c = Inr ()"
  shows "\<exists>k. compile (policy_of c prof) = Inr k"
  by (rule compile_ok) (rule policy_of_ok [OF assms])

lemma validated_compiles_witness: "\<exists>k. compile (policy_of shipped_config None) = Inr k"
  by (rule validated_compiles [OF rules_default])

section \<open>A failed update\<close>

text \<open>When a trie fills up in the middle of an update, the entries already written are not remembered: the next
  update, even to no rules at all, leaves them in the kernel. Here 4097 rule entries are wanted; the first stays
  open after all rules are withdrawn.\<close>

theorem sync_trie_leaks:
  assumes "distinct ks" "length ks = 4097"
  shows "\<exists>t have. sync_trie {} [] ks = (t, have, False) \<and> (\<exists>t' have'. sync_trie t have [] = (t', have', True) \<and> hd ks \<in> t')"
proof -
  have ins: "distinct (xs @ ys) \<Longrightarrow> length xs + length ys \<le> FROM_ENTRIES \<Longrightarrow>
      run_all (trie_insert FROM_ENTRIES) (ys @ zs) (set xs) = run_all (trie_insert FROM_ENTRIES) zs (set (xs @ ys))" for xs ys zs
  proof (induction ys arbitrary: xs)
    case (Cons y ys)
    have "card (set xs) < FROM_ENTRIES" using Cons.prems by (simp add: distinct_card)
    then have "trie_insert FROM_ENTRIES y (set xs) = Some (set (xs @ [y]))" by (simp add: trie_insert_def)
    with Cons.IH [of "xs @ [y]"] Cons.prems show ?case by simp
  qed simp
  obtain ys z where ks: "ks = ys @ [z]" using assms(2) by (cases ks rule: rev_cases) auto
  have len: "length ys = 4096" using assms(2) ks by simp
  have full: "trie_insert FROM_ENTRIES z (set ys) = None"
    using assms(1) ks len by (simp add: trie_insert_def distinct_card FROM_ENTRIES_def)
  have "run_all (trie_insert FROM_ENTRIES) (ys @ [z]) {} = (set ys, False)"
    using ins [of "[]" ys "[z]"] assms(1) ks len full by (simp add: FROM_ENTRIES_def)
  then have one: "sync_trie {} [] ks = (set ys, [], False)"
    by (simp add: sync_trie_def hs_diff_def ks)
  have two: "sync_trie (set ys) [] [] = (set ys, [], True)"
    by (simp add: sync_trie_def hs_diff_def)
  have "hd ks \<in> set ys" using len ks by (cases ys) auto
  with one two show ?thesis by blast
qed

lemma sync_trie_leaks_witness:
  "let ks = map (\<lambda>n. from_key (cidr_single 1) (of_nat n)) [1..<4098] in
   \<exists>t have. sync_trie {} [] ks = (t, have, False) \<and> (\<exists>t' have'. sync_trie t have [] = (t', have', True) \<and> hd ks \<in> t')"
  unfolding Let_def
proof (rule sync_trie_leaks)
  have "inj_on (\<lambda>n. from_key (cidr_single 1) (of_nat n)) {1..<4098}"
  proof (rule inj_onI)
    fix m n :: nat
    assume b: "m \<in> {1..<4098}" "n \<in> {1..<4098}" and e: "from_key (cidr_single 1) (of_nat m) = from_key (cidr_single 1) (of_nat n)"
    from e have "bytes16 (of_nat m) = bytes16 (of_nat n)" by (simp add: from_key_def bytes16_def)
    then have "(of_nat m :: u16) = of_nat n" using bytes16_key_inj by metis
    then have "unat (of_nat m :: u16) = unat (of_nat n :: u16)" by simp
    then show "m = n" using b by (simp add: unat_of_nat)
  qed
  then show "distinct (map (\<lambda>n. from_key (cidr_single 1) (of_nat n)) [1..<4098])" by (simp add: distinct_map)
qed simp

end
