(* ===== verification/State.thy ===== *)
theory State
  imports Detector Host Rules
begin

text \<open>
  Ban records, the two pinned kernel ban maps and what survives a reboot (src/ai-firewall/src/state.rs).
  Seen from user space a kernel hash map is an association list in its iteration order; an insertion into a full map and the removal
  of an absent key fail. The JSON codec is a parameter. A handler reads each clock once.
\<close>

section \<open>Kernel hash maps from user space\<close>

definition hash_insert :: "nat \<Rightarrow> 'k \<Rightarrow> 'v \<Rightarrow> ('k, 'v) hmap \<Rightarrow> ('k, 'v) hmap option" where
  "hash_insert max_entries k v m = (if hm_has m k \<or> length m < max_entries then Some (hm_put k v m) else None)"

definition hash_remove :: "'k \<Rightarrow> ('k, 'v) hmap \<Rightarrow> ('k, 'v) hmap option" where
  "hash_remove k m = (if hm_has m k then Some (hm_del k m) else None)"

definition BLOCKLIST_ENTRIES :: nat where "BLOCKLIST_ENTRIES = 65536"
definition BLOCKLIST6_ENTRIES :: nat where "BLOCKLIST6_ENTRIES = 16384"

section \<open>The blocklist\<close>

record blocklist =
  bl_v4 :: "(u32, u64) hmap"
  bl_v6 :: "(u64, u64) hmap option"

fun bl_insert :: "src \<Rightarrow> u64 \<Rightarrow> blocklist \<Rightarrow> blocklist option" where
  "bl_insert (V4 ip) expiry b =
     map_option (\<lambda>m. b\<lparr>bl_v4 := m\<rparr>) (hash_insert BLOCKLIST_ENTRIES ip expiry (bl_v4 b))"
| "bl_insert (V6 p) expiry b = do {
     m \<leftarrow> bl_v6 b;
     m' \<leftarrow> hash_insert BLOCKLIST6_ENTRIES p expiry m;
     Some (b\<lparr>bl_v6 := Some m'\<rparr>)
   }"

fun bl_remove :: "src \<Rightarrow> blocklist \<Rightarrow> blocklist option" where
  "bl_remove (V4 ip) b = map_option (\<lambda>m. b\<lparr>bl_v4 := m\<rparr>) (hash_remove ip (bl_v4 b))"
| "bl_remove (V6 p) b = do {
     m \<leftarrow> bl_v6 b;
     m' \<leftarrow> hash_remove p m;
     Some (b\<lparr>bl_v6 := Some m'\<rparr>)
   }"

fun bl_contains :: "src \<Rightarrow> blocklist \<Rightarrow> bool" where
  "bl_contains (V4 ip) b = (hm_get (bl_v4 b) ip \<noteq> None)"
| "bl_contains (V6 p) b = (case bl_v6 b of Some m \<Rightarrow> hm_get m p \<noteq> None | None \<Rightarrow> False)"

definition bl_entries :: "blocklist \<Rightarrow> (src \<times> u64) list" where
  "bl_entries b =
     map (\<lambda>(ip, e). (V4 ip, e)) (bl_v4 b)
     @ (case bl_v6 b of Some m \<Rightarrow> map (\<lambda>(p, e). (V6 p, e)) m | None \<Rightarrow> [])"

text \<open>What the maps say about a source.\<close>

fun bl_get :: "blocklist \<Rightarrow> src \<Rightarrow> u64 option" where
  "bl_get b (V4 ip) = hm_get (bl_v4 b) ip"
| "bl_get b (V6 p) = Option.bind (bl_v6 b) (\<lambda>m. hm_get m p)"

definition bl_ok :: "blocklist \<Rightarrow> bool" where
  "bl_ok b = (hm_ok (bl_v4 b) \<and> length (bl_v4 b) \<le> BLOCKLIST_ENTRIES
     \<and> (\<forall>m. bl_v6 b = Some m \<longrightarrow> hm_ok m \<and> length m \<le> BLOCKLIST6_ENTRIES))"

lemma hash_insert_get: "hash_insert n k v m = Some m' \<Longrightarrow> hm_get m' x = (if x = k then Some v else hm_get m x)"
  by (auto simp: hash_insert_def hm_get_put split: if_splits)

lemma hash_remove_get: "hash_remove k m = Some m' \<Longrightarrow> hm_get m' x = (if x = k then None else hm_get m x)"
  by (auto simp: hash_remove_def hm_get_del split: if_splits)

lemma hash_insert_ok: "hash_insert n k v m = Some m' \<Longrightarrow> hm_ok m \<Longrightarrow> length m \<le> n \<Longrightarrow> hm_ok m' \<and> length m' \<le> n"
  by (auto simp: hash_insert_def hm_ok_put hm_length_put split: if_splits)

lemma hash_remove_ok: "hash_remove k m = Some m' \<Longrightarrow> hm_ok m \<Longrightarrow> length m \<le> n \<Longrightarrow> hm_ok m' \<and> length m' \<le> n"
  using hm_length_del [of k m] by (auto simp: hash_remove_def hm_ok_del split: if_splits)

lemma bl_get_insert: "bl_insert s e b = Some b' \<Longrightarrow> bl_get b' x = (if x = s then Some e else bl_get b x)"
  by (cases s; cases x) (auto simp: bind_eq_Some_conv hash_insert_get)

lemma bl_get_remove: "bl_remove s b = Some b' \<Longrightarrow> bl_get b' x = (if x = s then None else bl_get b x)"
  by (cases s; cases x) (auto simp: bind_eq_Some_conv hash_remove_get)

lemma bl_remove_None: "bl_remove s b = None \<longleftrightarrow> bl_get b s = None"
  by (cases s) (auto simp: hash_remove_def hm_has_def bind_eq_None_conv split: if_splits option.splits)

lemma bl_contains_get: "bl_contains s b \<longleftrightarrow> bl_get b s \<noteq> None"
  by (cases s) (auto split: option.splits)

lemma bl_insert_ok: "bl_insert s e b = Some b' \<Longrightarrow> bl_ok b \<Longrightarrow> bl_ok b'"
  by (cases s) (auto simp: bl_ok_def bind_eq_Some_conv dest!: hash_insert_ok)

lemma bl_remove_ok: "bl_remove s b = Some b' \<Longrightarrow> bl_ok b \<Longrightarrow> bl_ok b'"
  by (cases s) (auto simp: bl_ok_def bind_eq_Some_conv dest!: hash_remove_ok)

lemma map_of_V4: "map_of (map (\<lambda>(ip, e). (V4 ip, e)) m) (V4 x) = map_of m x"
  "map_of (map (\<lambda>(ip, e). (V4 ip, e)) m) (V6 y) = None"
  by (induction m) auto

lemma map_of_V6: "map_of (map (\<lambda>(p, e). (V6 p, e)) m) (V6 x) = map_of m x"
  "map_of (map (\<lambda>(p, e). (V6 p, e)) m) (V4 y) = None"
  by (induction m) auto

lemma entries_get: "map_of (bl_entries b) x = bl_get b x"
  by (cases x) (auto simp: bl_entries_def map_add_def map_of_V4 map_of_V6 split: option.splits)

lemma entries_distinct: "bl_ok b \<Longrightarrow> hm_ok (bl_entries b)"
proof -
  assume b: "bl_ok b"
  have v4: "map fst (map (\<lambda>(ip, e). (V4 ip, e)) m) = map V4 (map fst m)" for m :: "(u32 \<times> u64) list"
    by (induction m) auto
  have v6: "map fst (map (\<lambda>(p, e). (V6 p, e)) m) = map V6 (map fst m)" for m :: "(u64 \<times> u64) list"
    by (induction m) auto
  have inj: "inj_on V4 A" "inj_on V6 B" for A B by (simp_all add: inj_on_def)
  show ?thesis
    using b by (cases "bl_v6 b") (auto simp: bl_entries_def bl_ok_def v4 v6 distinct_map inj simp del: map_map)
qed

section \<open>Expiry\<close>

definition expiry_for :: "u64 \<Rightarrow> u64 \<Rightarrow> u64" where
  "expiry_for now secs = (if secs = 0 then BAN_FOREVER else now + secs * 1000000000)"

definition remaining :: "u64 \<Rightarrow> u64 \<Rightarrow> u64 option" where
  "remaining now expiry =
     (if expiry = BAN_FOREVER then Some 0
      else if expiry > now then
        (let q = (expiry - now) div 1000000000 in
         Some (if (expiry - now) mod 1000000000 > 0 then q + 1 else q))
      else None)"

text \<open>The daemon and the kernel agree on which bans are in force: a ban has time left exactly when the kernel's
  check lets it drop packets at that moment.\<close>

theorem remaining_iff_live:
  "(\<exists>left. remaining now expiry = Some left) \<longleftrightarrow> live now (Some expiry)"
  by (auto simp: remaining_def live_def Let_def)

lemma remaining_live: "remaining now expiry = None \<longleftrightarrow> \<not> live now (Some expiry)"
  by (auto simp: remaining_def live_def Let_def)

lemma unat_left:
  assumes "now < expiry"
  shows "unat (expiry - now :: u64) = unat expiry - unat now"
  using assms by (simp add: unat_sub order.strict_implies_order)

lemma ceil_div:
  fixes d k :: nat
  assumes "0 < k"
  shows "(d + (k - 1)) div k = (if d mod k > 0 then d div k + 1 else d div k)"
proof (cases "d mod k > 0")
  case True
  have "d + (k - 1) = k * (d div k) + k + (d mod k - 1)"
    using True assms mult_div_mod_eq [of k d] by linarith
  moreover have "d mod k - 1 < k" using assms mod_less_divisor [of k d] by linarith
  moreover have "k * (d div k) + k + (d mod k - 1) = k * (d div k + 1) + (d mod k - 1)" by simp
  ultimately show ?thesis using True assms by (metis add_cancel_right_right div_less div_mult_self4 less_not_refl mult.commute)
next
  case False
  then have "d + (k - 1) = k * (d div k) + (k - 1)" using mult_div_mod_eq [of k d] by simp
  moreover have "k - 1 < k" using assms by simp
  ultimately show ?thesis using False assms by (metis add_cancel_right_right div_less div_mult_self4 less_not_refl mult.commute)
qed

lemma remaining_value:
  assumes "now < expiry"
  shows "\<exists>left. remaining now expiry = Some left \<and> left \<noteq> 0
    \<and> unat left = (unat expiry - unat now + 999999999) div 1000000000"
proof -
  define d where "d = unat expiry - unat now"
  define q where "q = (expiry - now) div 1000000000"
  have d: "unat (expiry - now) = d" "0 < d" using assms unat_left [OF assms] by (auto simp: d_def word_less_nat_alt)
  have dlt: "d < 18446744073709551616" unfolding d(1) [symmetric] by (rule unat_lt2p64)
  have q: "unat q = d div 1000000000" by (simp add: q_def unat_div d(1))
  have m: "(expiry - now) mod 1000000000 > 0 \<longleftrightarrow> d mod 1000000000 > 0"
    by (simp add: word_less_nat_alt unat_mod d(1))
  have "d div 1000000000 \<le> 18446744073709551616 div 1000000000" using dlt by (intro div_le_mono) simp
  then have q1: "unat (q + 1) = d div 1000000000 + 1" using q by (subst unat_add_no_wrap) simp_all
  have "expiry \<noteq> BAN_FOREVER" using assms by (auto simp: BAN_FOREVER_def word_less_nat_alt)
  then have r: "remaining now expiry = Some (if d mod 1000000000 > 0 then q + 1 else q)"
    using assms m by (simp add: remaining_def Let_def q_def)
  have "unat (if d mod 1000000000 > 0 then q + 1 else q) = (d + 999999999) div 1000000000"
    using q q1 ceil_div [of 1000000000 d] by (cases "d mod 1000000000 > 0") simp_all
  moreover have "(1 + 999999999) div 1000000000 \<le> (d + 999999999) div 1000000000"
    by (intro div_le_mono) (use d(2) in simp)
  then have "(d + 999999999) div 1000000000 > 0" by simp
  ultimately show ?thesis using r unfolding d_def [symmetric] by (metis unat_0 less_numeral_extra(3))
qed

lemma ban_time:
  assumes "secs \<noteq> 0" "unat now + unat secs * 1000000000 < 2 ^ 64"
  shows "(live t (Some (expiry_for now secs)) \<longleftrightarrow> unat t < unat now + unat secs * 1000000000)
    \<and> remaining now (expiry_for now secs) = Some secs"
proof -
  have s: "0 < unat secs" using assms(1) by (simp add: unat_gt_0)
  have "unat (secs * 1000000000) = unat secs * 1000000000"
    using assms(2) by (subst unat_mult_no_wrap) simp_all
  then have e: "unat (expiry_for now secs) = unat now + unat secs * 1000000000"
    using assms by (simp add: expiry_for_def unat_add_no_wrap)
  then have "expiry_for now secs \<noteq> BAN_FOREVER" using s by (auto simp: BAN_FOREVER_def)
  then have l: "live t (Some (expiry_for now secs)) \<longleftrightarrow> unat t < unat now + unat secs * 1000000000"
    by (simp add: live_def word_less_nat_alt e)
  have "now < expiry_for now secs" using e s by (simp add: word_less_nat_alt)
  from remaining_value [OF this] obtain left where left: "remaining now (expiry_for now secs) = Some left"
    "unat left = (unat secs * 1000000000 + 999999999) div 1000000000" by (auto simp: e)
  have "(unat secs * 1000000000 + 999999999) div 1000000000 = unat secs"
    using ceil_div [of 1000000000 "unat secs * 1000000000"] by simp
  with left have "left = secs" by (metis unsigned_word_eqI)
  with l left show ?thesis by simp
qed

text \<open>A ban of \<open>secs\<close> seconds lasts exactly that long: when the sum fits 64 bits, the kernel enforces it at
  every instant before \<open>now + secs\<close> and at none after, and the daemon first shows \<open>secs\<close> as what is left.\<close>

theorem ban_lasts:
  assumes "secs \<noteq> 0" "unat now + unat secs * 1000000000 < 2 ^ 64"
  shows "(live t (Some (expiry_for now secs)) \<longleftrightarrow> unat t < unat now + unat secs * 1000000000)
    \<and> remaining now (expiry_for now secs) = Some secs"
  by (rule ban_time [OF assms])

lemma ban_lasts_witness:
  "live 4000000000 (Some (expiry_for 1000000000 120)) \<and> remaining 1000000000 (expiry_for 1000000000 120) = Some 120"
proof -
  have "(live 4000000000 (Some (expiry_for 1000000000 120)) \<longleftrightarrow> unat (4000000000::u64) < unat (1000000000::u64) + unat (120::u64) * 1000000000)
      \<and> remaining 1000000000 (expiry_for 1000000000 120) = Some 120"
    by (rule ban_lasts) simp_all
  then show ?thesis by simp
qed

text \<open>The expiry wraps around: sixteen minutes after boot, a ban of 18446744074 seconds (more than five centuries, allowed by
  validation as \<open>base_secs\<close>) is over after 0.3 seconds.\<close>

theorem huge_ban_is_short:
  "let now = 1000000000000 in
   live now (Some (expiry_for now 18446744074)) \<and> \<not> live (now + 300000000) (Some (expiry_for now 18446744074))
   \<and> validate (shipped_config\<lparr>c_bans := \<lparr>b_base_secs = 18446744074, b_max_secs = 18446744074, b_forgive_secs = 21600\<rparr>\<rparr>) = Inr ()"
proof -
  have "validate (shipped_config\<lparr>c_bans := \<lparr>b_base_secs = 18446744074, b_max_secs = 18446744074, b_forgive_secs = 21600\<rparr>\<rparr>) = Inr ()"
    using rules_default by (auto simp: validate_iff bans_ok_def trusted_cidrs_def blocked_cidrs_def)
  then show ?thesis by (simp add: live_def expiry_for_def BAN_FOREVER_def)
qed

section \<open>Records and the saved state\<close>

record ban_record =
  br_reason :: string
  br_source :: string
  br_strikes :: u32

definition manual_record :: ban_record where
  "manual_record = \<lparr>br_reason = ''banned by hand'', br_source = ''manual'', br_strikes = 0\<rparr>"

record saved_ban =
  sb_ip :: src
  sb_expires_unix :: u64
  sb_reason :: string
  sb_source :: string
  sb_strikes :: u32

record saved_offender =
  so_ip :: src
  so_strikes :: u32
  so_last_ban_unix :: u64

record saved =
  sv_bans :: "saved_ban list"
  sv_offenders :: "saved_offender list"

definition saved_default :: saved where
  "saved_default = \<lparr>sv_bans = [], sv_offenders = []\<rparr>"

definition STATE_FILE :: string where "STATE_FILE = ''/var/lib/ai-firewall/state.json''"
definition STATUS_FILE :: string where "STATUS_FILE = ''/run/ai-firewall/status.json''"
definition PIN_DIR :: string where "PIN_DIR = ''/sys/fs/bpf/ai-firewall''"

definition saved_load :: "(string \<Rightarrow> saved option) \<Rightarrow> fsys \<Rightarrow> saved" where
  "saved_load dec fs = opt_or (Option.bind (files fs STATE_FILE) dec) saved_default"

definition saved_store :: "(saved \<Rightarrow> error + string) \<Rightarrow> saved \<Rightarrow> fsys \<Rightarrow> fsys \<times> (error + unit)" where
  "saved_store enc s fs =
     (case enc s of Inl e \<Rightarrow> (fs, Inl e) | Inr text \<Rightarrow> write_atomic STATE_FILE text fs)"

definition save_ban :: "u64 \<Rightarrow> u64 \<Rightarrow> (src, ban_record) hmap \<Rightarrow> src \<times> u64 \<Rightarrow> saved_ban option" where
  "save_ban unix now records entry = do {
     left \<leftarrow> remaining now (snd entry);
     let rec = opt_or (hm_get records (fst entry)) manual_record;
     Some \<lparr>sb_ip = fst entry, sb_expires_unix = (if left = 0 then 0 else unix + left),
           sb_reason = br_reason rec, sb_source = br_source rec, sb_strikes = br_strikes rec\<rparr>
   }"

definition capture :: "host \<Rightarrow> blocklist \<Rightarrow> (src, ban_record) hmap \<Rightarrow> (src, offender) hmap \<Rightarrow> saved" where
  "capture h blocklist records offenders =
     \<lparr>sv_bans = List.map_filter (save_ban (unix_secs h) (boot_ns h) records) (bl_entries blocklist),
      sv_offenders = map (\<lambda>(ip, off). \<lparr>so_ip = ip, so_strikes = of_strikes off,
        so_last_ban_unix = sat_sub (unix_secs h) (sat_sub (boot_secs h) (of_last_ban off))\<rparr>) offenders\<rparr>"

definition open_pinned_blocklist :: "(u32, u64) hmap option \<Rightarrow> (u64, u64) hmap option \<Rightarrow> error + blocklist" where
  "open_pinned_blocklist pinned4 pinned6 =
     (case pinned4 of
        None \<Rightarrow> Inl (Msg ''has ai-firewall run started once since boot?'')
      | Some m \<Rightarrow> Inr \<lparr>bl_v4 = m, bl_v6 = pinned6\<rparr>)"

text \<open>A write of the state file is all or nothing: after \<open>store\<close>, whether it succeeded or failed, a load gives either the new
  state or what a load gave before.\<close>

theorem store_atomic:
  assumes "\<And>t. enc s = Inr t \<Longrightarrow> dec t = Some s" "saved_store enc s fs = (fs', r)"
  shows "saved_load dec fs' = (if r = Inr () then s else saved_load dec fs)"
proof (cases "enc s")
  case (Inl e)
  then show ?thesis using assms(2) by (auto simp: saved_store_def)
next
  case (Inr t)
  then have w: "write_atomic STATE_FILE t fs = (fs', r)" using assms(2) by (simp add: saved_store_def)
  have "with_extension ''tmp'' STATE_FILE \<noteq> STATE_FILE" by (simp add: with_extension_def STATE_FILE_def)
  then show ?thesis
    using w assms(1) [OF Inr]
    by (auto simp: write_atomic_def write_file_def saved_load_def Let_def split: if_splits)
qed

lemma store_atomic_witness:
  "let r = saved_store (\<lambda>_. Inr ''{}'') saved_default \<lparr>files = Map.empty, writable = (\<lambda>_. True), renamable = (\<lambda>_. False)\<rparr>
   in saved_load (\<lambda>_. Some saved_default) (fst r) = saved_default"
proof -
  let ?fs = "\<lparr>files = Map.empty, writable = (\<lambda>_. True), renamable = (\<lambda>_. False)\<rparr>"
  obtain fs' r where r: "saved_store (\<lambda>_. Inr ''{}'') saved_default ?fs = (fs', r)" by (metis surj_pair)
  have "saved_load (\<lambda>_. Some saved_default) fs' = (if r = Inr () then saved_default else saved_load (\<lambda>_. Some saved_default) ?fs)"
    by (rule store_atomic [OF _ r]) simp
  then show ?thesis by (simp add: r Let_def saved_load_def)
qed

end
