(* ===== verification/Feeds.thy ===== *)
theory Feeds
  imports State "HOL-Library.Product_Lexorder"
begin

text \<open>
  Blocklist feeds (src/ai-firewall/src/feeds.rs): which lists a config asks for, when their cached copies are downloaded again, and how
  a list becomes networks. The downloader and the cache directory are \<open>feed_disk\<close> and the arguments \<open>fetch\<close> and \<open>rename_ok\<close>.
  Nothing that overlaps reserved or protected space ever leaves the parser.
\<close>

section \<open>Parsing lists\<close>

definition RESERVED :: "string list" where
  "RESERVED = [''0.0.0.0/8'', ''10.0.0.0/8'', ''100.64.0.0/10'', ''127.0.0.0/8'', ''169.254.0.0/16'', ''172.16.0.0/12'',
     ''192.0.0.0/24'', ''192.168.0.0/16'', ''198.18.0.0/15'', ''224.0.0.0/4'', ''240.0.0.0/4'']"

definition overlaps :: "cidr \<Rightarrow> cidr \<Rightarrow> bool" where
  "overlaps a b = (cidr_contains a (ci_net b) \<or> cidr_contains b (ci_net a))"

definition line_tokens :: "string \<Rightarrow> string list" where
  "line_tokens line =
     split_on (\<lambda>c. \<not> (is_digit c \<or> c = CHR ''.'' \<or> c = CHR ''/''))
       (takeWhile (\<lambda>c. c \<noteq> CHR ''#'' \<and> c \<noteq> CHR '';'') line)"

definition token_net :: "cidr list \<Rightarrow> string \<Rightarrow> cidr option" where
  "token_net avoid token =
     (if length (filter (\<lambda>c. c = CHR ''.'') token) \<noteq> 3 then None
      else (case cidr_parse token of
              Inl _ \<Rightarrow> None
            | Inr c \<Rightarrow>
                if leading_ones (ci_mask c) < 8 \<or> list_ex (\<lambda>r. overlaps r c) avoid then None else Some c))"

definition net_key :: "cidr \<Rightarrow> u32 \<times> u32" where
  "net_key c = (ci_net c, ci_mask c)"

text \<open>\<open>None\<close> is the panic of \<open>unwrap\<close> on a malformed constant of \<open>RESERVED\<close>.\<close>

definition parse_feed :: "string \<Rightarrow> cidr list \<Rightarrow> cidr list option" where
  "parse_feed text protected =
     (case rmap cidr_parse RESERVED of
        Inl _ \<Rightarrow> None
      | Inr reserved \<Rightarrow>
          Some (remdups_adj (sort_key net_key
            (concat (map (\<lambda>l. List.map_filter (token_net (reserved @ protected)) (line_tokens l)) (str_lines text))))))"

section \<open>Sources and the cache\<close>

record feed_state =
  fs_name :: string
  fs_entries :: nat
  fs_updated_unix :: u64
  fs_error :: "string option"

definition FEED_DIR :: string where "FEED_DIR = ''/var/lib/ai-firewall/feeds''"

definition is_alnum :: "char \<Rightarrow> bool" where
  "is_alnum c = (let n = of_char c :: nat in 48 \<le> n \<and> n \<le> 57 \<or> 65 \<le> n \<and> n \<le> 90 \<or> 97 \<le> n \<and> n \<le> 122)"

definition cache_path :: "string \<Rightarrow> string" where
  "cache_path name =
     FEED_DIR @ ''/'' @ map (\<lambda>c. if is_alnum c \<or> c = CHR ''-'' then c else CHR ''_'') name @ ''.txt''"

definition feed_sources :: "feed_config \<Rightarrow> (string \<times> string) list" where
  "feed_sources cfg =
     List.map_filter (\<lambda>n. map_option (Pair n) (known n)) (f_lists cfg)
     @ map (\<lambda>(i, u). (''custom-'' @ show_nat (i + 1), u)) (enumerate 0 (f_urls cfg))"

text \<open>The readable cached texts, their modification times (unix seconds) and ages in whole seconds.\<close>

record feed_disk =
  fd_text :: "string \<rightharpoonup> string"
  fd_mtime :: "string \<rightharpoonup> u64"
  fd_age :: "string \<rightharpoonup> u64"

definition refresh_one ::
  "(string \<Rightarrow> string option) \<Rightarrow> (string \<Rightarrow> bool) \<Rightarrow> u64 \<Rightarrow> u64 \<Rightarrow> bool \<Rightarrow> string \<times> string
   \<Rightarrow> feed_disk \<times> (string \<times> string option) list \<Rightarrow> feed_disk \<times> (string \<times> string option) list" where
  "refresh_one fetch rename_ok now max_age force src st =
     (let (name, url) = src; (disk, results) = st; path = cache_path name in
      if \<not> force \<and> (case fd_age disk path of Some a \<Rightarrow> a < max_age | None \<Rightarrow> False) then st
      else (case fetch url of
              Some t \<Rightarrow>
                if rename_ok path then
                  (disk\<lparr>fd_text := (fd_text disk)(path \<mapsto> t), fd_mtime := (fd_mtime disk)(path \<mapsto> now),
                        fd_age := (fd_age disk)(path \<mapsto> 0)\<rparr>, results @ [(name, None)])
                else (disk, results @ [(name, Some ''download failed'')])
            | None \<Rightarrow> (disk, results @ [(name, Some ''download failed'')])))"

definition refresh ::
  "(string \<Rightarrow> string option) \<Rightarrow> (string \<Rightarrow> bool) \<Rightarrow> u64 \<Rightarrow> feed_config \<Rightarrow> bool \<Rightarrow> feed_disk
   \<Rightarrow> feed_disk \<times> (string \<times> string option) list" where
  "refresh fetch rename_ok now cfg force disk =
     fold (refresh_one fetch rename_ok now (max (f_refresh_hours cfg) 1 * 3600) force) (feed_sources cfg) (disk, [])"

definition load_one ::
  "feed_disk \<Rightarrow> cidr list \<Rightarrow> (string \<times> string option) list \<Rightarrow> string \<times> string \<Rightarrow> (cidr list \<times> feed_state) option" where
  "load_one disk protected errors src =
     (let name = fst src; path = cache_path name; text = opt_or (fd_text disk path) [] in do {
        nets \<leftarrow> parse_feed text protected;
        Some (nets, \<lparr>fs_name = name, fs_entries = length nets, fs_updated_unix = opt_or (fd_mtime disk path) 0,
          fs_error = Option.bind (find (\<lambda>e. fst e = name) errors) snd\<rparr>)
      })"

fun load_sources ::
  "feed_disk \<Rightarrow> cidr list \<Rightarrow> (string \<times> string option) list \<Rightarrow> (string \<times> string) list \<Rightarrow> (cidr list \<times> feed_state list) option" where
  "load_sources disk protected errors [] = Some ([], [])"
| "load_sources disk protected errors (s # ss) = do {
     (nets, st) \<leftarrow> load_one disk protected errors s;
     (all_nets, sts) \<leftarrow> load_sources disk protected errors ss;
     Some (nets @ all_nets, st # sts)
   }"

definition load_feeds ::
  "feed_config \<Rightarrow> cidr list \<Rightarrow> (string \<times> string option) list \<Rightarrow> feed_disk \<Rightarrow> (cidr list \<times> feed_state list) option" where
  "load_feeds cfg protected errors disk = do {
     (all_nets, sts) \<leftarrow> load_sources disk protected errors (feed_sources cfg);
     Some (remdups_adj (sort_key net_key all_nets), sts)
   }"

section \<open>Overlap\<close>

lemma read_octets_4: "read_octets 4 0 s = read_octets (Suc (Suc (Suc (Suc 0)))) 0 s"
  by (simp add: numeral_eq_Suc)

lemmas cidr_eval = cidr_parse_def cidr_mask_def rbind_def parse_ipv4_def parse_with_def read_ipv4_def read_octets_4
  read_number_def read_char_def read_separator_def octets_ip_def to_digit_def radix_val_def Let_def text_eval

definition reserved_nets :: "cidr list" where
  "reserved_nets = map (\<lambda>(n, m). \<lparr>ci_net = n, ci_mask = m\<rparr>)
     [(0x00000000, 0xFF000000), (0x0A000000, 0xFF000000), (0x64400000, 0xFFC00000), (0x7F000000, 0xFF000000),
      (0xA9FE0000, 0xFFFF0000), (0xAC100000, 0xFFF00000), (0xC0000000, 0xFFFFFF00), (0xC0A80000, 0xFFFF0000),
      (0xC6120000, 0xFFFE0000), (0xE0000000, 0xF0000000), (0xF0000000, 0xF0000000)]"

lemma reserved_parse: "rmap cidr_parse RESERVED = Inr reserved_nets"
  by (simp add: RESERVED_def reserved_nets_def cidr_eval push_bit_minus_one_eq_not_mask mask_eq_exp_minus_1)

text \<open>Two networks that share an address overlap in the code's sense: one's base lies in the other.\<close>

lemma shared_overlaps:
  assumes "cidr_wf m a" "cidr_wf n b" "cidr_contains a ip" "cidr_contains b ip"
  shows "overlaps a b"
proof -
  have sub: "cidr_contains x (ci_net y)" if "cidr_wf i x" "cidr_wf j y" "i \<le> j" "cidr_contains x ip" "cidr_contains y ip" for i j x y
  proof -
    have x: "\<forall>k. 32 - i \<le> k \<and> k < 32 \<longrightarrow> bit ip k = bit (ci_net x) k"
      using that(4) by (simp add: contains_iff [OF that(1)] top_bits_eq [symmetric])
    have y: "\<forall>k. 32 - j \<le> k \<and> k < 32 \<longrightarrow> bit ip k = bit (ci_net y) k"
      using that(5) by (simp add: contains_iff [OF that(2)] top_bits_eq [symmetric])
    show ?thesis
      unfolding contains_iff [OF that(1)] top_bits_eq [symmetric] using x y that(3) by auto
  qed
  show ?thesis
    using sub [OF assms(1,2) _ assms(3,4)] sub [OF assms(2,1) _ assms(4,3)] by (cases "m \<le> n") (auto simp: overlaps_def)
qed

section \<open>What a parsed list contains\<close>

definition names_net :: "string \<Rightarrow> cidr \<Rightarrow> bool" where
  "names_net text c =
     (\<exists>l \<in> set (str_lines text). \<exists>t \<in> set (line_tokens l). length (filter (\<lambda>c. c = CHR ''.'') t) = 3 \<and> cidr_parse t = Inr c)"

lemma net_key_inj: "net_key a = net_key b \<longleftrightarrow> a = b"
  by (cases a; cases b) (simp add: net_key_def)

lemma adj_distinct:
  assumes "sorted (map f xs)" "inj f"
  shows "distinct (remdups_adj xs)"
proof -
  have "remdups_adj (map f xs) = map f (remdups_adj xs)"
    by (induction xs rule: remdups_adj.induct) (auto dest: injD [OF assms(2)])
  then show ?thesis using distinct_sorted_adj [OF assms(1)] by (simp add: distinct_map)
qed

lemma token_net_Some:
  "token_net avoid t = Some c \<longleftrightarrow>
     length (filter (\<lambda>c. c = CHR ''.'') t) = 3 \<and> cidr_parse t = Inr c \<and> 8 \<le> leading_ones (ci_mask c)
     \<and> (\<forall>r \<in> set avoid. \<not> overlaps r c)"
  by (auto simp: token_net_def list_ex_iff not_less split: sum.splits if_splits)

lemma parse_feed_set:
  "\<exists>nets. parse_feed text protected = Some nets
    \<and> (\<forall>c. c \<in> set nets \<longleftrightarrow> names_net text c \<and> 8 \<le> leading_ones (ci_mask c)
          \<and> (\<forall>r \<in> set (reserved_nets @ protected). \<not> overlaps r c))"
  by (auto simp: parse_feed_def reserved_parse set_map_filter token_net_Some names_net_def)

text \<open>A list is read exactly: what is loaded from it are the networks it names, of prefix length 8 or more, that overlap no
  reserved and no protected network, each once and in order; no text makes the parser panic.\<close>

theorem feed_parse_exact:
  "\<exists>nets. parse_feed text protected = Some nets
    \<and> (\<forall>c. c \<in> set nets \<longleftrightarrow> names_net text c \<and> 8 \<le> leading_ones (ci_mask c)
          \<and> \<not> (\<exists>r \<in> set (reserved_nets @ protected). overlaps r c))
    \<and> distinct nets \<and> sorted (map net_key nets)"
proof -
  obtain nets where n: "parse_feed text protected = Some nets"
    "\<forall>c. c \<in> set nets \<longleftrightarrow> names_net text c \<and> 8 \<le> leading_ones (ci_mask c)
          \<and> (\<forall>r \<in> set (reserved_nets @ protected). \<not> overlaps r c)"
    using parse_feed_set by blast
  obtain cs where cs: "nets = remdups_adj (sort_key net_key cs)" using n(1) by (auto simp: parse_feed_def reserved_parse)
  have "inj net_key" by (simp add: inj_on_def net_key_inj)
  then have "distinct nets" unfolding cs by (intro adj_distinct [where f = net_key]) simp
  moreover have "remdups_adj (map net_key xs) = map net_key (remdups_adj xs)" for xs
    by (induction xs rule: remdups_adj.induct) (auto simp: net_key_inj)
  then have "sorted (map net_key nets)"
    unfolding cs by (metis sorted_remdups_adj sorted_sort_key)
  ultimately show ?thesis using n by blast
qed

lemma load_sources_set:
  "\<exists>nets sts. load_sources disk protected errors ss = Some (nets, sts) \<and> map fs_name sts = map fst ss
    \<and> (\<forall>c. c \<in> set nets \<longleftrightarrow> (\<exists>s \<in> set ss. \<exists>t. opt_or (fd_text disk (cache_path (fst s))) [] = t
          \<and> names_net t c \<and> 8 \<le> leading_ones (ci_mask c) \<and> (\<forall>r \<in> set (reserved_nets @ protected). \<not> overlaps r c)))"
proof (induction ss)
  case (Cons s ss)
  obtain nets where "parse_feed (opt_or (fd_text disk (cache_path (fst s))) []) protected = Some nets"
    "\<forall>c. c \<in> set nets \<longleftrightarrow> names_net (opt_or (fd_text disk (cache_path (fst s))) []) c \<and> 8 \<le> leading_ones (ci_mask c)
          \<and> (\<forall>r \<in> set (reserved_nets @ protected). \<not> overlaps r c)"
    using parse_feed_set by blast
  moreover obtain nets' sts where "load_sources disk protected errors ss = Some (nets', sts)" "map fs_name sts = map fst ss"
    "\<forall>c. c \<in> set nets' \<longleftrightarrow> (\<exists>s \<in> set ss. \<exists>t. opt_or (fd_text disk (cache_path (fst s))) [] = t
          \<and> names_net t c \<and> 8 \<le> leading_ones (ci_mask c) \<and> (\<forall>r \<in> set (reserved_nets @ protected). \<not> overlaps r c))"
    using Cons.IH by blast
  ultimately show ?case by (auto simp: load_one_def Let_def)
qed simp

lemma load_feeds_set:
  assumes "load_feeds cfg protected errors disk = Some (nets, sts)" "c \<in> set nets"
  shows "(\<exists>t. cidr_parse t = Inr c) \<and> 8 \<le> leading_ones (ci_mask c) \<and> (\<forall>r \<in> set (reserved_nets @ protected). \<not> overlaps r c)"
proof -
  obtain all_nets sts' where l: "load_sources disk protected errors (feed_sources cfg) = Some (all_nets, sts')"
    and "nets = remdups_adj (sort_key net_key all_nets)"
    using assms(1) by (auto simp: load_feeds_def bind_eq_Some_conv)
  then have "c \<in> set all_nets" using assms(2) by simp
  then show ?thesis using load_sources_set [of disk protected errors "feed_sources cfg"] l by (fastforce simp: names_net_def)
qed

lemma load_feeds_total: "\<exists>nets sts. load_feeds cfg protected errors disk = Some (nets, sts)"
  using load_sources_set [of disk protected errors "feed_sources cfg"] by (auto simp: load_feeds_def)

lemma reserved_wf: "r \<in> set reserved_nets \<Longrightarrow> \<exists>n. cidr_wf n r"
  using rmap_set [OF reserved_parse] cidr_parse_wf by blast

text \<open>No feed can cut the machine off from its own network: whatever the downloaded lists say, no network that is loaded contains a
  private, loopback, link-local, multicast or otherwise reserved address, or an address of a protected network.\<close>

theorem feeds_spare_protected:
  assumes "load_feeds cfg protected errors disk = Some (nets, sts)"
    and "\<forall>r \<in> set protected. \<exists>n. cidr_wf n r"
    and "r \<in> set (reserved_nets @ protected)" "cidr_contains r ip"
  shows "\<forall>c \<in> set nets. \<not> cidr_contains c ip"
proof
  fix c assume c: "c \<in> set nets"
  from load_feeds_set [OF assms(1) c] assms(3) obtain t where t: "cidr_parse t = Inr c" and no: "\<not> overlaps r c" by blast
  obtain m where m: "cidr_wf m c" using cidr_parse_wf [OF t] by blast
  obtain n where n: "cidr_wf n r" using assms(2,3) reserved_wf by auto
  show "\<not> cidr_contains c ip" using shared_overlaps [OF n m assms(4)] no by blast
qed

definition demo_disk :: feed_disk where
  "demo_disk = \<lparr>fd_text = (\<lambda>p. Some (''9.9.9.0/24'' @ newline @ ''10.1.0.0/16'')), fd_mtime = (\<lambda>_. None), fd_age = (\<lambda>_. None)\<rparr>"

lemma feeds_spare_protected_witness:
  "\<exists>nets sts. load_feeds feed_default [cidr_single 0x09090909] [] demo_disk = Some (nets, sts)
    \<and> (\<forall>c \<in> set nets. \<not> cidr_contains c 0x09090909) \<and> (\<forall>c \<in> set nets. \<not> cidr_contains c 0x0A010203)"
proof -
  obtain nets sts where l: "load_feeds feed_default [cidr_single 0x09090909] [] demo_disk = Some (nets, sts)"
    using load_feeds_total by blast
  have wf: "\<forall>r \<in> set [cidr_single 0x09090909]. \<exists>n. cidr_wf n r" using cidr_single_wf by auto
  have "\<forall>c \<in> set nets. \<not> cidr_contains c 0x09090909"
    by (rule feeds_spare_protected [OF l wf, of "cidr_single 0x09090909"]) (simp_all add: cidr_single_def cidr_contains_def)
  moreover have "\<forall>c \<in> set nets. \<not> cidr_contains c 0x0A010203"
    by (rule feeds_spare_protected [OF l wf, of "\<lparr>ci_net = 0x0A000000, ci_mask = 0xFF000000\<rparr>"])
      (simp_all add: reserved_nets_def cidr_contains_def)
  ultimately show ?thesis using l by blast
qed

section \<open>Refreshing\<close>

lemma refresh_one_keeps:
  assumes "refresh_one fetch rename_ok now max_age force src (disk, res) = (disk', res')"
  shows "(fd_text disk' p = fd_text disk p \<or> (\<exists>name. (name, None) \<in> set res' \<and> p = cache_path name \<and> fd_text disk' p \<noteq> None))
    \<and> set res \<subseteq> set res'"
  using assms by (auto simp: refresh_one_def Let_def split: prod.splits option.splits if_splits)

lemma refresh_fold_keeps:
  "fold (refresh_one fetch rename_ok now max_age force) ss (disk, res) = (disk', res') \<Longrightarrow>
    (fd_text disk' p = fd_text disk p \<or> (\<exists>name. (name, None) \<in> set res' \<and> p = cache_path name \<and> fd_text disk' p \<noteq> None))
    \<and> set res \<subseteq> set res'"
proof (induction ss arbitrary: disk res)
  case (Cons s ss)
  obtain d1 r1 where one: "refresh_one fetch rename_ok now max_age force s (disk, res) = (d1, r1)" by (metis surj_pair)
  with Cons.prems have "fold (refresh_one fetch rename_ok now max_age force) ss (d1, r1) = (disk', res')" by simp
  from Cons.IH [OF this] refresh_one_keeps [OF one, of p] show ?case by (auto dest: subsetD) 
qed auto

text \<open>A failed download never costs the cached copy: after a refresh every cached text is what it was, or was replaced by a
  download reported as successful; a failed or skipped list leaves no trace on disk.\<close>

theorem refresh_keeps_cache:
  assumes "refresh fetch rename_ok now cfg force disk = (disk', results)"
  shows "fd_text disk' p = fd_text disk p \<or> (\<exists>name. (name, None) \<in> set results \<and> p = cache_path name \<and> fd_text disk' p \<noteq> None)"
  using refresh_fold_keeps [OF assms [unfolded refresh_def]] by blast

lemma refresh_keeps_cache_witness:
  "let r = refresh (\<lambda>_. None) (\<lambda>_. True) 5 feed_default True demo_disk; p = cache_path ''spamhaus-drop''
   in fd_text (fst r) p = fd_text demo_disk p \<or> (\<exists>name. (name, None) \<in> set (snd r) \<and> p = cache_path name \<and> fd_text (fst r) p \<noteq> None)"
  unfolding Let_def by (rule refresh_keeps_cache [of "\<lambda>_. None" "\<lambda>_. True" 5 feed_default True demo_disk]) simp

section \<open>The feed trie\<close>

definition feed_key :: "u32 \<times> u32 \<Rightarrow> u32 \<times> u8 list" where
  "feed_key n = (of_nat (leading_ones (snd n)), bytes32 (fst n))"

text \<open>A feed entry matches exactly the addresses of its network.\<close>

lemma feed_key_matches:
  assumes "cidr_wf n c"
  shows "(case feed_key (net_key c) of (l, d) \<Rightarrow> l \<le> 32 \<and> take (unat l) (key_bits d) = take (unat l) (key_bits (bytes32 ip)))
    \<longleftrightarrow> cidr_contains c ip"
proof -
  have n: "n \<le> 32" using assms by (simp add: cidr_wf_def)
  then have u: "unat (of_nat n :: u32) = n" by (simp add: unat_of_nat)
  have le: "(of_nat n :: u32) \<le> 32" using n by (simp add: word_le_nat_alt u)
  show ?thesis
    using n by (auto simp: feed_key_def net_key_def leading_ones_mask [OF assms] u le top_bits_take contains_iff [OF assms])
qed

lemma lpm_feed_keys:
  assumes "\<forall>c \<in> set nets. \<exists>n. cidr_wf n c"
  shows "lpm_match (feed_key ` net_key ` set nets) 32 (bytes32 ip) \<longleftrightarrow> (\<exists>c \<in> set nets. cidr_contains c ip)"
proof -
  define P where "P = (\<lambda>k. case k of (l, d) \<Rightarrow> l \<le> (32::u32) \<and> take (unat l) (key_bits d) = take (unat l) (key_bits (bytes32 ip)))"
  have m: "P (feed_key (net_key c)) \<longleftrightarrow> cidr_contains c ip" if "c \<in> set nets" for c
  proof -
    from assms \<open>c \<in> set nets\<close> obtain n where "cidr_wf n c" by blast
    then show ?thesis unfolding P_def by (rule feed_key_matches)
  qed
  have "lpm_match (feed_key ` net_key ` set nets) 32 (bytes32 ip) \<longleftrightarrow> (\<exists>k \<in> feed_key ` net_key ` set nets. P k)"
    unfolding lpm_match_def P_def by (rule refl)
  also have "\<dots> \<longleftrightarrow> (\<exists>c \<in> set nets. P (feed_key (net_key c)))" by blast
  finally show ?thesis using m by blast
qed

end
