(* ===== verification/Posture.thy ===== *)
theory Posture
  imports Rules
begin

text \<open>
  Postures (src/ai-firewall/src/posture.rs): a security level laid over the config without editing it. A posture tightens or relaxes;
  whatever it does, the result is a config that validates and opens nothing new to everyone. The TOML codec is a parameter.
\<close>

section \<open>The postures\<close>

definition POSTURE_PATH :: string where "POSTURE_PATH = ''/etc/ai-firewall/posture.toml''"

definition POSTURES :: "(string \<times> string) list" where
  "POSTURES =
     [(''secure'', ''your config as written''),
      (''relaxed'', ''your config; scan and flood detection half as sensitive (labs, busy networks)''),
      (''lockdown'',
       ''every inbound port closed, ping dropped, detection twice as sensitive, bans 4x longer, always enforcing''),
      (''stealth'', ''ping dropped; the honeypot ports open only to your local networks'')]"

definition DECOY_TCP :: "u16 list" where "DECOY_TCP = [21, 22, 23, 25, 80, 445, 3306, 3389, 8080]"
definition DECOY_UDP :: "u16 list" where "DECOY_UDP = [53]"

record posture =
  po_name :: string
  po_lan :: "string list"

definition posture_validate :: "posture \<Rightarrow> error + unit" where
  "posture_validate p =
     rbind (rcheck (list_ex (\<lambda>q. fst q = po_name p) POSTURES) (Bad ''unknown posture'' (po_name p))) (\<lambda>_.
     rbind (rmap (\<lambda>l. ctx (''lan '' @ l) (cidr_parse l)) (po_lan p)) (\<lambda>_. Inr ()))"

definition posture_new :: "string \<Rightarrow> string list \<Rightarrow> error + posture" where
  "posture_new name nets =
     (let p = \<lparr>po_name = name, po_lan = nets\<rparr> in rbind (posture_validate p) (\<lambda>_. Inr p))"

section \<open>The file\<close>

text \<open>What reading a file can give.\<close>

datatype file_read = Not_Found | Unreadable error | Contents string

definition posture_load :: "(string \<Rightarrow> error + posture) \<Rightarrow> string \<Rightarrow> file_read \<Rightarrow> posture option \<times> error option" where
  "posture_load toml path rd =
     (case rd of
        Not_Found \<Rightarrow> (None, None)
      | Unreadable e \<Rightarrow> (None, Some (Ctx path e))
      | Contents text \<Rightarrow>
          (case rbind (toml text) (\<lambda>p. rbind (posture_validate p) (\<lambda>_. Inr p)) of
             Inr p \<Rightarrow> (Some p, None)
           | Inl e \<Rightarrow> (None, Some (Ctx path e))))"

definition posture_header :: string where
  "posture_header =
     ''# Written by `ai-firewall posture` (Halcyon sysmode sets it per mode). Your config.toml is not changed.'' @ newline"

definition posture_save :: "(posture \<Rightarrow> error + string) \<Rightarrow> posture \<Rightarrow> string \<Rightarrow> fsys \<Rightarrow> fsys \<times> (error + unit)" where
  "posture_save enc p path fs =
     (case enc p of Inl e \<Rightarrow> (fs, Inl e) | Inr t \<Rightarrow> write_atomic path (posture_header @ t) fs)"

section \<open>Laying a posture over the config\<close>

definition scale_limit :: "u32 \<Rightarrow> u32 \<Rightarrow> u32 \<Rightarrow> u32" where
  "scale_limit up down v = max (sat_mul v up div down) 1"

definition scale_detector :: "u32 \<Rightarrow> u32 \<Rightarrow> config \<Rightarrow> config" where
  "scale_detector up down c =
     c\<lparr>c_detector := (c_detector c)\<lparr>
         d_syn_limit := scale_limit up down (d_syn_limit (c_detector c)),
         d_port_limit := scale_limit up down (d_port_limit (c_detector c)),
         d_udp_limit := scale_limit up down (d_udp_limit (c_detector c)),
         d_drop_limit := scale_limit up down (d_drop_limit (c_detector c))\<rparr>\<rparr>"

definition lockdown :: "config \<Rightarrow> config" where
  "lockdown c =
     (let c1 = c\<lparr>c_mode := ''enforce'', c_allow_tcp := [], c_allow_udp := [], c_allow_ping := False, c_rules := [],
            c_profiles := map (\<lambda>(n, p). (n, \<lparr>pr_networks = pr_networks p, pr_allow_tcp = Some [], pr_allow_udp = Some [],
              pr_allow_ping = Some False, pr_rules = Some []\<rparr>)) (c_profiles c)\<rparr>;
          c2 = scale_detector 1 2 c1;
          base = sat_mul (b_base_secs (c_bans c2)) 4
      in c2\<lparr>c_bans := (c_bans c2)\<lparr>b_base_secs := base, b_max_secs := max (sat_mul (b_max_secs (c_bans c2)) 4) base\<rparr>\<rparr>)"

definition decoys :: "string list \<Rightarrow> rule list" where
  "decoys nets =
     concat (map (\<lambda>net.
       map (\<lambda>p. \<lparr>r_proto = ''tcp'', r_port = One p, r_from = Some net, r_limit = None\<rparr>) DECOY_TCP
       @ map (\<lambda>p. \<lparr>r_proto = ''udp'', r_port = One p, r_from = Some net, r_limit = None\<rparr>) DECOY_UDP) nets)"

definition stealth :: "string list \<Rightarrow> config \<Rightarrow> config" where
  "stealth nets c =
     c\<lparr>c_allow_ping := False, c_rules := c_rules c @ decoys nets,
       c_profiles := map (\<lambda>(n, p). (n, p\<lparr>pr_allow_ping := Some False,
         pr_rules := map_option (\<lambda>r. r @ decoys nets) (pr_rules p)\<rparr>)) (c_profiles c)\<rparr>"

definition posture_apply :: "posture \<Rightarrow> config \<Rightarrow> config" where
  "posture_apply p c0 =
     (let c = c0\<lparr>c_posture := Some (po_name p)\<rparr> in
      if po_name p = ''relaxed'' then scale_detector 2 1 c
      else if po_name p = ''lockdown'' then lockdown c
      else if po_name p = ''stealth'' then stealth (po_lan p) c
      else c)"

section \<open>The result is valid\<close>

lemma scale_limit_pos: "scale_limit up down v \<noteq> 0"
  by (auto simp: scale_limit_def max_def)

lemma scale_detector_valid: "validate c = Inr () \<Longrightarrow> validate (scale_detector up down c) = Inr ()"
  by (simp add: validate_iff scale_detector_def detector_ok_def scale_limit_pos trusted_cidrs_def blocked_cidrs_def)

lemma policy_ok_nil: "policy_ok [] [] []"
  by (simp add: policy_ok_def expand_def)

lemma sat_mul_zero_iff: "sat_mul a 4 = 0 \<longleftrightarrow> a = (0::u64)"
proof -
  have "unat (sat_mul a 4) = min (unat a * 4) (2 ^ 64 - 1)" by (simp add: unat_sat_mul)
  then have "unat (sat_mul a 4) = 0 \<longleftrightarrow> unat a = 0" by auto
  then show ?thesis by (simp add: unat_eq_0)
qed

lemma lockdown_valid: "validate c = Inr () \<Longrightarrow> validate (lockdown c) = Inr ()"
proof -
  assume v: "validate c = Inr ()"
  have "bans_ok (c_bans c)" using v by (simp add: validate_iff)
  then have "bans_ok (c_bans (lockdown c))"
    by (simp add: bans_ok_def lockdown_def scale_detector_def Let_def sat_mul_zero_iff)
  moreover have "detector_ok (c_detector (lockdown c))"
    using v by (simp add: validate_iff detector_ok_def lockdown_def scale_detector_def Let_def scale_limit_pos)
  ultimately show ?thesis
    using v by (auto simp: validate_iff lockdown_def scale_detector_def Let_def policy_ok_nil profile_ok_def trusted_cidrs_def blocked_cidrs_def)
qed

lemma decoy_ok: "\<forall>l \<in> set nets. \<exists>c. cidr_parse l = Inr c \<Longrightarrow> list_all rule_ok (decoys nets)"
  by (auto simp: list_all_iff decoys_def rule_ok_def rate_def DECOY_TCP_def DECOY_UDP_def)

lemma policy_ok_append: "policy_ok tcp udp rules \<Longrightarrow> list_all rule_ok rs \<Longrightarrow> policy_ok tcp udp (rules @ rs)"
  by (simp add: policy_ok_def)

lemma stealth_valid:
  assumes "validate c = Inr ()" "\<forall>l \<in> set nets. \<exists>c. cidr_parse l = Inr c"
  shows "validate (stealth nets c) = Inr ()"
proof -
  note d = decoy_ok [OF assms(2)]
  have "profile_ok (p\<lparr>pr_allow_ping := Some False, pr_rules := map_option (\<lambda>r. r @ decoys nets) (pr_rules p)\<rparr>)"
    if "profile_ok p" for p
    using that policy_ok_append [OF _ d] by (cases "pr_rules p") (simp_all add: profile_ok_def)
  then show ?thesis
    using assms(1) policy_ok_append [OF _ d]
    by (fastforce simp: validate_iff stealth_def trusted_cidrs_def blocked_cidrs_def)
qed

lemma posture_validate_iff:
  "posture_validate p = Inr () \<longleftrightarrow> po_name p \<in> fst ` set POSTURES \<and> (\<forall>l \<in> set (po_lan p). \<exists>c. cidr_parse l = Inr c)"
  by (auto simp: posture_validate_def rbind_Inr_iff rmap_ok_iff list_ex_iff) (use rmap_ok_iff [of _ "po_lan p"] in force)+

lemma posture_apply_ok:
  assumes "posture_validate p = Inr ()" "validate c = Inr ()"
  shows "validate (posture_apply p c) = Inr ()"
proof -
  have c: "validate (c\<lparr>c_posture := x\<rparr>) = Inr ()" for x
    using assms(2) by (simp add: validate_iff trusted_cidrs_def blocked_cidrs_def)
  have l: "\<forall>l \<in> set (po_lan p). \<exists>c. cidr_parse l = Inr c" using assms(1) by (simp add: posture_validate_iff)
  show ?thesis
    by (simp add: posture_apply_def Let_def scale_detector_valid lockdown_valid stealth_valid c l)
qed

text \<open>C38: a posture that validates, laid over a config that validates, gives a config that validates: no posture can put the daemon
  in a state its own checks would refuse (a limit scaled down to 0, a maximum ban below the base, a decoy rule that does not compile).\<close>

theorem posture_apply_valid:
  assumes "posture_validate p = Inr ()" "validate c = Inr ()"
  shows "validate (posture_apply p c) = Inr ()"
  by (rule posture_apply_ok [OF assms])

definition stealth_posture :: posture where
  "stealth_posture = \<lparr>po_name = ''stealth'', po_lan = [lan]\<rparr>"

lemma stealth_posture_valid: "posture_validate stealth_posture = Inr ()"
  using lan_net by (auto simp: posture_validate_iff stealth_posture_def POSTURES_def)

lemma posture_apply_valid_witness: "validate (posture_apply stealth_posture shipped_config) = Inr ()"
  by (rule posture_apply_valid [OF stealth_posture_valid rules_default])

section \<open>What a posture opens\<close>

lemma map_of_map_snd: "map_of (map (\<lambda>(n, p). (n, f p)) m) k = map_option f (map_of m k)"
  by (induction m) auto

lemma policy_of_bind: "Option.bind prof (map_of (map (\<lambda>(n, p). (n, f p)) m)) = map_option f (Option.bind prof (map_of m))"
  by (cases prof) (simp_all add: map_of_map_snd)

lemma lockdown_compiles:
  assumes "po_name p = ''lockdown''"
  shows "enforce (posture_apply p c) \<and> \<not> p_allow_ping (policy_of (posture_apply p c) prof)
    \<and> (\<exists>k. compile (policy_of (posture_apply p c) prof) = Inr k
        \<and> co_tcp k = [] \<and> set (co_udp k) = {68, 546} \<and> co_from_tcp k = [] \<and> co_from_udp k = [] \<and> co_rates k = [])"
proof -
  have l: "posture_apply p c = lockdown (c\<lparr>c_posture := Some ''lockdown''\<rparr>)"
    using assms by (simp add: posture_apply_def)
  let ?d = "lockdown (c\<lparr>c_posture := Some ''lockdown''\<rparr>)"
  obtain x where pol: "policy_of ?d prof = \<lparr>p_profile = x, p_allow_tcp = [], p_allow_udp = [], p_allow_ping = False, p_rules = []\<rparr>"
    by (cases "Option.bind prof (map_of (c_profiles c))")
      (simp_all add: policy_of_def lockdown_def scale_detector_def Let_def policy_of_bind)
  have "enforce ?d" by (simp add: enforce_def lockdown_def scale_detector_def Let_def)
  then show ?thesis unfolding l pol by (auto simp: compile_def expand_def DHCP_CLIENT_PORTS_def)
qed

text \<open>Lockdown closes everything: whatever the config and whatever network profile is active, the policy in force opens no port to anyone,
  drops ping and enforces; the only ports that stay open are the two a DHCP client needs.\<close>

theorem lockdown_closes_all:
  assumes "po_name p = ''lockdown''"
  shows "enforce (posture_apply p c) \<and> \<not> p_allow_ping (policy_of (posture_apply p c) prof)
    \<and> (\<exists>k. compile (policy_of (posture_apply p c) prof) = Inr k
        \<and> co_tcp k = [] \<and> set (co_udp k) = {68, 546} \<and> co_from_tcp k = [] \<and> co_from_udp k = [] \<and> co_rates k = [])"
  by (rule lockdown_compiles [OF assms])

lemma lockdown_closes_all_witness:
  "enforce (posture_apply \<lparr>po_name = ''lockdown'', po_lan = []\<rparr> (shipped_config\<lparr>c_mode := ''monitor''\<rparr>))
   \<and> \<not> p_allow_ping (policy_of (posture_apply \<lparr>po_name = ''lockdown'', po_lan = []\<rparr> (shipped_config\<lparr>c_mode := ''monitor''\<rparr>)) None)"
  using lockdown_closes_all [of "\<lparr>po_name = ''lockdown'', po_lan = []\<rparr>" "shipped_config\<lparr>c_mode := ''monitor''\<rparr>" None] by simp

text \<open>How a posture changes the policy in force.\<close>

lemma posture_policy:
  obtains (same) "policy_of (posture_apply p c) prof = policy_of c prof"
  | (closed) "p_allow_tcp (policy_of (posture_apply p c) prof) = []" "p_allow_udp (policy_of (posture_apply p c) prof) = []"
      "p_rules (policy_of (posture_apply p c) prof) = []"
  | (decoy) "policy_of (posture_apply p c) prof =
      (policy_of c prof)\<lparr>p_allow_ping := False, p_rules := p_rules (policy_of c prof) @ decoys (po_lan p)\<rparr>"
proof (cases "po_name p = ''lockdown''")
  case True
  then show ?thesis
    by (intro closed; cases "Option.bind prof (map_of (c_profiles c))")
      (simp_all add: posture_apply_def policy_of_def lockdown_def scale_detector_def Let_def policy_of_bind)
next
  case nl: False
  show ?thesis
  proof (cases "po_name p = ''stealth''")
    case True
    show ?thesis
    proof (rule decoy)
      show "policy_of (posture_apply p c) prof =
        (policy_of c prof)\<lparr>p_allow_ping := False, p_rules := p_rules (policy_of c prof) @ decoys (po_lan p)\<rparr>"
      proof (cases "Option.bind prof (map_of (c_profiles c))")
        case None
        then show ?thesis using True by (simp add: posture_apply_def stealth_def policy_of_def Let_def policy_of_bind)
      next
        case (Some q)
        then show ?thesis
          using True by (cases "pr_rules q") (simp_all add: posture_apply_def stealth_def policy_of_def Let_def policy_of_bind)
      qed
    qed
  next
    case False
    then show ?thesis
      using nl by (intro same) (auto simp: posture_apply_def policy_of_def scale_detector_def Let_def)
  qed
qed

lemma decoys_from: "r \<in> set (decoys nets) \<Longrightarrow> \<exists>net \<in> set nets. r_from r = Some net"
  by (auto simp: decoys_def)

text \<open>No posture widens the firewall: a port open to everyone under a posture is open to everyone without it; and a network
  that a rule lets in is either let in without the posture or is one of the posture's local networks.\<close>

theorem posture_never_widens:
  assumes "compile (policy_of c prof) = Inr k" "compile (policy_of (posture_apply p c) prof) = Inr k'"
  shows "set (co_tcp k') \<subseteq> set (co_tcp k) \<and> set (co_udp k') \<subseteq> set (co_udp k)
    \<and> (\<forall>r \<in> set (p_rules (policy_of (posture_apply p c) prof)).
         r \<in> set (p_rules (policy_of c prof)) \<or> (\<exists>net \<in> set (po_lan p). r_from r = Some net))"
proof -
  note old = compile_ports [OF assms(1)]
  note new = compile_ports [OF assms(2)]
  have no: "\<not> opens proto r q" if "r \<in> set (decoys (po_lan p))" for proto r q
    using decoys_from [OF that] by (auto simp: opens_def)
  show ?thesis
  proof (cases rule: posture_policy [of p c prof])
    case same
    then show ?thesis using assms by simp
  next
    case closed
    then show ?thesis using old(2) new by auto
  next
    case decoy
    then show ?thesis using old new no decoys_from by (fastforce simp: Un_iff)
  qed
qed

lemma posture_never_widens_witness:
  "\<exists>k k'. compile (policy_of shipped_config None) = Inr k \<and> compile (policy_of (posture_apply stealth_posture shipped_config) None) = Inr k'
    \<and> set (co_tcp k') \<subseteq> set (co_tcp k) \<and> set (co_udp k') \<subseteq> set (co_udp k)"
proof -
  have "validate (posture_apply stealth_posture shipped_config) = Inr ()"
    by (rule posture_apply_ok [OF stealth_posture_valid rules_default])
  then obtain k k' where "compile (policy_of shipped_config None) = Inr k"
    "compile (policy_of (posture_apply stealth_posture shipped_config) None) = Inr k'"
    using compile_ok [OF policy_of_ok [OF rules_default]] compile_ok [OF policy_of_ok] by blast
  with posture_never_widens show ?thesis by blast
qed

end
