(* ===== verification/History.thy ===== *)
theory History
  imports Host
begin

text \<open>
  History and notifications (src/ai-firewall/src/history.rs): the history file of one JSON object per line,
  trimmed to its newest half when it is too large, and the ban notifications, at most one a minute.
  The encoding of an entry belongs to \<open>serde_json\<close>: it is the parameters \<open>enc\<close> and \<open>dec\<close>.
  The file is \<open>None\<close> while it does not exist; a write the file system refuses is an argument.
\<close>

section \<open>The history file\<close>

definition MAX_BYTES :: nat where "MAX_BYTES = 2 * 1024 * 1024"

record entry =
  e_at_unix :: u64
  e_kind :: string
  e_ip :: string
  e_detail :: string

text \<open>\<open>write_atomic\<close> writes the whole new text or leaves the old one.\<close>

definition trim_history :: "bool \<Rightarrow> string option \<Rightarrow> string option" where
  "trim_history write_ok file =
     (case file of
        None \<Rightarrow> None
      | Some text \<Rightarrow>
          let lines = str_lines text;
              keep = join newline (drop (length lines div 2) lines) @ newline
          in if write_ok then Some keep else file)"

definition record_entry ::
  "(entry \<Rightarrow> string option) \<Rightarrow> bool \<Rightarrow> bool \<Rightarrow> u64 \<Rightarrow> string \<Rightarrow> string \<Rightarrow> string \<Rightarrow> string option \<Rightarrow> string option" where
  "record_entry enc trim_ok open_ok now kind ip detail file =
     (let e = \<lparr>e_at_unix = now, e_kind = kind, e_ip = ip, e_detail = detail\<rparr> in
      case enc e of
        None \<Rightarrow> file
      | Some line \<Rightarrow>
          let large = (case file of Some t \<Rightarrow> length t > MAX_BYTES | None \<Rightarrow> False);
              file1 = (if large then trim_history trim_ok file else file)
          in if open_ok then Some (opt_or file1 [] @ line @ newline) else file1)"

definition read_history :: "(string \<Rightarrow> entry option) \<Rightarrow> nat \<Rightarrow> string option \<Rightarrow> entry list" where
  "read_history dec n file =
     (let all_entries = List.map_filter dec (str_lines (opt_or file []))
      in drop (length all_entries - n) all_entries)"

text \<open>A text made of whole lines.\<close>

definition whole :: "string \<Rightarrow> bool" where
  "whole t = (t = [] \<or> of_char (last t) = (10::nat))"

definition one_line :: "string \<Rightarrow> bool" where
  "one_line l = (list_all (\<lambda>c. of_char c \<noteq> (10::nat)) l \<and> (l = [] \<or> of_char (last l) \<noteq> (13::nat)))"

lemma split_on_append_sep:
  "p c \<Longrightarrow> split_on p (a @ c # b) = split_on p a @ split_on p b"
  by (induction a) (auto split: list.splits simp: Cons_eq_append_conv)

lemma split_on_free: "list_all (\<lambda>c. \<not> p c) l \<Longrightarrow> split_on p l = [l]"
  by (induction l) auto

lemma last_split_whole: "whole t \<Longrightarrow> last (split_on (\<lambda>c. of_char c = (10::nat)) t) = []"
proof (cases t rule: rev_cases)
  case (snoc ys y)
  moreover assume "whole t"
  ultimately have "of_char y = (10::nat)" by (simp add: whole_def)
  then show ?thesis using split_on_append_sep [of "\<lambda>c. of_char c = (10::nat)" y ys "[]"] snoc by simp
qed simp

lemma lines_append:
  assumes "whole t" "one_line l"
  shows "str_lines (t @ l @ newline) = str_lines t @ [l]"
proof -
  let ?p = "\<lambda>c. of_char c = (10::nat)"
  have l: "split_on ?p l = [l]" using assms(2) by (intro split_on_free) (simp add: one_line_def)
  have ln: "split_on ?p (l @ newline) = [l, []]"
    using split_on_append_sep [of ?p "char_of (10::nat)" l "[]"] l by (simp add: newline_def)
  have cr: "l \<noteq> [] \<Longrightarrow> of_char (last l) \<noteq> (13::nat)" using assms(2) by (simp add: one_line_def)
  show ?thesis
  proof (cases t rule: rev_cases)
    case Nil
    then show ?thesis using ln cr by (auto simp: str_lines_def)
  next
    case (snoc ys y)
    then have y: "of_char y = (10::nat)" using assms(1) by (simp add: whole_def)
    have a: "split_on ?p t = split_on ?p ys @ [[]]"
      using split_on_append_sep [of ?p y ys "[]"] y snoc by simp
    have "split_on ?p (t @ l @ newline) = split_on ?p ys @ [l, []]"
      using split_on_append_sep [of ?p y ys "l @ newline"] y snoc ln by simp
    with a cr show ?thesis by (auto simp: str_lines_def butlast_append)
  qed
qed

lemma whole_append: "whole (t @ l @ newline)"
  by (simp add: whole_def newline_def)

lemma map_filter_append: "List.map_filter f (xs @ ys) = List.map_filter f xs @ List.map_filter f ys"
  by (simp add: map_filter_def)

text \<open>Recording appends: below the size limit, what is read back afterwards is the newest entries of what was
  there followed by the new one, whatever bound the reader sets. The encoding is assumed to be one line that decodes to the entry.\<close>

theorem record_then_read:
  assumes "enc e = Some line" "dec line = Some e" "one_line line"
    and "whole (opt_or file [])" "length (opt_or file []) \<le> MAX_BYTES"
    and "e = \<lparr>e_at_unix = now, e_kind = kind, e_ip = ip, e_detail = detail\<rparr>"
  shows "read_history dec (Suc n) (record_entry enc t True now kind ip detail file) = read_history dec n file @ [e]"
proof -
  have "\<not> (case file of Some t \<Rightarrow> length t > MAX_BYTES | None \<Rightarrow> False)"
    using assms(5) by (auto split: option.splits)
  then have r: "record_entry enc t True now kind ip detail file = Some (opt_or file [] @ line @ newline)"
    using assms(1,6) by (simp add: record_entry_def)
  have "str_lines (opt_or file [] @ line @ newline) = str_lines (opt_or file []) @ [line]"
    using assms(3,4) by (rule lines_append [rotated])
  moreover have "List.map_filter dec [line] = [e]" using assms(2) by (simp add: map_filter_def)
  ultimately show ?thesis by (simp add: read_history_def r map_filter_append Let_def)
qed

lemma record_then_read_witness:
  "read_history (\<lambda>s. if s = ''x'' then Some \<lparr>e_at_unix = 5, e_kind = ''ban'', e_ip = ''1.2.3.4'', e_detail = []\<rparr> else None) 1
     (record_entry (\<lambda>_. Some ''x'') True True 5 ''ban'' ''1.2.3.4'' [] None)
   = [\<lparr>e_at_unix = 5, e_kind = ''ban'', e_ip = ''1.2.3.4'', e_detail = []\<rparr>]"
proof -
  let ?e = "\<lparr>e_at_unix = 5, e_kind = ''ban'', e_ip = ''1.2.3.4'', e_detail = []\<rparr>"
  have "read_history (\<lambda>s. if s = ''x'' then Some ?e else None) (Suc 0)
     (record_entry (\<lambda>_. Some ''x'') True True 5 ''ban'' ''1.2.3.4'' [] None)
   = read_history (\<lambda>s. if s = ''x'' then Some ?e else None) 0 None @ [?e]"
    by (rule record_then_read) (simp_all add: whole_def MAX_BYTES_def, code_simp)
  then show ?thesis by (simp add: read_history_def)
qed

section \<open>The desktop user\<close>

text \<open>\<open>run_user\<close> lists /run/user in the directory's order; \<open>h_net_dir\<close> style questions about a session bus are answered by \<open>bus\<close>.
  The outer option of \<open>passwd_name\<close> is the code's \<open>?\<close>.\<close>

definition passwd_name :: "string \<Rightarrow> u32 \<Rightarrow> string option" where
  "passwd_name passwd uid =
     map_option hd (List.find (\<lambda>f. length f > 2 \<and> f ! 2 = show_word uid)
       (map (split_on (\<lambda>c. c = CHR '':'')) (str_lines passwd)))"

definition desktop_user :: "string list option \<Rightarrow> (u32 \<Rightarrow> bool) \<Rightarrow> string option \<Rightarrow> (string \<times> u32) option" where
  "desktop_user run_user bus passwd = do {
     names \<leftarrow> run_user;
     (let uids = sort (filter (\<lambda>uid. uid \<ge> 1000 \<and> bus uid) (List.map_filter parse_u32 names)) in
      case uids of
        [] \<Rightarrow> None
      | uid # _ \<Rightarrow> do {
          p \<leftarrow> passwd;
          name \<leftarrow> passwd_name p uid;
          Some (name, uid)
        })
   }"

text \<open>The command line \<open>notify\<close> starts, if any.\<close>

definition notify_args :: "(string \<times> u32) option \<Rightarrow> string \<Rightarrow> string \<Rightarrow> string list option" where
  "notify_args user title body =
     (case user of
        None \<Rightarrow> None
      | Some (name, uid) \<Rightarrow>
          Some [''runuser'', ''-u'', name, ''--'', ''env'',
            ''DBUS_SESSION_BUS_ADDRESS=unix:path=/run/user/'' @ show_word uid @ ''/bus'',
            ''notify-send'', ''-a'', ''ai-firewall'', ''-i'', ''security-high'', title, body])"

section \<open>Ban notifications\<close>

definition NOTE_INTERVAL_SECS :: u64 where "NOTE_INTERVAL_SECS = 60"
definition NOTE_SHOWN :: nat where "NOTE_SHOWN = 3"

text \<open>\<open>count\<close> is a \<open>usize\<close>; it never gets near its bound, one ban adding one.\<close>

record ban_notes =
  bn_shown :: "(string \<times> string) list"
  bn_count :: nat
  bn_last_sent :: "u64 option"

definition bn_default :: ban_notes where
  "bn_default = \<lparr>bn_shown = [], bn_count = 0, bn_last_sent = None\<rparr>"

definition bn_push :: "string \<Rightarrow> string \<Rightarrow> ban_notes \<Rightarrow> ban_notes" where
  "bn_push ip reason n =
     (let n1 = (if length (bn_shown n) < NOTE_SHOWN then n\<lparr>bn_shown := bn_shown n @ [(ip, reason)]\<rparr> else n)
      in n1\<lparr>bn_count := bn_count n1 + 1\<rparr>)"

text \<open>The outer option is the panic of \<open>shown.remove(0)\<close> on an empty list, and of the subtraction of the named from the counted.\<close>

definition note_text :: "(string \<times> string) list \<Rightarrow> nat \<Rightarrow> (string \<times> string) option" where
  "note_text shown count =
     (if count = 1 then
        (case shown of [] \<Rightarrow> None | (ip, reason) # _ \<Rightarrow> Some (''Banned '' @ ip, reason))
      else if count < length shown then None
      else
        let list = map (\<lambda>(ip, r). ip @ '': '' @ r) shown;
            more = count - length shown;
            more_text = (if more > 0 then newline @ ''+'' @ show_nat more @ '' more'' else [])
        in Some (''Banned '' @ show_nat count @ '' sources'', join newline list @ more_text))"

definition bn_take :: "u64 \<Rightarrow> ban_notes \<Rightarrow> (ban_notes \<times> (string \<times> string) option) option" where
  "bn_take now n =
     (if bn_count n = 0 \<or> (case bn_last_sent n of Some t \<Rightarrow> sat_sub now t < NOTE_INTERVAL_SECS | None \<Rightarrow> False)
      then Some (n, None)
      else do {
        note \<leftarrow> note_text (bn_shown n) (bn_count n);
        Some (n\<lparr>bn_shown := [], bn_count := 0, bn_last_sent := Some now\<rparr>, Some note)
      })"

text \<open>\<open>flush\<close> with the clock's reading; the notification is appended to what was sent so far.\<close>

datatype note_event = N_Ban string string | N_Flush u64

definition bn_flush ::
  "u64 \<Rightarrow> ban_notes \<times> (u64 \<times> string \<times> string) list \<Rightarrow> (ban_notes \<times> (u64 \<times> string \<times> string) list) option" where
  "bn_flush now s = do {
     (n, note) \<leftarrow> bn_take now (fst s);
     Some (n, case note of Some b \<Rightarrow> snd s @ [(now, b)] | None \<Rightarrow> snd s)
   }"

definition note_step ::
  "note_event \<Rightarrow> (ban_notes \<times> (u64 \<times> string \<times> string) list) option
   \<Rightarrow> (ban_notes \<times> (u64 \<times> string \<times> string) list) option" where
  "note_step ev s = do {
     (n, sent) \<leftarrow> s;
     case ev of N_Ban ip r \<Rightarrow> Some (bn_push ip r n, sent) | N_Flush now \<Rightarrow> bn_flush now (n, sent)
   }"

text \<open>The specification: every ban is kept until it is notified, and a notification describes all of them.\<close>

record note_spec =
  ns_pending :: "(string \<times> string) list"
  ns_last :: "u64 option"
  ns_sent :: "(u64 \<times> (string \<times> string) list) list"

definition spec_step :: "note_event \<Rightarrow> note_spec \<Rightarrow> note_spec" where
  "spec_step ev s =
     (case ev of
        N_Ban ip r \<Rightarrow> s\<lparr>ns_pending := ns_pending s @ [(ip, r)]\<rparr>
      | N_Flush now \<Rightarrow>
          if ns_pending s \<noteq> [] \<and> (case ns_last s of Some t \<Rightarrow> unat t + 60 \<le> unat now | None \<Rightarrow> True)
          then s\<lparr>ns_pending := [], ns_last := Some now, ns_sent := ns_sent s @ [(now, ns_pending s)]\<rparr>
          else s)"

definition spec_init :: note_spec where
  "spec_init = \<lparr>ns_pending = [], ns_last = None, ns_sent = []\<rparr>"

definition describes :: "u64 \<times> string \<times> string \<Rightarrow> u64 \<times> (string \<times> string) list \<Rightarrow> bool" where
  "describes m b = (fst m = fst b \<and> note_text (take 3 (snd b)) (length (snd b)) = Some (snd m))"

definition note_rel :: "(ban_notes \<times> (u64 \<times> string \<times> string) list) option \<Rightarrow> note_spec \<Rightarrow> bool" where
  "note_rel c s = (\<exists>n sent. c = Some (n, sent) \<and> bn_shown n = take 3 (ns_pending s) \<and> bn_count n = length (ns_pending s)
     \<and> bn_last_sent n = ns_last s \<and> list_all2 describes sent (ns_sent s))"

lemma note_text_total: "xs \<noteq> [] \<Longrightarrow> \<exists>m. note_text (take 3 xs) (length xs) = Some m"
  by (cases xs) (auto simp: note_text_def Let_def split: prod.splits)

lemma due_iff: "sat_sub now t < NOTE_INTERVAL_SECS \<longleftrightarrow> unat now < unat t + 60"
  by (auto simp: NOTE_INTERVAL_SECS_def word_less_nat_alt unat_sat_sub)

lemma note_rel_step: "note_rel c s \<Longrightarrow> note_rel (note_step ev c) (spec_step ev s)"
proof -
  assume "note_rel c s"
  then obtain n sent where c: "c = Some (n, sent)" and r: "bn_shown n = take 3 (ns_pending s)"
    "bn_count n = length (ns_pending s)" "bn_last_sent n = ns_last s" "list_all2 describes sent (ns_sent s)"
    by (auto simp: note_rel_def)
  show ?thesis
  proof (cases ev)
    case (N_Ban ip reason)
    with c r show ?thesis
      by (auto simp: note_rel_def note_step_def spec_step_def bn_push_def NOTE_SHOWN_def Let_def)
  next
    case (N_Flush now)
    show ?thesis
    proof (cases "ns_pending s \<noteq> [] \<and> (case ns_last s of Some t \<Rightarrow> unat t + 60 \<le> unat now | None \<Rightarrow> True)")
      case True
      obtain m where m: "note_text (take 3 (ns_pending s)) (length (ns_pending s)) = Some m"
        using note_text_total True by blast
      have due: "\<not> (bn_count n = 0 \<or> (case bn_last_sent n of Some t \<Rightarrow> sat_sub now t < NOTE_INTERVAL_SECS | None \<Rightarrow> False))"
        using True r by (auto simp: due_iff split: option.splits)
      have "describes (now, m) (now, ns_pending s)" using m by (simp add: describes_def)
      with True due m c r N_Flush show ?thesis
        by (simp add: note_rel_def note_step_def spec_step_def bn_flush_def bn_take_def list_all2_appendI)
    next
      case False
      then have "bn_count n = 0 \<or> (case bn_last_sent n of Some t \<Rightarrow> sat_sub now t < NOTE_INTERVAL_SECS | None \<Rightarrow> False)"
        using r by (auto simp: due_iff split: option.splits)
      with False c r N_Flush show ?thesis
        by (auto simp: note_rel_def note_step_def spec_step_def bn_flush_def bn_take_def)
    qed
  qed
qed

text \<open>Sent notifications are a minute apart and together with what is pending they name every ban once, in order.\<close>

definition note_inv :: "note_spec \<Rightarrow> bool" where
  "note_inv s = (sorted_wrt (\<lambda>a b. unat (fst a) + 60 \<le> unat (fst b)) (ns_sent s)
     \<and> ns_last s = (if ns_sent s = [] then None else Some (fst (last (ns_sent s)))))"

lemma note_inv_step: "note_inv s \<Longrightarrow> note_inv (spec_step ev s)"
proof -
  assume i: "note_inv s"
  show ?thesis
  proof (cases ev)
    case (N_Ban ip r)
    with i show ?thesis by (simp add: note_inv_def spec_step_def)
  next
    case (N_Flush now)
    have far: "unat (fst a) + 60 \<le> unat now" if "a \<in> set (ns_sent s)"
      "case ns_last s of Some t \<Rightarrow> unat t + 60 \<le> unat now | None \<Rightarrow> True" for a
    proof -
      obtain ys y where ys: "ns_sent s = ys @ [y]" using \<open>a \<in> set (ns_sent s)\<close> by (cases "ns_sent s" rule: rev_cases) auto
      with i that have "unat (fst y) + 60 \<le> unat now" by (auto simp: note_inv_def)
      moreover have "a = y \<or> unat (fst a) + 60 \<le> unat (fst y)"
        using i ys that by (auto simp: note_inv_def sorted_wrt_append)
      ultimately show ?thesis by auto
    qed
    with i N_Flush show ?thesis by (auto simp: note_inv_def spec_step_def sorted_wrt_append)
  qed
qed

interpretation notes_run: invariant_run spec_step note_inv
  by unfold_locales (rule note_inv_step)

lemma note_run_rel: "note_rel c s \<Longrightarrow> note_rel (fold note_step es c) (fold spec_step es s)"
  by (induction es arbitrary: c s) (simp_all add: note_rel_step)

definition bans_in :: "note_event list \<Rightarrow> (string \<times> string) list" where
  "bans_in es = List.map_filter (\<lambda>e. case e of N_Ban ip r \<Rightarrow> Some (ip, r) | N_Flush _ \<Rightarrow> None) es"

lemma spec_all_bans:
  "concat (map snd (ns_sent (fold spec_step es s))) @ ns_pending (fold spec_step es s)
   = concat (map snd (ns_sent s)) @ ns_pending s @ bans_in es"
proof (induction es arbitrary: s)
  case (Cons e es)
  then show ?case by (cases e) (auto simp: spec_step_def bans_in_def map_filter_simps)
qed (simp add: bans_in_def map_filter_simps)

text \<open>C39: whatever the bans and the clock, no step of the notifier panics, and the bounded notifier (three names and a counter) refines the one that
  remembers every ban (\<open>spec_step\<close>): it sends at exactly the same flushes, which are those with a ban pending and the last notification at least sixty
  seconds ago or none sent yet, and each message describes all the bans since the one before. So successive notifications are at least sixty
  seconds apart, and the batches in order followed by what is still pending are all the bans there were.\<close>

theorem notes_refine:
  "\<exists>n sent s. fold note_step es (Some (bn_default, [])) = Some (n, sent)
    \<and> s = fold spec_step es spec_init
    \<and> list_all2 describes sent (ns_sent s)
    \<and> bn_shown n = take 3 (ns_pending s) \<and> bn_count n = length (ns_pending s) \<and> bn_last_sent n = ns_last s
    \<and> sorted_wrt (\<lambda>a b. unat (fst a) + 60 \<le> unat (fst b)) (ns_sent s)
    \<and> concat (map snd (ns_sent s)) @ ns_pending s = bans_in es"
proof -
  have "note_rel (Some (bn_default, [])) spec_init"
    by (simp add: note_rel_def bn_default_def spec_init_def)
  from note_run_rel [OF this, of es] have rel: "note_rel (fold note_step es (Some (bn_default, []))) (fold spec_step es spec_init)" .
  have inv: "note_inv (fold spec_step es spec_init)"
    by (rule notes_run.inv_run) (simp add: note_inv_def spec_init_def)
  have all_bans: "concat (map snd (ns_sent (fold spec_step es spec_init))) @ ns_pending (fold spec_step es spec_init) = bans_in es"
    using spec_all_bans [of es spec_init] by (simp add: spec_init_def)
  show ?thesis using rel inv all_bans unfolding note_rel_def note_inv_def by blast
qed

end
