(* ===== verification/Links.thy ===== *)
theory Links
  imports State
begin

text \<open>
  Pinned attachments (src/ai-firewall/src/links.rs). A program stays attached as long as its link is pinned; the daemon
  remembers beside each pin, in a sidecar file, the interface index and mode it was made for. \<open>links\<close> holds the names in the pin directory and
  the sidecar files; what the kernel and the library answer to attaching, swapping and pinning is the record \<open>link_env\<close>, with errors
  as their texts.
\<close>

section \<open>Pins and sidecars\<close>

record links =
  lk_dir :: "string list"
  lk_meta :: "string \<rightharpoonup> string"

definition META_DIR :: string where "META_DIR = ''/var/lib/ai-firewall/links''"

definition pin_name :: "string \<Rightarrow> string \<Rightarrow> string" where
  "pin_name kind iface = ''link-'' @ kind @ ''-'' @ iface"

definition meta_path :: "string \<Rightarrow> string \<Rightarrow> string" where
  "meta_path kind iface = META_DIR @ ''/link-'' @ kind @ ''-'' @ iface @ ''.meta''"

definition read_meta :: "string \<Rightarrow> string \<Rightarrow> links \<Rightarrow> (u32 \<times> string) option" where
  "read_meta kind iface l = do {
     t \<leftarrow> lk_meta l (meta_path kind iface);
     (idx, mode) \<leftarrow> split_once (CHR '' '') (trim t);
     i \<leftarrow> parse_u32 idx;
     Some (i, mode)
   }"

definition write_meta :: "bool \<Rightarrow> string \<Rightarrow> string \<Rightarrow> u32 \<Rightarrow> string \<Rightarrow> links \<Rightarrow> links" where
  "write_meta ok kind iface idx mode l =
     (if ok then l\<lparr>lk_meta := (lk_meta l)(meta_path kind iface \<mapsto> show_word idx @ '' '' @ mode @ newline)\<rparr> else l)"

definition pinned :: "string \<Rightarrow> string \<Rightarrow> links \<Rightarrow> bool" where
  "pinned kind iface l = (pin_name kind iface \<in> set (lk_dir l))"

definition unpin :: "string \<Rightarrow> string \<Rightarrow> links \<Rightarrow> links" where
  "unpin kind iface l =
     l\<lparr>lk_dir := filter (\<lambda>n. n \<noteq> pin_name kind iface) (lk_dir l), lk_meta := (lk_meta l)(meta_path kind iface := None)\<rparr>"

definition pin :: "string \<Rightarrow> string \<Rightarrow> links \<Rightarrow> links" where
  "pin kind iface l = l\<lparr>lk_dir := hs_insert (pin_name kind iface) (lk_dir l)\<rparr>"

definition pinned_ifaces :: "links \<Rightarrow> string list" where
  "pinned_ifaces l =
     List.map_filter (\<lambda>n. case strip_prefix ''link-xdp-'' n of
         Some i \<Rightarrow> if ends_with ''.meta'' i then None else Some i
       | None \<Rightarrow> None) (lk_dir l)"

definition unpin_both :: "string \<Rightarrow> links \<Rightarrow> links" where
  "unpin_both iface l = unpin ''tc'' iface (unpin ''xdp'' iface l)"

definition unpin_all :: "links \<Rightarrow> links \<times> nat" where
  "unpin_all l = (let ifaces = pinned_ifaces l in (fold unpin_both ifaces l, length ifaces))"

section \<open>Attaching\<close>

text \<open>Attempt number \<open>i\<close> at an operation answers \<open>f i\<close>; a busy answer is retried at most 30 times.\<close>

function retry_busy :: "(nat \<Rightarrow> string + 'a) \<Rightarrow> nat \<Rightarrow> string + 'a" where
  "retry_busy f tries =
     (case f tries of
        Inl e \<Rightarrow> if tries < 30 \<and> contains_str ''busy'' e then retry_busy f (tries + 1) else Inl e
      | Inr x \<Rightarrow> Inr x)"
  by pat_completeness auto
termination
  by (relation "measure (\<lambda>(f, tries). 30 - tries)") auto

declare retry_busy.simps [simp del]

datatype xdp_mode = Driver | Skb

record link_env =
  le_swap :: "string + unit"
  le_take_swapped :: "string + unit"
  le_attach_xdp :: "xdp_mode \<Rightarrow> nat \<Rightarrow> string + unit"
  le_attach_tc :: "nat \<Rightarrow> string + unit"
  le_take :: "string + unit"
  le_fd :: "string + unit"
  le_pin :: "string + unit"
  le_meta :: bool

definition lift_err :: "string \<Rightarrow> string + 'a \<Rightarrow> error + 'a" where
  "lift_err what r = (case r of Inl e \<Rightarrow> Inl (Ctx what (Msg e)) | Inr x \<Rightarrow> Inr x)"

text \<open>The common end of both: take the link, turn it into a file descriptor link, pin it, record it.\<close>

definition pin_new :: "link_env \<Rightarrow> string \<Rightarrow> string \<Rightarrow> u32 \<Rightarrow> string \<Rightarrow> links \<Rightarrow> links \<times> (error + unit)" where
  "pin_new e kind iface idx mode l =
     (case rbind (lift_err ''link'' (le_take e)) (\<lambda>_.
           rbind (lift_err ''kernel attached without a bpf link'' (le_fd e)) (\<lambda>_. lift_err ''pinning'' (le_pin e))) of
        Inl x \<Rightarrow> (l, Inl x)
      | Inr _ \<Rightarrow> (write_meta (le_meta e) kind iface idx mode (pin kind iface l), Inr ()))"

definition attach_xdp :: "link_env \<Rightarrow> string \<Rightarrow> u32 \<Rightarrow> links \<Rightarrow> links \<times> (error + string \<times> bool)" where
  "attach_xdp e iface idx l =
     (let reuse = (if pinned ''xdp'' iface l
                   then (case read_meta ''xdp'' iface l of
                           Some (i, mode) \<Rightarrow> if i = idx \<and> le_swap e = Inr () then Some mode else None
                         | None \<Rightarrow> None)
                   else None)
      in case reuse of
           Some mode \<Rightarrow> (l, rbind (lift_err ''link'' (le_take_swapped e)) (\<lambda>_. Inr (mode, True)))
         | None \<Rightarrow>
             (let l1 = (if pinned ''xdp'' iface l then unpin ''xdp'' iface l else l);
                  attached = (case retry_busy (le_attach_xdp e Driver) 0 of
                      Inr _ \<Rightarrow> Inr ''native''
                    | Inl _ \<Rightarrow> rbind (lift_err (''attaching XDP to '' @ iface) (retry_busy (le_attach_xdp e Skb) 0)) (\<lambda>_. Inr ''generic''))
              in case attached of
                   Inl x \<Rightarrow> (l1, Inl x)
                 | Inr mode \<Rightarrow>
                     (let (l2, r) = pin_new e ''xdp'' iface idx mode l1 in (l2, rbind r (\<lambda>_. Inr (mode, False))))))"

definition attach_tc :: "link_env \<Rightarrow> string \<Rightarrow> u32 \<Rightarrow> links \<Rightarrow> links \<times> (error + unit)" where
  "attach_tc e iface idx l =
     (let reuse = (pinned ''tc'' iface l
                   \<and> (case read_meta ''tc'' iface l of Some (i, _) \<Rightarrow> i = idx | None \<Rightarrow> False)
                   \<and> le_swap e = Inr ())
      in if reuse then (l, lift_err ''link'' (le_take_swapped e))
         else
           (let l1 = (if pinned ''tc'' iface l then unpin ''tc'' iface l else l)
            in case lift_err (''attaching egress program to '' @ iface) (retry_busy (le_attach_tc e) 0) of
                 Inl x \<Rightarrow> (l1, Inl x)
               | Inr _ \<Rightarrow> pin_new e ''tc'' iface idx ''tcx'' l1))"

section \<open>Facts\<close>

lemma pin_simps [simp]:
  "pinned kind iface (pin kind iface l)"
  "\<not> pinned kind iface (unpin kind iface l)"
  "pinned kind iface (write_meta ok k i idx mode l) = pinned kind iface l"
  "lk_dir (write_meta ok k i idx mode l) = lk_dir l"
  "lk_meta (pin k i l) = lk_meta l"
  by (simp_all add: pinned_def pin_def unpin_def write_meta_def)

text \<open>A retried operation ends: it answers what some attempt among the first 31 answered, and every attempt before that one was refused as busy.\<close>

theorem retry_busy_first:
  "\<exists>n \<le> 30. retry_busy f 0 = f n \<and> (\<forall>i < n. \<exists>e. f i = Inl e \<and> contains_str ''busy'' e)
    \<and> (n = 30 \<or> (case f n of Inl e \<Rightarrow> \<not> contains_str ''busy'' e | Inr _ \<Rightarrow> True))"
proof -
  have "t \<le> 30 \<Longrightarrow> \<exists>n \<le> 30. t \<le> n \<and> retry_busy f t = f n \<and> (\<forall>i. t \<le> i \<and> i < n \<longrightarrow> (\<exists>e. f i = Inl e \<and> contains_str ''busy'' e))
      \<and> (n = 30 \<or> (case f n of Inl e \<Rightarrow> \<not> contains_str ''busy'' e | Inr _ \<Rightarrow> True))" for t
  proof (induction f t rule: retry_busy.induct)
    case (1 f t)
    show ?case
    proof (cases "\<exists>e. f t = Inl e \<and> t < 30 \<and> contains_str ''busy'' e")
      case True
      then obtain e where e: "f t = Inl e" "t < 30" "contains_str ''busy'' e" by blast
      with 1 obtain n where "n \<le> 30" "t + 1 \<le> n" "retry_busy f (t + 1) = f n"
        "\<forall>i. t + 1 \<le> i \<and> i < n \<longrightarrow> (\<exists>e. f i = Inl e \<and> contains_str ''busy'' e)"
        "n = 30 \<or> (case f n of Inl e \<Rightarrow> \<not> contains_str ''busy'' e | Inr _ \<Rightarrow> True)"
        by auto
      moreover have "retry_busy f t = retry_busy f (t + 1)" using e by (subst retry_busy.simps) simp
      moreover have "t \<le> i \<longleftrightarrow> i = t \<or> t + 1 \<le> i" for i by auto
      ultimately show ?thesis using e by (intro exI [of _ n]) auto
    next
      case False
      then have "retry_busy f t = f t" by (subst retry_busy.simps) (auto split: sum.splits)
      with False 1(2) show ?thesis by (intro exI [of _ t]) (auto split: sum.splits)
    qed
  qed
  from this [of 0] show ?thesis by auto
qed

lemma retry_busy_first_witness:
  "retry_busy (\<lambda>i. if i < 2 then Inl ''device busy'' else Inr i) 0 = Inr 2"
proof -
  define f :: "nat \<Rightarrow> string + nat" where "f = (\<lambda>i. if i < 2 then Inl ''device busy'' else Inr i)"
  have busy: "contains_str ''busy'' ''device busy''" by code_simp
  obtain n where n: "retry_busy f 0 = f n" "\<forall>i < n. \<exists>e. f i = Inl e \<and> contains_str ''busy'' e"
    "n = 30 \<or> (case f n of Inl e \<Rightarrow> \<not> contains_str ''busy'' e | Inr _ \<Rightarrow> True)"
    using retry_busy_first [of f] by blast
  have "\<not> 2 < n" using n(2) by (auto simp: f_def)
  moreover have "\<not> n < 2" using n(3) busy by (auto simp: f_def split: if_splits)
  ultimately have "n = 2" by simp
  with n(1) show ?thesis by (simp add: f_def)
qed

lemma trim_line: "s \<noteq> [] \<Longrightarrow> \<not> is_ws (hd s) \<Longrightarrow> \<not> is_ws (last s) \<Longrightarrow> trim (s @ newline) = s"
proof -
  assume s: "s \<noteq> []" "\<not> is_ws (hd s)" "\<not> is_ws (last s)"
  have nl: "is_ws (char_of (10::nat))" by (simp add: is_ws_def)
  have "dropWhile is_ws (s @ newline) = s @ newline" using s by (cases s) auto
  moreover have "dropWhile is_ws (rev (s @ newline)) = rev s"
    using s nl by (cases s rule: rev_cases) (simp_all add: newline_def)
  ultimately show ?thesis by (simp add: trim_def trim_by_def trim_start_by_def trim_end_by_def)
qed

lemma read_write_meta:
  assumes "mode \<noteq> []" "\<not> is_ws (last mode)"
  shows "read_meta kind iface (write_meta True kind iface idx mode l) = Some (idx, mode)"
proof -
  let ?n = "show_word idx"
  have n: "?n \<noteq> []" "list_all is_digit ?n" using show_nat_digits [of "unat idx"] by (auto simp: show_word_def)
  then have d: "\<not> is_ws c" if "c \<in> set ?n" for c using that digit_not_ws by (auto simp: list_all_iff)
  have "is_ws (CHR '' '')" by (simp add: is_ws_def)
  then have h: "\<not> is_ws (hd ?n)" "CHR '' '' \<notin> set ?n" using d n(1) by auto
  have "trim ((?n @ '' '' @ mode) @ newline) = ?n @ '' '' @ mode"
    by (rule trim_line) (use n h assms in auto)
  moreover have "split_once (CHR '' '') (?n @ '' '' @ mode) = Some (?n, mode)"
    using split_once_append [OF h(2), of mode] by simp
  moreover have "parse_u32 ?n = Some idx"
    using parse_show_nat [of "unat idx" 4294967295] unat_lt2p32 [of idx] by (simp add: parse_u32_def show_word_def)
  ultimately show ?thesis by (simp add: read_meta_def write_meta_def)
qed

lemma pin_new_ok:
  assumes "pin_new e kind iface idx mode l = (l', Inr u)" "mode \<noteq> []" "\<not> is_ws (last mode)"
  shows "pinned kind iface l' \<and> (le_meta e \<longrightarrow> read_meta kind iface l' = Some (idx, mode))"
  using assms read_write_meta [OF assms(2,3)] by (auto simp: pin_new_def split: sum.splits)

lemma pin_new_err: "pin_new e kind iface idx mode l = (l', Inl x) \<Longrightarrow> l' = l"
  by (auto simp: pin_new_def split: sum.splits)

text \<open>When attaching reports success the filter is pinned, and the sidecar, where it could be written, says for which
  interface index and in which mode, which is what the next start needs to take it over; a takeover leaves the pin it found and
  happens only for the same interface index. When it reports that no program could be attached, no stale pin is left to block the next attempt.\<close>

theorem attach_xdp_pins:
  assumes "attach_xdp e iface idx l = (l', r)" "le_take_swapped e = Inr ()"
  shows "case r of
      Inr (mode, reused) \<Rightarrow> pinned ''xdp'' iface l' \<and> (le_meta e \<or> reused \<longrightarrow> read_meta ''xdp'' iface l' = Some (idx, mode))
        \<and> (reused \<longrightarrow> l' = l)
    | Inl _ \<Rightarrow> \<not> pinned ''xdp'' iface l'"
proof -
  define l1 where "l1 = (if pinned ''xdp'' iface l then unpin ''xdp'' iface l else l)"
  have l1: "\<not> pinned ''xdp'' iface l1" by (simp add: l1_def)
  have ws: "\<not> is_ws (CHR ''e'')" "\<not> is_ws (CHR ''c'')" by code_simp+
  show ?thesis
  proof (cases "pinned ''xdp'' iface l \<and> (\<exists>mode. read_meta ''xdp'' iface l = Some (idx, mode)) \<and> le_swap e = Inr ()")
    case True
    then show ?thesis using assms by (auto simp: attach_xdp_def Let_def lift_err_def)
  next
    case False
    define attached where "attached = (case retry_busy (le_attach_xdp e Driver) 0 of
                      Inr _ \<Rightarrow> Inr ''native''
                    | Inl _ \<Rightarrow> rbind (lift_err (''attaching XDP to '' @ iface) (retry_busy (le_attach_xdp e Skb) 0)) (\<lambda>_. Inr ''generic''))"
    have eq: "attach_xdp e iface idx l = (case attached of
                   Inl x \<Rightarrow> (l1, Inl x)
                 | Inr mode \<Rightarrow>
                     (let (l2, r) = pin_new e ''xdp'' iface idx mode l1 in (l2, rbind r (\<lambda>_. Inr (mode, False)))))"
      using False unfolding attach_xdp_def Let_def attached_def [symmetric] l1_def [symmetric]
      by (auto split: option.splits prod.splits)
    have modes: "attached = Inr mode \<Longrightarrow> mode \<noteq> [] \<and> \<not> is_ws (last mode)" for mode
      using ws by (auto simp: attached_def rbind_Inr_iff split: sum.splits)
    show ?thesis
    proof (cases attached)
      case (Inl x)
      then show ?thesis using assms(1) eq l1 by auto
    next
      case (Inr mode)
      obtain l2 q where p: "pin_new e ''xdp'' iface idx mode l1 = (l2, q)" by (metis surj_pair)
      then have r: "l' = l2" "r = rbind q (\<lambda>_. Inr (mode, False))" using assms(1) eq Inr by auto
      show ?thesis
      proof (cases q)
        case (Inl x)
        with pin_new_err [of e "''xdp''" iface idx mode l1 l2 x] p have "l2 = l1" by simp
        with Inl show ?thesis using l1 r by simp
      next
        case (Inr u)
        then show ?thesis using pin_new_ok [of e "''xdp''" iface idx mode l1 l2 u] p r modes \<open>attached = Inr mode\<close> by auto
      qed
    qed
  qed
qed

definition fresh_env :: link_env where
  "fresh_env = \<lparr>le_swap = Inr (), le_take_swapped = Inr (),
     le_attach_xdp = (\<lambda>m _. if m = Driver then Inl ''not supported'' else Inr ()), le_attach_tc = (\<lambda>_. Inr ()),
     le_take = Inr (), le_fd = Inr (), le_pin = Inr (), le_meta = True\<rparr>"

lemma attach_xdp_pins_witness:
  "\<exists>l'. attach_xdp fresh_env ''wlan0'' 3 \<lparr>lk_dir = [], lk_meta = Map.empty\<rparr> = (l', Inr (''generic'', False))
    \<and> pinned ''xdp'' ''wlan0'' l' \<and> read_meta ''xdp'' ''wlan0'' l' = Some (3, ''generic'')"
proof -
  have "contains_str ''busy'' ''not supported'' = False" by code_simp
  then have "\<exists>l'. attach_xdp fresh_env ''wlan0'' 3 \<lparr>lk_dir = [], lk_meta = Map.empty\<rparr> = (l', Inr (''generic'', False))"
    by (simp add: attach_xdp_def pinned_def fresh_env_def retry_busy.simps [of _ 0] lift_err_def pin_new_def)
  then obtain l' where l': "attach_xdp fresh_env ''wlan0'' 3 \<lparr>lk_dir = [], lk_meta = Map.empty\<rparr> = (l', Inr (''generic'', False))" ..
  have "le_take_swapped fresh_env = Inr ()" "le_meta fresh_env" by (simp_all add: fresh_env_def)
  with attach_xdp_pins [OF l'] l' show ?thesis by simp
qed

section \<open>Removing everything\<close>

lemma dir_unpin_both: "set (lk_dir (unpin_both iface l)) = set (lk_dir l) - {pin_name ''xdp'' iface, pin_name ''tc'' iface}"
  by (auto simp: unpin_both_def unpin_def)

lemma dir_unpin_fold:
  "set (lk_dir (fold unpin_both is l)) = set (lk_dir l) - (pin_name ''xdp'' ` set is \<union> pin_name ''tc'' ` set is)"
  by (induction "is" arbitrary: l) (auto simp: dir_unpin_both)

lemma strip_prefix_Some: "strip_prefix p s = Some r \<longleftrightarrow> s = p @ r"
  by (auto simp: strip_prefix_def starts_with_def) (metis append_take_drop_id)

lemma pinned_ifaces_set: "i \<in> set (pinned_ifaces l) \<longleftrightarrow> pin_name ''xdp'' i \<in> set (lk_dir l) \<and> \<not> ends_with ''.meta'' i"
proof -
  have n: "strip_prefix ''link-xdp-'' n = Some i \<longleftrightarrow> n = pin_name ''xdp'' i" for n
    unfolding strip_prefix_Some pin_name_def by simp
  have "i \<in> set (pinned_ifaces l) \<longleftrightarrow> (\<exists>n \<in> set (lk_dir l). strip_prefix ''link-xdp-'' n = Some i \<and> \<not> ends_with ''.meta'' i)"
    unfolding pinned_ifaces_def set_map_filter by (auto split: option.splits if_splits)
  then show ?thesis unfolding n by blast
qed

text \<open>\<open>ai-firewall off\<close> really stops the filter: after it no interface has a pinned XDP program.\<close>

theorem unpin_all_stops:
  "pinned_ifaces (fst (unpin_all l)) = []"
proof -
  have "i \<notin> set (pinned_ifaces (fst (unpin_all l)))" for i
    unfolding pinned_ifaces_set [of i "fst (unpin_all l)"]
    using pinned_ifaces_set [of i l] by (auto simp: unpin_all_def Let_def dir_unpin_fold)
  then have "set (pinned_ifaces (fst (unpin_all l))) = {}" by (metis equals0I)
  then show ?thesis by (simp only: set_empty)
qed

text \<open>It does not remove every pinned link, though: an egress program pinned on an interface where the XDP program could not be attached
  (a start that got half way) survives it.\<close>

theorem unpin_all_keeps_tc:
  "let l = fst (attach_tc fresh_env ''eth0'' 2 \<lparr>lk_dir = [], lk_meta = Map.empty\<rparr>)
   in pinned ''tc'' ''eth0'' l \<and> unpin_all l = (l, 0)"
  by (simp add: attach_tc_def fresh_env_def pinned_def retry_busy.simps [of _ 0] lift_err_def pin_new_def unpin_all_def
      pinned_ifaces_def write_meta_def pin_def hs_insert_def pin_name_def map_filter_simps strip_prefix_def starts_with_def)

end
