(* ===== verification/Daemon.thy ===== *)
theory Daemon
  imports Feeds Posture History Links
begin

text \<open>
  The daemon's state and how a config is put into force (src/ai-firewall/src/daemon.rs: \<open>Shared\<close>, \<open>Kernel\<close>, \<open>apply_config\<close>,
  \<open>apply_feeds\<close>). \<open>world\<close> holds the maps the daemon writes, what it remembers of them, and the state it shares with the event reader. A step is a
  function from the world to the world and an error: what was done before a failure stays done.
\<close>

section \<open>State\<close>

definition RECENT_BANS :: nat where "RECENT_BANS = 20"

record recent_ban =
  rb_ip :: src
  rb_reason :: string
  rb_ports :: string
  rb_score :: f32
  rb_secs :: u64
  rb_strikes :: u32
  rb_at_unix :: u64
  rb_enforced :: bool

record shared =
  sh_detector :: detector
  sh_blocklist :: blocklist
  sh_records :: "(src, ban_record) hmap"
  sh_enforce :: bool
  sh_recent :: "recent_ban list"
  sh_dirty :: bool
  sh_notify_bans :: bool
  sh_notes :: ban_notes

record kernel_maps =
  km_tcp :: "u32 \<rightharpoonup> u8"
  km_udp :: "u32 \<rightharpoonup> u8"
  km_open_tcp :: "u16 list"
  km_open_udp :: "u16 list"
  km_from_tcp :: trie
  km_from_udp :: trie
  km_from_tcp_keys :: "(u32 \<times> rule_key) list"
  km_from_udp_keys :: "(u32 \<times> rule_key) list"
  km_rate :: "u32 \<rightharpoonup> u32"
  km_rate_set :: "(u16, u32) hmap"
  km_feeds :: trie
  km_feed_nets :: "(u32 \<times> u32) list"

record world =
  w_settings :: "u32 \<rightharpoonup> u32"
  w_maps :: kernel_maps
  w_shared :: shared

text \<open>What the array maps hold when the program is loaded.\<close>

definition maps_init :: kernel_maps where
  "maps_init = \<lparr>km_tcp = Map.empty, km_udp = Map.empty, km_open_tcp = [], km_open_udp = [], km_from_tcp = {}, km_from_udp = {},
     km_from_tcp_keys = [], km_from_udp_keys = [], km_rate = Map.empty, km_rate_set = [], km_feeds = {}, km_feed_nets = []\<rparr>"

definition shared_init :: "config \<Rightarrow> blocklist \<Rightarrow> shared" where
  "shared_init cfg b =
     \<lparr>sh_detector = detector_new (c_detector cfg) (c_bans cfg), sh_blocklist = b, sh_records = [], sh_enforce = enforce cfg,
      sh_recent = [], sh_dirty = False, sh_notify_bans = n_bans (c_notify cfg), sh_notes = bn_default\<rparr>"

section \<open>Steps\<close>

type_synonym 's step = "'s \<Rightarrow> 's \<times> (error + unit)"

definition seq :: "'s step \<Rightarrow> 's step \<Rightarrow> 's step" where
  "seq f g s = (case f s of (s', Inr _) \<Rightarrow> g s' | (s', Inl e) \<Rightarrow> (s', Inl e))"

fun each :: "('a \<Rightarrow> 's step) \<Rightarrow> 'a list \<Rightarrow> 's step" where
  "each f [] s = (s, Inr ())"
| "each f (x # xs) s = seq (f x) (each f xs) s"

definition with_ok :: "error + 'a \<Rightarrow> ('a \<Rightarrow> 's step) \<Rightarrow> 's step" where
  "with_ok r f s = (case r of Inl e \<Rightarrow> (s, Inl e) | Inr x \<Rightarrow> f x s)"

lemma seq_ok: "seq f g s = (s'', Inr u) \<longleftrightarrow> (\<exists>s' v. f s = (s', Inr v) \<and> g s' = (s'', Inr u))"
  by (auto simp: seq_def split: prod.splits sum.splits)

lemma with_ok_Inr [simp]: "with_ok (Inr x) f = f x"
  by (rule ext) (simp add: with_ok_def)

lemma with_ok_ok: "with_ok r f s = (s', Inr u) \<longleftrightarrow> (\<exists>x. r = Inr x \<and> f x s = (s', Inr u))"
  by (auto simp: with_ok_def split: sum.splits)

section \<open>Applying a config\<close>

definition bit32 :: "bool \<Rightarrow> u32" where
  "bit32 b = (if b then 1 else 0)"

definition set_setting :: "u32 \<Rightarrow> u32 \<Rightarrow> world step" where
  "set_setting slot v w =
     (case arr_set CFG_LEN slot v (w_settings w) of
        Some m \<Rightarrow> (w\<lparr>w_settings := m\<rparr>, Inr ())
      | None \<Rightarrow> (w, Inl (Msg ''settings'')))"

definition put_tcp :: "u16 list \<Rightarrow> world step" where
  "put_tcp wanted w =
     (let k = w_maps w; (m, opn, ok) = sync_ports (km_tcp k) (km_open_tcp k) wanted
      in (w\<lparr>w_maps := k\<lparr>km_tcp := m, km_open_tcp := opn\<rparr>\<rparr>, rcheck ok (Msg ''tcp ports'')))"

definition put_udp :: "u16 list \<Rightarrow> world step" where
  "put_udp wanted w =
     (let k = w_maps w; (m, opn, ok) = sync_ports (km_udp k) (km_open_udp k) wanted
      in (w\<lparr>w_maps := k\<lparr>km_udp := m, km_open_udp := opn\<rparr>\<rparr>, rcheck ok (Msg ''udp ports'')))"

definition put_from_tcp :: "(u32 \<times> rule_key) list \<Rightarrow> world step" where
  "put_from_tcp wanted w =
     (let k = w_maps w; (t, have, ok) = sync_trie (km_from_tcp k) (km_from_tcp_keys k) wanted
      in (w\<lparr>w_maps := k\<lparr>km_from_tcp := t, km_from_tcp_keys := have\<rparr>\<rparr>, rcheck ok (Msg ''tcp rules'')))"

definition put_from_udp :: "(u32 \<times> rule_key) list \<Rightarrow> world step" where
  "put_from_udp wanted w =
     (let k = w_maps w; (t, have, ok) = sync_trie (km_from_udp k) (km_from_udp_keys k) wanted
      in (w\<lparr>w_maps := k\<lparr>km_from_udp := t, km_from_udp_keys := have\<rparr>\<rparr>, rcheck ok (Msg ''udp rules'')))"

definition set_rate :: "u16 \<times> u32 \<Rightarrow> world step" where
  "set_rate pv w =
     (case arr_set ALLOW_ENTRIES (ucast (fst pv)) (snd pv) (km_rate (w_maps w)) of
        Some m \<Rightarrow> (w\<lparr>w_maps := (w_maps w)\<lparr>km_rate := m\<rparr>\<rparr>, Inr ())
      | None \<Rightarrow> (w, Inl (Msg ''rates'')))"

definition remember_rates :: "(u16, u32) hmap \<Rightarrow> world step" where
  "remember_rates rates w = (w\<lparr>w_maps := (w_maps w)\<lparr>km_rate_set := rates\<rparr>\<rparr>, Inr ())"

definition put_rates :: "(u16, u32) hmap \<Rightarrow> world step" where
  "put_rates rates w =
     seq (each (\<lambda>p. set_rate (p, 0)) (map fst (filter (\<lambda>(p, _). \<not> hm_has rates p) (km_rate_set (w_maps w)))))
    (seq (each set_rate rates)
         (remember_rates rates)) w"

definition put_compiled :: "compiled \<Rightarrow> world step" where
  "put_compiled c =
     seq (put_tcp (co_tcp c)) (seq (put_udp (co_udp c))
    (seq (put_from_tcp (co_from_tcp c)) (seq (put_from_udp (co_from_udp c)) (put_rates (co_rates c)))))"

definition configure_shared :: "config \<Rightarrow> world step" where
  "configure_shared cfg w =
     (w\<lparr>w_shared := (w_shared w)\<lparr>sh_enforce := enforce cfg, sh_notify_bans := n_bans (c_notify cfg),
        sh_detector := reconfigure (c_detector cfg) (c_bans cfg) (sh_detector (w_shared w))\<rparr>\<rparr>, Inr ())"

text \<open>The addresses of the blocked networks; the sum is on 64 bits and cannot overflow.\<close>

definition cidr_ips :: "cidr \<Rightarrow> src list" where
  "cidr_ips c = map (\<lambda>i. V4 (of_nat i)) [unat (ci_net c) ..< unat (ci_net c) + unat (NOT (ci_mask c)) + 1]"

definition config_record :: ban_record where
  "config_record = \<lparr>br_reason = ''blocked in config'', br_source = ''config'', br_strikes = 0\<rparr>"

text \<open>\<open>let _ = blocklist.remove(ip); records.remove(&ip)\<close>.\<close>

definition lift_ban :: "src \<Rightarrow> shared \<Rightarrow> shared" where
  "lift_ban ip s =
     s\<lparr>sh_blocklist := opt_or (bl_remove ip (sh_blocklist s)) (sh_blocklist s), sh_records := hm_del ip (sh_records s)\<rparr>"

definition lift_stale :: "src list \<Rightarrow> shared \<Rightarrow> shared" where
  "lift_stale listed s =
     fold lift_ban (map fst (filter (\<lambda>(ip, r). br_source r = ''config'' \<and> ip \<notin> set listed) (sh_records s))) s"

definition config_ban :: "src \<Rightarrow> shared step" where
  "config_ban ip s =
     (case bl_insert ip (expiry_for 0 0) (sh_blocklist s) of
        None \<Rightarrow> (s, Inl (Msg ''blocklist''))
      | Some b \<Rightarrow> (s\<lparr>sh_blocklist := b, sh_records := hm_put ip config_record (sh_records s)\<rparr>, Inr ()))"

definition on_shared :: "shared step \<Rightarrow> world step" where
  "on_shared f w = (let (s, r) = f (w_shared w) in (w\<lparr>w_shared := s\<rparr>, r))"

definition block_listed :: "cidr list \<Rightarrow> shared step" where
  "block_listed cidrs s =
     (let listed = remdups (concat (map cidr_ips cidrs)) in
      seq (each config_ban listed) (\<lambda>s. (s\<lparr>sh_dirty := True\<rparr>, Inr ())) (lift_stale listed s))"

definition apply_config :: "config \<Rightarrow> policy \<Rightarrow> u32 \<Rightarrow> world step" where
  "apply_config cfg pol eph =
     seq (set_setting CFG_ENFORCE (bit32 (enforce cfg)))
    (seq (set_setting CFG_EPHEMERAL_LOW eph)
    (seq (set_setting CFG_DROP_PING (bit32 (\<not> p_allow_ping pol)))
    (seq (with_ok (compile pol) put_compiled)
    (seq (configure_shared cfg)
         (with_ok (blocked_cidrs cfg) (\<lambda>cs. on_shared (block_listed cs)))))))"

section \<open>The rule maps mirror what is remembered\<close>

definition maps_ok :: "kernel_maps \<Rightarrow> bool" where
  "maps_ok k =
     ((\<forall>p. port_open (km_tcp k) p \<longleftrightarrow> p \<in> set (km_open_tcp k))
      \<and> (\<forall>p. port_open (km_udp k) p \<longleftrightarrow> p \<in> set (km_open_udp k))
      \<and> km_from_tcp k = set (km_from_tcp_keys k) \<and> km_from_udp k = set (km_from_udp_keys k)
      \<and> (\<forall>p. opt_or (km_rate k (ucast p)) 0 = opt_or (hm_get (km_rate_set k) p) 0))"

lemma maps_init_ok: "maps_ok maps_init"
  by (simp add: maps_ok_def maps_init_def port_open_def)

text \<open>What it means that a compiled policy is in force.\<close>

definition in_force :: "compiled \<Rightarrow> kernel_maps \<Rightarrow> bool" where
  "in_force c k =
     ((\<forall>p. port_open (km_tcp k) p \<longleftrightarrow> p \<in> set (co_tcp c)) \<and> (\<forall>p. port_open (km_udp k) p \<longleftrightarrow> p \<in> set (co_udp c))
      \<and> km_from_tcp k = set (co_from_tcp c) \<and> km_from_udp k = set (co_from_udp c)
      \<and> (\<forall>p. opt_or (km_rate k (ucast p)) 0 = opt_or (hm_get (co_rates c) p) 0))"

lemma each_rates:
  "each set_rate pvs w = (w\<lparr>w_maps := (w_maps w)\<lparr>km_rate := fold (\<lambda>(p, v) m. m(ucast p \<mapsto> v)) pvs (km_rate (w_maps w))\<rparr>\<rparr>, Inr ())"
proof (induction pvs arbitrary: w)
  case (Cons pv pvs)
  obtain p v where pv: "pv = (p, v)" by (cases pv)
  have "set_rate pv w = (w\<lparr>w_maps := (w_maps w)\<lparr>km_rate := (km_rate (w_maps w))(ucast p \<mapsto> v)\<rparr>\<rparr>, Inr ())"
    by (simp add: set_rate_def arr_set_def port_index pv)
  with Cons show ?case by (simp add: seq_def pv)
qed simp

lemma each_zero: "each (\<lambda>p. set_rate (p, 0)) ps w = each set_rate (map (\<lambda>p. (p, 0)) ps) w"
  by (induction ps arbitrary: w) (simp_all add: seq_def split: prod.splits sum.splits)

lemma fold_upd_get:
  "fold (\<lambda>(p, v) m. m(ucast p \<mapsto> v)) pvs m (ucast (q::u16)) = (case map_of (rev pvs) q of Some v \<Rightarrow> Some v | None \<Rightarrow> (m :: u32 \<rightharpoonup> u32) (ucast q))"
proof (induction pvs rule: rev_induct)
  case (snoc x pvs)
  then show ?case by (cases x) (simp add: ucast_16_32_inj)
qed simp

lemma map_of_zero: "map_of (rev (map (\<lambda>p. (p, 0::u32)) ps)) q = (if q \<in> set ps then Some 0 else None)"
  by (induction ps rule: rev_induct) auto

lemma map_of_rev_distinct: "hm_ok m \<Longrightarrow> map_of (rev m) = map_of m"
  by (subst map_of_inject_set) (simp_all add: rev_map [symmetric])

lemma put_rates_ok:
  assumes "\<forall>p. opt_or (km_rate (w_maps w) (ucast p)) 0 = opt_or (hm_get (km_rate_set (w_maps w)) p) 0" "hm_ok rates"
  obtains m where "put_rates rates w = (w\<lparr>w_maps := (w_maps w)\<lparr>km_rate := m, km_rate_set := rates\<rparr>\<rparr>, Inr ())"
    "\<forall>p. opt_or (m (ucast p)) 0 = opt_or (hm_get rates p) 0"
proof -
  define gone where "gone = map fst (filter (\<lambda>(p, _). \<not> hm_has rates p) (km_rate_set (w_maps w)))"
  let ?zero = "map (\<lambda>p. (p, 0::u32)) gone"
  let ?m = "fold (\<lambda>(p, v) m. m(ucast p \<mapsto> v)) rates (fold (\<lambda>(p, v) m. m(ucast p \<mapsto> v)) ?zero (km_rate (w_maps w)))"
  have run: "put_rates rates w = (w\<lparr>w_maps := (w_maps w)\<lparr>km_rate := ?m, km_rate_set := rates\<rparr>\<rparr>, Inr ())"
    unfolding put_rates_def gone_def [symmetric] seq_def each_zero each_rates by (simp add: each_rates remember_rates_def)
  have "opt_or (?m (ucast p)) 0 = opt_or (hm_get rates p) 0" for p
  proof (cases "hm_get rates p")
    case (Some v)
    then have "map_of (rev rates) p = Some v" using assms(2) by (metis map_of_rev_distinct)
    then show ?thesis using Some by (simp add: fold_upd_get)
  next
    case None
    then have r: "map_of (rev rates) p = None" by (simp add: map_of_eq_None_iff)
    have "p \<notin> set gone \<longleftrightarrow> hm_get (km_rate_set (w_maps w)) p = None"
      using None by (force simp: gone_def hm_has_def map_of_eq_None_iff)
    then show ?thesis using r None assms(1) [rule_format, of p] by (simp add: fold_upd_get map_of_zero del: rev_map)
  qed
  with run show ?thesis by (intro that) auto
qed


lemma add_rate_hm_ok: "hm_ok rates \<Longrightarrow> hm_ok (add_rate p rt rates)"
  by (auto simp: add_rate_def hm_ok_put split: option.split)

lemma compile_rates_ok: "compile pol = Inr c \<Longrightarrow> hm_ok (co_rates c)"
proof -
  have port: "hm_ok (co_rates c) \<Longrightarrow> hm_ok (co_rates (fold (compile_port t frm rt) ps c))" for t frm rt ps c
    by (induction ps arbitrary: c) (simp_all add: compile_port_parts add_rate_hm_ok)
  have rules: "rfold compile_rule rs c = Inr c' \<Longrightarrow> hm_ok (co_rates c) \<Longrightarrow> hm_ok (co_rates c')" for rs c c'
  proof (induction rs arbitrary: c)
    case (Cons r rs)
    then obtain c1 where c1: "compile_rule r c = Inr c1" "rfold compile_rule rs c1 = Inr c'" by (auto simp: rbind_Inr_iff)
    then have "hm_ok (co_rates c1)" using port Cons.prems(2) by (auto simp: compile_rule_def rbind_Inr_iff)
    with Cons.IH [OF c1(2)] show ?case .
  qed simp
  assume "compile pol = Inr c"
  then show ?thesis by (auto simp: compile_def rbind_Inr_iff dest: rules)
qed

lemma sync_ports_mirror:
  assumes "\<forall>p. port_open m p \<longleftrightarrow> p \<in> set opn"
  shows "\<exists>m'. sync_ports m opn ps = (m', ps, True) \<and> (\<forall>p. port_open m' p \<longleftrightarrow> p \<in> set ps)"
  by (rule sync_ports_ok [of m opn ps]) (use assms in simp)

lemma put_tcp_ok:
  assumes "maps_ok (w_maps w)"
  obtains m where "put_tcp ps w = (w\<lparr>w_maps := (w_maps w)\<lparr>km_tcp := m, km_open_tcp := ps\<rparr>\<rparr>, Inr ())" "\<forall>p. port_open m p \<longleftrightarrow> p \<in> set ps"
proof -
  have "\<forall>p. port_open (km_tcp (w_maps w)) p \<longleftrightarrow> p \<in> set (km_open_tcp (w_maps w))" using assms by (simp add: maps_ok_def)
  from sync_ports_mirror [OF this, of ps] obtain m where "sync_ports (km_tcp (w_maps w)) (km_open_tcp (w_maps w)) ps = (m, ps, True)"
    "\<forall>p. port_open m p \<longleftrightarrow> p \<in> set ps" by blast
  then show ?thesis by (intro that [of m]) (simp_all add: put_tcp_def rcheck_def)
qed

lemma put_udp_ok:
  assumes "maps_ok (w_maps w)"
  obtains m where "put_udp ps w = (w\<lparr>w_maps := (w_maps w)\<lparr>km_udp := m, km_open_udp := ps\<rparr>\<rparr>, Inr ())" "\<forall>p. port_open m p \<longleftrightarrow> p \<in> set ps"
proof -
  have "\<forall>p. port_open (km_udp (w_maps w)) p \<longleftrightarrow> p \<in> set (km_open_udp (w_maps w))" using assms by (simp add: maps_ok_def)
  from sync_ports_mirror [OF this, of ps] obtain m where "sync_ports (km_udp (w_maps w)) (km_open_udp (w_maps w)) ps = (m, ps, True)"
    "\<forall>p. port_open m p \<longleftrightarrow> p \<in> set ps" by blast
  then show ?thesis by (intro that [of m]) (simp_all add: put_udp_def rcheck_def)
qed

lemma put_from_tcp_ok:
  assumes "put_from_tcp ks w = (w', Inr u)" "maps_ok (w_maps w)"
  shows "w' = w\<lparr>w_maps := (w_maps w)\<lparr>km_from_tcp := set ks, km_from_tcp_keys := ks\<rparr>\<rparr>"
proof -
  obtain t hv ok where t: "sync_trie (km_from_tcp (w_maps w)) (km_from_tcp_keys (w_maps w)) ks = (t, hv, ok)" by (rule prod_cases3)
  then have "ok" and w': "w' = w\<lparr>w_maps := (w_maps w)\<lparr>km_from_tcp := t, km_from_tcp_keys := hv\<rparr>\<rparr>"
    using assms(1) by (auto simp: put_from_tcp_def)
  with t have "t = set ks \<and> hv = ks" using sync_trie_agrees [of "km_from_tcp (w_maps w)" "km_from_tcp_keys (w_maps w)" ks t hv] assms(2) by (simp add: maps_ok_def)
  with w' show ?thesis by simp
qed

lemma put_from_udp_ok:
  assumes "put_from_udp ks w = (w', Inr u)" "maps_ok (w_maps w)"
  shows "w' = w\<lparr>w_maps := (w_maps w)\<lparr>km_from_udp := set ks, km_from_udp_keys := ks\<rparr>\<rparr>"
proof -
  obtain t hv ok where t: "sync_trie (km_from_udp (w_maps w)) (km_from_udp_keys (w_maps w)) ks = (t, hv, ok)" by (rule prod_cases3)
  then have "ok" and w': "w' = w\<lparr>w_maps := (w_maps w)\<lparr>km_from_udp := t, km_from_udp_keys := hv\<rparr>\<rparr>"
    using assms(1) by (auto simp: put_from_udp_def)
  with t have "t = set ks \<and> hv = ks" using sync_trie_agrees [of "km_from_udp (w_maps w)" "km_from_udp_keys (w_maps w)" ks t hv] assms(2) by (simp add: maps_ok_def)
  with w' show ?thesis by simp
qed

lemma put_compiled_ok:
  assumes "put_compiled c w = (w', Inr u)" "maps_ok (w_maps w)" "hm_ok (co_rates c)"
  shows "in_force c (w_maps w') \<and> maps_ok (w_maps w') \<and> w_settings w' = w_settings w \<and> w_shared w' = w_shared w
    \<and> km_feeds (w_maps w') = km_feeds (w_maps w) \<and> km_feed_nets (w_maps w') = km_feed_nets (w_maps w)"
proof -
  obtain m1 where m1: "put_tcp (co_tcp c) w = (w\<lparr>w_maps := (w_maps w)\<lparr>km_tcp := m1, km_open_tcp := co_tcp c\<rparr>\<rparr>, Inr ())"
    "\<forall>p. port_open m1 p \<longleftrightarrow> p \<in> set (co_tcp c)" using put_tcp_ok [OF assms(2)] by blast
  define w1 where "w1 = w\<lparr>w_maps := (w_maps w)\<lparr>km_tcp := m1, km_open_tcp := co_tcp c\<rparr>\<rparr>"
  have ok1: "maps_ok (w_maps w1)" using assms(2) m1(2) by (simp add: w1_def maps_ok_def)
  obtain m2 where m2: "put_udp (co_udp c) w1 = (w1\<lparr>w_maps := (w_maps w1)\<lparr>km_udp := m2, km_open_udp := co_udp c\<rparr>\<rparr>, Inr ())"
    "\<forall>p. port_open m2 p \<longleftrightarrow> p \<in> set (co_udp c)" using put_udp_ok [OF ok1] by blast
  define w2 where "w2 = w1\<lparr>w_maps := (w_maps w1)\<lparr>km_udp := m2, km_open_udp := co_udp c\<rparr>\<rparr>"
  have ok2: "maps_ok (w_maps w2)" using ok1 m2(2) by (simp add: w2_def maps_ok_def)
  obtain w3 w4 v3 v4 where f: "put_from_tcp (co_from_tcp c) w2 = (w3, Inr v3)" "put_from_udp (co_from_udp c) w3 = (w4, Inr v4)"
    and r: "put_rates (co_rates c) w4 = (w', Inr u)"
    using assms(1) m1(1) m2(1) unfolding w1_def [symmetric] w2_def [symmetric] put_compiled_def
    by (auto simp: seq_ok w1_def [symmetric] w2_def [symmetric])
  note w3 = put_from_tcp_ok [OF f(1) ok2]
  have ok3: "maps_ok (w_maps w3)" using ok2 by (simp add: w3 maps_ok_def)
  note w4 = put_from_udp_ok [OF f(2) ok3]
  have ok4: "maps_ok (w_maps w4)" using ok3 by (simp add: w4 maps_ok_def)
  then have "\<forall>p. opt_or (km_rate (w_maps w4) (ucast p)) 0 = opt_or (hm_get (km_rate_set (w_maps w4)) p) 0" by (simp add: maps_ok_def)
  from put_rates_ok [OF this assms(3)] obtain m where
    "put_rates (co_rates c) w4 = (w4\<lparr>w_maps := (w_maps w4)\<lparr>km_rate := m, km_rate_set := co_rates c\<rparr>\<rparr>, Inr ())"
    and m: "\<forall>p. opt_or (m (ucast p)) 0 = opt_or (hm_get (co_rates c) p) 0" by blast
  with r have w': "w' = w4\<lparr>w_maps := (w_maps w4)\<lparr>km_rate := m, km_rate_set := co_rates c\<rparr>\<rparr>" by simp
  show ?thesis
    using ok4 m m1(2) m2(2) by (simp add: w' w4 w3 w2_def w1_def in_force_def maps_ok_def)
qed

section \<open>Banned networks of the config\<close>

lemma lift_ban_get:
  "bl_get (sh_blocklist (lift_ban ip s)) x = (if x = ip then None else bl_get (sh_blocklist s) x)"
proof (cases "bl_remove ip (sh_blocklist s)")
  case None
  then have "bl_get (sh_blocklist s) ip = None" using bl_remove_None by blast
  then show ?thesis by (simp add: lift_ban_def None)
next
  case (Some b)
  then show ?thesis by (simp add: lift_ban_def bl_get_remove)
qed

lemma lift_ban_record: "hm_get (sh_records (lift_ban ip s)) x = (if x = ip then None else hm_get (sh_records s) x)"
  by (simp add: lift_ban_def hm_get_del)

lemma fold_lift:
  "bl_get (sh_blocklist (fold lift_ban ips s)) x = (if x \<in> set ips then None else bl_get (sh_blocklist s) x)"
  "hm_get (sh_records (fold lift_ban ips s)) x = (if x \<in> set ips then None else hm_get (sh_records s) x)"
  by (induction ips arbitrary: s) (auto simp: lift_ban_get lift_ban_record)

lemma each_config_ban:
  "each config_ban ips s = (s', Inr u) \<Longrightarrow>
    bl_get (sh_blocklist s') x = (if x \<in> set ips then Some BAN_FOREVER else bl_get (sh_blocklist s) x)
    \<and> hm_get (sh_records s') x = (if x \<in> set ips then Some config_record else hm_get (sh_records s) x)"
proof (induction ips arbitrary: s)
  case (Cons ip ips)
  then obtain s1 v where s1: "config_ban ip s = (s1, Inr v)" "each config_ban ips s1 = (s', Inr u)" by (auto simp: seq_ok)
  from s1(1) obtain b where "bl_insert ip BAN_FOREVER (sh_blocklist s) = Some b"
    "s1 = s\<lparr>sh_blocklist := b, sh_records := hm_put ip config_record (sh_records s)\<rparr>"
    by (auto simp: config_ban_def expiry_for_def split: option.splits)
  with Cons.IH [OF s1(2)] show ?case by (auto simp: bl_get_insert hm_get_put)
qed simp

lemma div_range: "0 < (K::nat) \<Longrightarrow> x div K = q \<longleftrightarrow> K * q \<le> x \<and> x < K * q + K"
proof
  assume "0 < K" "x div K = q"
  then have "x = K * q + x mod K" using mult_div_mod_eq [of K x] by simp
  moreover have "x mod K < K" using \<open>0 < K\<close> by simp
  ultimately show "K * q \<le> x \<and> x < K * q + K" by (intro conjI) linarith+
next
  assume "0 < K" "K * q \<le> x \<and> x < K * q + K"
  then show "x div K = q" by (intro div_nat_eqI) (simp_all add: mult.commute)
qed

lemma block_fits:
  assumes "k \<le> 32" "N = 2 ^ k * q" "N < 2 ^ 32"
  shows "N + 2 ^ k \<le> (2::nat) ^ 32"
proof -
  have e: "(2::nat) ^ 32 = 2 ^ k * 2 ^ (32 - k)" using assms(1) by (simp add: power_add [symmetric])
  have "2 ^ k * q < (2::nat) ^ k * 2 ^ (32 - k)" using assms(2,3) unfolding e by (simp only:)
  then have "q < 2 ^ (32 - k)" by simp
  then have "2 ^ k * (q + 1) \<le> (2::nat) ^ k * 2 ^ (32 - k)" by (intro mult_le_mono2) simp
  then show ?thesis unfolding e assms(2) by simp
qed

text \<open>A blocked network is expanded to exactly its addresses.\<close>

lemma cidr_ips_exact:
  assumes "cidr_wf n c"
  shows "x \<in> set (cidr_ips c) \<longleftrightarrow> (\<exists>ip. x = V4 ip \<and> cidr_contains c ip)"
proof -
  define k where "k = 32 - n"
  define N where "N = unat (ci_net c)"
  have k: "k \<le> 32" by (simp add: k_def)
  have nm: "NOT (ci_mask c) = take_bit k (- 1)"
    by (rule bit_word_eqI) (auto simp: bit_not_iff bit_take_bit_iff cidr_wf_bit [OF assms] k_def simp del: take_bit_minus_one_eq_mask)
  have "unat (take_bit k (- 1 :: u32)) = mask (min k 32)"
    by (simp add: unsigned_take_bit_eq unsigned_minus_1_eq_mask take_bit_of_mask del: take_bit_minus_one_eq_mask)
  then have "unat (NOT (ci_mask c)) = 2 ^ k - 1"
    using k by (simp add: nm mask_eq_exp_minus_1 min_def del: take_bit_minus_one_eq_mask)
  then have size: "unat (NOT (ci_mask c)) + 1 = 2 ^ k" by simp
  have "take_bit k (ci_net c) = 0"
  proof (rule bit_word_eqI)
    fix i
    have "bit (ci_net c) i \<Longrightarrow> 32 - n \<le> i" using assms cidr_wf_bit [OF assms, of i] by (metis bit_and_iff cidr_wf_def)
    then show "bit (take_bit k (ci_net c)) i = bit 0 i" by (auto simp: bit_take_bit_iff k_def)
  qed
  then have "take_bit k N = 0" by (metis N_def unsigned_0 unsigned_take_bit_eq)
  then have N: "N = 2 ^ k * (N div 2 ^ k)" using mult_div_mod_eq [of "2 ^ k" N] by (simp add: take_bit_eq_mod)
  have top: "N + 2 ^ k \<le> 2 ^ 32" using block_fits [OF k N] unat_lt2p32 [of "ci_net c"] by (simp add: N_def)
  have "drop_bit k ip = drop_bit k (ci_net c) \<longleftrightarrow> unat ip div 2 ^ k = N div 2 ^ k" for ip
    unfolding word_unat_eq_iff unat_drop_bit_eq N_def unfolding drop_bit_eq_div by (rule refl)
  then have "cidr_contains c ip \<longleftrightarrow> unat ip div 2 ^ k = N div 2 ^ k" for ip
    using contains_iff [OF assms, of ip] by (simp add: k_def)
  then have contains: "cidr_contains c ip \<longleftrightarrow> N \<le> unat ip \<and> unat ip < N + 2 ^ k" for ip
    using div_range [of "2 ^ k" "unat ip" "N div 2 ^ k"] N by simp
  have "x \<in> set (cidr_ips c) \<longleftrightarrow> (\<exists>i. N \<le> i \<and> i < N + 2 ^ k \<and> x = V4 (of_nat i))"
    unfolding cidr_ips_def set_map set_upt add.assoc size N_def [symmetric] by auto
  also have "\<dots> \<longleftrightarrow> (\<exists>ip. x = V4 ip \<and> N \<le> unat ip \<and> unat ip < N + 2 ^ k)"
  proof
    assume "\<exists>i. N \<le> i \<and> i < N + 2 ^ k \<and> x = V4 (of_nat i)"
    then obtain i where i: "N \<le> i" "i < N + 2 ^ k" "x = V4 (of_nat i)" by blast
    then have "unat (of_nat i :: u32) = i" using top by (simp add: unat_of_nat)
    with i show "\<exists>ip. x = V4 ip \<and> N \<le> unat ip \<and> unat ip < N + 2 ^ k" by auto
  next
    assume "\<exists>ip. x = V4 ip \<and> N \<le> unat ip \<and> unat ip < N + 2 ^ k"
    then obtain ip where "x = V4 ip" "N \<le> unat ip \<and> unat ip < N + 2 ^ k" by blast
    then show "\<exists>i. N \<le> i \<and> i < N + 2 ^ k \<and> x = V4 (of_nat i)" by (intro exI [of _ "unat ip"]) simp
  qed
  finally show ?thesis by (simp add: contains)
qed

section \<open>A config in force\<close>

definition settings_for :: "config \<Rightarrow> policy \<Rightarrow> u32 \<Rightarrow> (u32 \<rightharpoonup> u32) \<Rightarrow> bool" where
  "settings_for cfg pol eph m =
     (m CFG_ENFORCE = Some (bit32 (enforce cfg)) \<and> m CFG_EPHEMERAL_LOW = Some eph
      \<and> m CFG_DROP_PING = Some (bit32 (\<not> p_allow_ping pol)))"

definition listed_in :: "config \<Rightarrow> src \<Rightarrow> bool" where
  "listed_in cfg x = (\<exists>cs ip. blocked_cidrs cfg = Inr cs \<and> x = V4 ip \<and> list_ex (\<lambda>c. cidr_contains c ip) cs)"

lemma block_listed_ok:
  assumes "block_listed cs s = (s', Inr u)" "\<forall>c \<in> set cs. \<exists>n. cidr_wf n c" "hm_ok (sh_records s)"
  shows "bl_get (sh_blocklist s') x =
      (if \<exists>ip. x = V4 ip \<and> list_ex (\<lambda>c. cidr_contains c ip) cs then Some BAN_FOREVER
       else if (\<exists>r. hm_get (sh_records s) x = Some r \<and> br_source r = ''config'') then None else bl_get (sh_blocklist s) x)
    \<and> hm_get (sh_records s') x =
      (if \<exists>ip. x = V4 ip \<and> list_ex (\<lambda>c. cidr_contains c ip) cs then Some config_record
       else if (\<exists>r. hm_get (sh_records s) x = Some r \<and> br_source r = ''config'') then None else hm_get (sh_records s) x)"
proof -
  define listed where "listed = remdups (concat (map cidr_ips cs))"
  have mem: "y \<in> set listed \<longleftrightarrow> (\<exists>ip. y = V4 ip \<and> list_ex (\<lambda>c. cidr_contains c ip) cs)" for y
    using assms(2) cidr_ips_exact by (fastforce simp: listed_def list_ex_iff)
  define s1 where "s1 = lift_stale listed s"
  obtain s2 v where s2: "each config_ban listed s1 = (s2, Inr v)" and s': "s' = s2\<lparr>sh_dirty := True\<rparr>"
    using assms(1) by (auto simp: block_listed_def Let_def seq_ok listed_def [symmetric] s1_def [symmetric])
  have stale: "x \<in> set (map fst (filter (\<lambda>(ip, r). br_source r = ''config'' \<and> ip \<notin> set listed) (sh_records s)))
      \<longleftrightarrow> x \<notin> set listed \<and> (\<exists>r. hm_get (sh_records s) x = Some r \<and> br_source r = ''config'')"
    using map_of_eq_Some_iff [OF assms(3)] by (auto simp: image_iff)
  show ?thesis
    using each_config_ban [OF s2, of x] fold_lift [of "map fst (filter (\<lambda>(ip, r). br_source r = ''config'' \<and> ip \<notin> set listed) (sh_records s))" s x]
    unfolding s' s1_def lift_stale_def stale mem [symmetric] by simp
qed

lemma seq_setting:
  "slot < CFG_LEN \<Longrightarrow> seq (set_setting slot v) g w = g (w\<lparr>w_settings := (w_settings w)(slot \<mapsto> v)\<rparr>)"
  by (simp add: seq_def set_setting_def arr_set_def)

lemma apply_config_ok:
  assumes "apply_config cfg pol eph w = (w', Inr u)" "maps_ok (w_maps w)" "hm_ok (sh_records (w_shared w))"
  shows "\<exists>c. compile pol = Inr c \<and> in_force c (w_maps w')" "maps_ok (w_maps w')" "settings_for cfg pol eph (w_settings w')"
    and "bl_get (sh_blocklist (w_shared w')) x =
      (if listed_in cfg x then Some BAN_FOREVER
       else if (\<exists>r. hm_get (sh_records (w_shared w)) x = Some r \<and> br_source r = ''config'') then None
       else bl_get (sh_blocklist (w_shared w)) x)"
    and "hm_get (sh_records (w_shared w')) x =
      (if listed_in cfg x then Some config_record
       else if (\<exists>r. hm_get (sh_records (w_shared w)) x = Some r \<and> br_source r = ''config'') then None
       else hm_get (sh_records (w_shared w)) x)"
    and "km_feeds (w_maps w') = km_feeds (w_maps w)"
proof -
  obtain m where m: "m = (w_settings w)(CFG_ENFORCE \<mapsto> bit32 (enforce cfg), CFG_EPHEMERAL_LOW \<mapsto> eph, CFG_DROP_PING \<mapsto> bit32 (\<not> p_allow_ping pol))" by blast
  define w1 where "w1 = w\<lparr>w_settings := m\<rparr>"
  have "apply_config cfg pol eph w =
      seq (with_ok (compile pol) put_compiled)
        (seq (configure_shared cfg) (with_ok (blocked_cidrs cfg) (\<lambda>cs. on_shared (block_listed cs)))) w1"
    by (simp add: apply_config_def seq_setting cfg_defs m w1_def)
  with assms(1) have "seq (with_ok (compile pol) put_compiled)
        (seq (configure_shared cfg) (with_ok (blocked_cidrs cfg) (\<lambda>cs. on_shared (block_listed cs)))) w1 = (w', Inr u)"
    by simp
  then obtain c w2 v w3 v3 cs where c: "compile pol = Inr c" "put_compiled c w1 = (w2, Inr v)"
    and w3: "configure_shared cfg w2 = (w3, Inr v3)" and cs: "blocked_cidrs cfg = Inr cs" and bl: "on_shared (block_listed cs) w3 = (w', Inr u)"
    by (auto simp: seq_ok with_ok_ok)
  have ok1: "maps_ok (w_maps w1)" using assms(2) by (simp add: w1_def)
  note k = put_compiled_ok [OF c(2) ok1 compile_rates_ok [OF c(1)]]
  obtain s' where s': "block_listed cs (w_shared w3) = (s', Inr u)" and w': "w' = w3\<lparr>w_shared := s'\<rparr>"
    using bl by (auto simp: on_shared_def split: prod.splits)
  have sh: "sh_records (w_shared w3) = sh_records (w_shared w)" "sh_blocklist (w_shared w3) = sh_blocklist (w_shared w)"
    "w_maps w3 = w_maps w2" "w_settings w3 = w_settings w2"
    using w3 k by (auto simp: configure_shared_def w1_def)
  have wf: "\<forall>c \<in> set cs. \<exists>n. cidr_wf n c"
    using rmap_set [OF cs [unfolded blocked_cidrs_def]] cidr_parse_wf by blast
  have li: "listed_in cfg x \<longleftrightarrow> (\<exists>ip. x = V4 ip \<and> list_ex (\<lambda>c. cidr_contains c ip) cs)" for x
    by (simp add: listed_in_def cs)
  have rec: "hm_ok (sh_records (w_shared w3))" using assms(3) sh by simp
  note b = block_listed_ok [OF s' wf rec, of x, folded li, unfolded sh]
  show "\<exists>c. compile pol = Inr c \<and> in_force c (w_maps w')" "maps_ok (w_maps w')"
    using c(1) k sh by (simp_all add: w')
  show "settings_for cfg pol eph (w_settings w')"
    using k sh by (simp add: w' settings_for_def w1_def m cfg_defs)
  show "bl_get (sh_blocklist (w_shared w')) x =
      (if listed_in cfg x then Some BAN_FOREVER
       else if (\<exists>r. hm_get (sh_records (w_shared w)) x = Some r \<and> br_source r = ''config'') then None
       else bl_get (sh_blocklist (w_shared w)) x)"
    "hm_get (sh_records (w_shared w')) x =
      (if listed_in cfg x then Some config_record
       else if (\<exists>r. hm_get (sh_records (w_shared w)) x = Some r \<and> br_source r = ''config'') then None
       else hm_get (sh_records (w_shared w)) x)"
    using b by (simp_all add: w')
  show "km_feeds (w_maps w') = km_feeds (w_maps w)" using k sh by (simp add: w' w1_def)
qed

section \<open>When a config can be applied\<close>

lemma run_all_insert_ok:
  "set ks \<subseteq> W \<Longrightarrow> t \<subseteq> W \<Longrightarrow> finite W \<Longrightarrow> card W \<le> FROM_ENTRIES \<Longrightarrow> \<exists>t'. run_all (trie_insert FROM_ENTRIES) ks t = (t', True)"
proof (induction ks arbitrary: t)
  case (Cons k ks)
  have "k \<in> t \<or> card t < FROM_ENTRIES"
  proof (rule disjCI)
    assume "\<not> card t < FROM_ENTRIES"
    then have "card W \<le> card t" using Cons.prems by simp
    then have "t = W" using Cons.prems by (metis card_seteq)
    then show "k \<in> t" using Cons.prems by simp
  qed
  then have "trie_insert FROM_ENTRIES k t = Some (insert k t)" by (simp add: trie_insert_def)
  with Cons show ?case by simp
qed simp

lemma sync_trie_room:
  assumes "t = set have" "card (set wanted) \<le> FROM_ENTRIES"
  shows "\<exists>t'. sync_trie t have wanted = (t', wanted, True)"
proof -
  let ?t1 = "fst (run_try trie_remove (hs_diff have wanted) t)"
  have "x \<in> ?t1 \<longleftrightarrow> x \<notin> set (hs_diff have wanted) \<and> x \<in> t" for x by (rule rule_trie.run_try_del) simp_all
  then have "?t1 \<subseteq> set wanted" using assms(1) by auto
  then obtain t2 where "run_all (trie_insert FROM_ENTRIES) (hs_diff wanted have) ?t1 = (t2, True)"
    using run_all_insert_ok [of "hs_diff wanted have" "set wanted" ?t1] assms(2) by auto
  then show ?thesis by (auto simp: sync_trie_def split: prod.splits)
qed

lemma each_config_ban_room:
  "list_all (\<lambda>x. \<exists>ip. x = V4 ip) ips \<Longrightarrow> length (bl_v4 (sh_blocklist s)) + length ips \<le> BLOCKLIST_ENTRIES
    \<Longrightarrow> \<exists>s'. each config_ban ips s = (s', Inr ())"
proof (induction ips arbitrary: s)
  case (Cons x ips)
  then obtain ip where x: "x = V4 ip" by auto
  have "length (bl_v4 (sh_blocklist s)) < BLOCKLIST_ENTRIES" using Cons.prems by simp
  then have b: "config_ban x s = (s\<lparr>sh_blocklist := (sh_blocklist s)\<lparr>bl_v4 := hm_put ip BAN_FOREVER (bl_v4 (sh_blocklist s))\<rparr>,
      sh_records := hm_put x config_record (sh_records s)\<rparr>, Inr ())" (is "_ = (?s1, _)")
    by (simp add: config_ban_def x hash_insert_def expiry_for_def)
  have "length (bl_v4 (sh_blocklist ?s1)) + length ips \<le> BLOCKLIST_ENTRIES"
    using Cons.prems hm_length_put [of ip BAN_FOREVER "bl_v4 (sh_blocklist s)"] by (simp split: if_splits)
  with Cons.IH [of ?s1] Cons.prems b show ?case by (auto simp: seq_def)
qed simp

lemma lift_length: "length (bl_v4 (sh_blocklist (fold lift_ban ips s))) \<le> length (bl_v4 (sh_blocklist s))"
proof (induction ips arbitrary: s)
  case (Cons ip ips)
  have "length (bl_v4 (sh_blocklist (lift_ban ip s))) \<le> length (bl_v4 (sh_blocklist s))"
    by (cases ip) (auto simp: lift_ban_def opt_or_def hash_remove_def bind_eq_Some_conv hm_length_del split: option.splits)
  with Cons.IH [of "lift_ban ip s"] show ?case by simp
qed simp

lemma put_compiled_room:
  assumes "maps_ok (w_maps w)" "hm_ok (co_rates c)" "card (set (co_from_tcp c)) \<le> 4096" "card (set (co_from_udp c)) \<le> 4096"
  shows "\<exists>w'. put_compiled c w = (w', Inr ())"
proof -
  obtain m1 where m1: "put_tcp (co_tcp c) w = (w\<lparr>w_maps := (w_maps w)\<lparr>km_tcp := m1, km_open_tcp := co_tcp c\<rparr>\<rparr>, Inr ())"
    "\<forall>p. port_open m1 p \<longleftrightarrow> p \<in> set (co_tcp c)" by (rule put_tcp_ok [OF assms(1)])
  define w2 where "w2 = w\<lparr>w_maps := (w_maps w)\<lparr>km_tcp := m1, km_open_tcp := co_tcp c\<rparr>\<rparr>"
  have ok2: "maps_ok (w_maps w2)" using assms(1) m1(2) by (simp add: w2_def maps_ok_def)
  obtain m2 where m2: "put_udp (co_udp c) w2 = (w2\<lparr>w_maps := (w_maps w2)\<lparr>km_udp := m2, km_open_udp := co_udp c\<rparr>\<rparr>, Inr ())"
    "\<forall>p. port_open m2 p \<longleftrightarrow> p \<in> set (co_udp c)" by (rule put_udp_ok [OF ok2])
  define w3 where "w3 = w2\<lparr>w_maps := (w_maps w2)\<lparr>km_udp := m2, km_open_udp := co_udp c\<rparr>\<rparr>"
  have ok3: "maps_ok (w_maps w3)" using ok2 m2(2) by (simp add: w3_def maps_ok_def)
  obtain w4 where w4: "put_from_tcp (co_from_tcp c) w3 = (w4, Inr ())"
    using sync_trie_room [of "km_from_tcp (w_maps w3)" "km_from_tcp_keys (w_maps w3)" "co_from_tcp c"] ok3 assms(3)
    by (auto simp: put_from_tcp_def maps_ok_def FROM_ENTRIES_def rcheck_def)
  have ok4: "maps_ok (w_maps w4)" using put_from_tcp_ok [OF w4 ok3] ok3 by (simp add: maps_ok_def)
  obtain w5 where w5: "put_from_udp (co_from_udp c) w4 = (w5, Inr ())"
    using sync_trie_room [of "km_from_udp (w_maps w4)" "km_from_udp_keys (w_maps w4)" "co_from_udp c"] ok4 assms(4)
    by (auto simp: put_from_udp_def maps_ok_def FROM_ENTRIES_def rcheck_def)
  have ok5: "maps_ok (w_maps w5)" using put_from_udp_ok [OF w5 ok4] ok4 by (simp add: maps_ok_def)
  then have "\<forall>p. opt_or (km_rate (w_maps w5) (ucast p)) 0 = opt_or (hm_get (km_rate_set (w_maps w5)) p) 0" by (simp add: maps_ok_def)
  from put_rates_ok [OF this assms(2)] obtain w6 where "put_rates (co_rates c) w5 = (w6, Inr ())" by metis
  then show ?thesis
    unfolding put_compiled_def using m1(1) m2(1) w4 w5 by (simp add: seq_def w2_def [symmetric] w3_def [symmetric])
qed

lemma apply_config_total:
  assumes "validate cfg = Inr ()" "policy_ok (p_allow_tcp pol) (p_allow_udp pol) (p_rules pol)" "maps_ok (w_maps w)"
    and "compile pol = Inr c" "card (set (co_from_tcp c)) \<le> 4096" "card (set (co_from_udp c)) \<le> 4096"
    and "blocked_cidrs cfg = Inr cs"
      "length (bl_v4 (sh_blocklist (w_shared w))) + length (remdups (concat (map cidr_ips cs))) \<le> 65536"
  shows "\<exists>w'. apply_config cfg pol eph w = (w', Inr ())"
proof -
  define w1 where "w1 = w\<lparr>w_settings := (w_settings w)(CFG_ENFORCE \<mapsto> bit32 (enforce cfg), CFG_EPHEMERAL_LOW \<mapsto> eph, CFG_DROP_PING \<mapsto> bit32 (\<not> p_allow_ping pol))\<rparr>"
  have run: "apply_config cfg pol eph w =
      seq (put_compiled c) (seq (configure_shared cfg) (on_shared (block_listed cs))) w1"
    by (simp add: apply_config_def seq_setting cfg_defs w1_def assms(4,7))
  have ok1: "maps_ok (w_maps w1)" using assms(3) by (simp add: w1_def)
  note rates = compile_rates_ok [OF assms(4)]
  obtain w6 where pc: "put_compiled c w1 = (w6, Inr ())" using put_compiled_room [OF ok1 rates assms(5,6)] by blast
  have sh: "w_shared w6 = w_shared w" using put_compiled_ok [OF pc ok1 rates] by (simp add: w1_def)
  obtain w7 v where w7: "configure_shared cfg w6 = (w7, Inr v)" "sh_blocklist (w_shared w7) = sh_blocklist (w_shared w)"
    by (simp add: configure_shared_def sh)
  define listed where "listed = remdups (concat (map cidr_ips cs))"
  have v4: "list_all (\<lambda>x. \<exists>ip. x = V4 ip) listed" by (auto simp: listed_def list_all_iff cidr_ips_def)
  have "length (bl_v4 (sh_blocklist (lift_stale listed (w_shared w7)))) + length listed \<le> BLOCKLIST_ENTRIES"
    using lift_length [of _ "w_shared w7"] assms(8) w7(2)
    by (simp add: lift_stale_def BLOCKLIST_ENTRIES_def listed_def) (meson add_le_mono1 le_trans)
  from each_config_ban_room [OF v4 this] obtain s' where "each config_ban listed (lift_stale listed (w_shared w7)) = (s', Inr ())" by blast
  then have "\<exists>s''. block_listed cs (w_shared w7) = (s'', Inr ())"
    by (simp add: block_listed_def Let_def listed_def [symmetric] seq_def)
  then show ?thesis unfolding run using pc w7(1) by (auto simp: seq_def on_shared_def)
qed

text \<open>When it fails all the same, everything up to the ban map was done.\<close>

lemma apply_config_fails:
  assumes "validate cfg = Inr ()" "compile pol = Inr c" "maps_ok (w_maps w)"
    and "card (set (co_from_tcp c)) \<le> 4096" "card (set (co_from_udp c)) \<le> 4096"
    and "apply_config cfg pol eph w = (w', Inl x)"
  shows "in_force c (w_maps w') \<and> settings_for cfg pol eph (w_settings w') \<and> sh_enforce (w_shared w') = enforce cfg"
proof -
  define w1 where "w1 = w\<lparr>w_settings := (w_settings w)(CFG_ENFORCE \<mapsto> bit32 (enforce cfg), CFG_EPHEMERAL_LOW \<mapsto> eph, CFG_DROP_PING \<mapsto> bit32 (\<not> p_allow_ping pol))\<rparr>"
  obtain cs where cs: "blocked_cidrs cfg = Inr cs" using assms(1) by (auto simp: validate_iff)
  have run: "apply_config cfg pol eph w =
      seq (put_compiled c) (seq (configure_shared cfg) (on_shared (block_listed cs))) w1"
    by (simp add: apply_config_def seq_setting cfg_defs w1_def assms(2) cs)
  have ok1: "maps_ok (w_maps w1)" using assms(3) by (simp add: w1_def)
  note rates = compile_rates_ok [OF assms(2)]
  obtain w6 where pc: "put_compiled c w1 = (w6, Inr ())" using put_compiled_room [OF ok1 rates assms(4,5)] by blast
  note k = put_compiled_ok [OF pc ok1 rates]
  have lift: "sh_enforce (fold lift_ban ips s) = sh_enforce s" for ips s
    by (induction ips arbitrary: s) (simp_all add: lift_ban_def)
  have ban: "sh_enforce (fst (each config_ban ips s)) = sh_enforce s" for ips s
    by (induction ips arbitrary: s) (auto simp: config_ban_def seq_def split: prod.splits sum.splits option.splits)
  have "sh_enforce (fst (block_listed cs s)) = sh_enforce s" for s
    using ban [of "remdups (concat (map cidr_ips cs))" "lift_stale (remdups (concat (map cidr_ips cs))) s"]
    by (auto simp: block_listed_def Let_def lift_stale_def lift seq_def split: prod.splits sum.splits)
  moreover obtain w7 where w7: "configure_shared cfg w6 = (w7, Inr ())" "w_maps w7 = w_maps w6" "w_settings w7 = w_settings w6"
    "sh_enforce (w_shared w7) = enforce cfg" by (simp add: configure_shared_def)
  moreover have "w' = w7\<lparr>w_shared := fst (block_listed cs (w_shared w7))\<rparr>"
    using assms(6) unfolding run using pc w7(1) by (auto simp: seq_def on_shared_def split: prod.splits)
  ultimately show ?thesis
    using k by (simp add: settings_for_def w1_def cfg_defs)
qed

section \<open>Feeds into the kernel\<close>

interpretation feed_trie: mirrored "\<lambda>_. True" "\<lambda>t k. k \<in> t" "trie_insert FEED_ENTRIES" trie_remove
  by unfold_locales (auto simp: trie_insert_def trie_remove_def split: if_splits)

text \<open>The history entry \<open>apply_feeds\<close> may write is its last component; the outer option is a panic of \<open>auto_protected\<close>.\<close>

definition apply_feeds ::
  "config \<Rightarrow> host \<Rightarrow> feed_disk \<Rightarrow> (string \<times> string option) list \<Rightarrow> kernel_maps
   \<Rightarrow> (kernel_maps \<times> feed_state list \<times> (string \<times> string) option) option" where
  "apply_feeds cfg h disk results k =
     do {
       own \<leftarrow> auto_protected h;
       let protected = own @ (case trusted_cidrs cfg of Inr ts \<Rightarrow> ts | Inl _ \<Rightarrow> []);
       (nets, states) \<leftarrow> load_feeds (c_feeds cfg) protected results disk;
       let wanted = remdups (map net_key nets);
       let (t1, _) = run_try trie_remove (map feed_key (hs_diff (km_feed_nets k) wanted)) (km_feeds k);
       let (t2, failed) = run_try (trie_insert FEED_ENTRIES) (map feed_key (hs_diff wanted (km_feed_nets k))) t1;
       let changed = (set wanted \<noteq> set (km_feed_nets k));
       let first_load = (km_feed_nets k = []);
       Some (k\<lparr>km_feeds := t2, km_feed_nets := wanted\<rparr>, states,
         if changed \<and> \<not> (first_load \<and> results = [])
         then Some (''feeds'', show_nat (length wanted) @ '' networks from '' @ join '', '' (map fs_name states)) else None)
     }"

lemma bytes32_inj: "bytes32 a = bytes32 b \<longleftrightarrow> a = b"
proof
  assume "bytes32 a = bytes32 b"
  then have "map (bit a) (rev [0..<32]) = map (bit b) (rev [0..<32])" by (metis bytes32_bits)
  then show "a = b" by (auto intro!: bit_word_eqI)
qed simp

lemma feed_key_inj:
  assumes "cidr_wf n a" "cidr_wf m b" "feed_key (net_key a) = feed_key (net_key b)"
  shows "a = b"
proof -
  note n = leading_ones_mask [OF assms(1)] leading_ones_mask [OF assms(2)]
  have le: "n \<le> 32" "m \<le> 32" using assms(1,2) by (simp_all add: cidr_wf_def)
  have "(of_nat n :: u32) = of_nat m" and net: "ci_net a = ci_net b"
    using assms(3) by (simp_all add: feed_key_def net_key_def bytes32_inj n)
  then have "unat (of_nat n :: u32) = unat (of_nat m :: u32)" by simp
  then have "n = m" using le by (simp add: unat_of_nat)
  then show ?thesis using assms(1,2) net by (cases a; cases b) (simp add: cidr_wf_def)
qed

text \<open>The remembered feed networks are networks, and nothing else is in the trie.\<close>

definition feeds_ok :: "kernel_maps \<Rightarrow> bool" where
  "feeds_ok k = ((\<forall>n \<in> set (km_feed_nets k). \<exists>c i. n = net_key c \<and> cidr_wf i c) \<and> km_feeds k \<subseteq> feed_key ` set (km_feed_nets k))"

lemma feed_diff:
  assumes "\<forall>n \<in> set xs \<union> set ys. \<exists>c i. n = net_key c \<and> cidr_wf i c"
  shows "map feed_key (hs_diff xs ys) = hs_diff (map feed_key xs) (map feed_key ys)"
proof -
  have "feed_key x \<in> feed_key ` set ys \<longleftrightarrow> x \<in> set ys" if "x \<in> set xs" for x
  proof
    assume "feed_key x \<in> feed_key ` set ys"
    then obtain y where y: "y \<in> set ys" "feed_key x = feed_key y" by auto
    from assms that y(1) obtain a i b j where "x = net_key a" "cidr_wf i a" "y = net_key b" "cidr_wf j b" by blast
    with feed_key_inj y show "x \<in> set ys" by metis
  qed simp
  then show ?thesis by (simp add: hs_diff_def filter_map o_def cong: filter_cong)
qed

lemma auto_protected_total: "default_route h \<noteq> None \<Longrightarrow> \<exists>own. auto_protected h = Some own"
  by (auto simp: auto_protected_def)

lemma apply_feeds_parts:
  assumes "apply_feeds cfg h disk results k = Some (k', states, hist)" "feeds_ok k"
  obtains own nets where "auto_protected h = Some own"
    "load_feeds (c_feeds cfg) (own @ (case trusted_cidrs cfg of Inr ts \<Rightarrow> ts | Inl _ \<Rightarrow> [])) results disk = Some (nets, states)"
    "feeds_ok k'" "set (km_feed_nets k') = net_key ` set nets" "\<exists>t ns. k' = k\<lparr>km_feeds := t, km_feed_nets := ns\<rparr>"
proof -
  obtain own nets where own: "auto_protected h = Some own"
    and nets: "load_feeds (c_feeds cfg) (own @ (case trusted_cidrs cfg of Inr ts \<Rightarrow> ts | Inl _ \<Rightarrow> [])) results disk = Some (nets, states)"
    and k': "k' = k\<lparr>km_feeds := fst (run_try (trie_insert FEED_ENTRIES) (map feed_key (hs_diff (remdups (map net_key nets)) (km_feed_nets k)))
        (fst (run_try trie_remove (map feed_key (hs_diff (km_feed_nets k) (remdups (map net_key nets)))) (km_feeds k)))),
      km_feed_nets := remdups (map net_key nets)\<rparr>"
    using assms(1) by (auto simp: apply_feeds_def bind_eq_Some_conv Let_def case_prod_unfold)
  let ?w = "remdups (map net_key nets)"
  have wf: "\<exists>c i. n = net_key c \<and> cidr_wf i c" if "n \<in> set ?w" for n
    using that load_feeds_set [OF nets] cidr_parse_wf by fastforce
  have both: "\<forall>n \<in> set (km_feed_nets k) \<union> set ?w. \<exists>c i. n = net_key c \<and> cidr_wf i c"
    using assms(2) wf unfolding feeds_ok_def by blast
  have d: "map feed_key (hs_diff (km_feed_nets k) ?w) = hs_diff (map feed_key (km_feed_nets k)) (map feed_key ?w)"
    "map feed_key (hs_diff ?w (km_feed_nets k)) = hs_diff (map feed_key ?w) (map feed_key (km_feed_nets k))"
    by (rule feed_diff, use both in blast)+
  have "x \<in> set (map feed_key ?w)" if "x \<in> km_feeds k'" for x
    by (rule feed_trie.sync_try [of "km_feeds k" "map feed_key (km_feed_nets k)"])
      (use that assms(2) in \<open>auto simp: k' d feeds_ok_def\<close>)
  then have "km_feeds k' \<subseteq> feed_key ` set ?w" by auto
  then have "feeds_ok k'" using wf unfolding feeds_ok_def by (simp add: k')
  then show ?thesis using own nets k' by (intro that [of own nets]) auto
qed

section \<open>Properties\<close>

text \<open>C10: when applying a config succeeds, what was asked is what the kernel has: the rule maps hold exactly the compiled policy (nothing of
  the previous one is left, no rate limit lingers), the settings are those of the config, every address of a blocked network is banned for good,
  and a ban that only the previous config asked for is lifted while all others stay.\<close>

theorem config_in_force:
  assumes "apply_config cfg pol eph w = (w', Inr ())" "maps_ok (w_maps w)" "hm_ok (sh_records (w_shared w))"
  shows "(\<exists>c. compile pol = Inr c \<and> in_force c (w_maps w')) \<and> maps_ok (w_maps w') \<and> settings_for cfg pol eph (w_settings w')
    \<and> bl_get (sh_blocklist (w_shared w')) x =
      (if listed_in cfg x then Some BAN_FOREVER
       else if (\<exists>r. hm_get (sh_records (w_shared w)) x = Some r \<and> br_source r = ''config'') then None
       else bl_get (sh_blocklist (w_shared w)) x)"
  using apply_config_ok [OF assms] by blast

definition world0 :: world where
  "world0 = \<lparr>w_settings = Map.empty, w_maps = maps_init, w_shared = shared_init shipped_config \<lparr>bl_v4 = [], bl_v6 = Some []\<rparr>\<rparr>"

lemma shipped_policy: "\<exists>c. compile (policy_of shipped_config None) = Inr c \<and> co_from_tcp c = [] \<and> co_from_udp c = [] \<and> 5353 \<in> set (co_udp c)"
  by (simp add: policy_of_def shipped_config_def config_default_def compile_def expand_def port_range_def)

lemma world0_applies: "\<exists>w'. apply_config shipped_config (policy_of shipped_config None) 32768 world0 = (w', Inr ())"
proof -
  obtain c where c: "compile (policy_of shipped_config None) = Inr c" "co_from_tcp c = []" "co_from_udp c = []"
    using shipped_policy by blast
  have b: "blocked_cidrs shipped_config = Inr []" by (simp add: blocked_cidrs_def shipped_config_def config_default_def)
  show ?thesis
    by (rule apply_config_total [OF rules_default policy_of_ok [OF rules_default] _ c(1) _ _ b])
      (simp_all add: c world0_def maps_init_ok shared_init_def)
qed

lemma config_in_force_witness:
  "\<exists>w'. apply_config shipped_config (policy_of shipped_config None) 32768 world0 = (w', Inr ()) \<and> port_open (km_udp (w_maps w')) 5353"
proof -
  obtain w' where w': "apply_config shipped_config (policy_of shipped_config None) 32768 world0 = (w', Inr ())"
    using world0_applies by blast
  have "maps_ok (w_maps world0)" "hm_ok (sh_records (w_shared world0))"
    by (simp_all add: world0_def maps_init_ok shared_init_def)
  from config_in_force [OF w' this] obtain c where "compile (policy_of shipped_config None) = Inr c" "in_force c (w_maps w')" by blast
  with w' shipped_policy show ?thesis by (auto simp: in_force_def)
qed

text \<open>C23: a config that validates can be put into force: with at most 4096 rule entries per protocol and room in the ban map for its
  blocked addresses, applying it succeeds from any state in which the maps mirror what is remembered.\<close>

theorem validated_config_applies:
  assumes "validate cfg = Inr ()" "maps_ok (w_maps w)"
    and "\<And>c. compile (policy_of cfg prof) = Inr c \<Longrightarrow> card (set (co_from_tcp c)) \<le> 4096 \<and> card (set (co_from_udp c)) \<le> 4096"
    and "\<And>cs. blocked_cidrs cfg = Inr cs \<Longrightarrow>
      length (bl_v4 (sh_blocklist (w_shared w))) + length (remdups (concat (map cidr_ips cs))) \<le> 65536"
  shows "\<exists>w'. apply_config cfg (policy_of cfg prof) eph w = (w', Inr ())"
proof -
  note p = policy_of_ok [OF assms(1), of prof]
  obtain c where c: "compile (policy_of cfg prof) = Inr c" using compile_ok [OF p] by blast
  obtain cs where cs: "blocked_cidrs cfg = Inr cs" using assms(1) by (auto simp: validate_iff)
  show ?thesis using apply_config_total [OF assms(1) p assms(2) c _ _ cs] assms(3) [OF c] assms(4) [OF cs] by blast
qed

lemma validated_config_applies_witness:
  "\<exists>w'. apply_config shipped_config (policy_of shipped_config None) 32768 world0 = (w', Inr ())"
proof (rule validated_config_applies [OF rules_default])
  show "maps_ok (w_maps world0)" by (simp add: world0_def maps_init_ok)
  show "card (set (co_from_tcp c)) \<le> 4096 \<and> card (set (co_from_udp c)) \<le> 4096"
    if "compile (policy_of shipped_config None) = Inr c" for c
    using that shipped_policy by auto
  show "length (bl_v4 (sh_blocklist (w_shared world0))) + length (remdups (concat (map cidr_ips cs))) \<le> 65536"
    if "blocked_cidrs shipped_config = Inr cs" for cs
    using that by (simp add: blocked_cidrs_def shipped_config_def config_default_def world0_def shared_init_def)
qed

text \<open>What the trie blocks after a feed update.\<close>

definition masks_ok :: "host \<Rightarrow> bool" where
  "masks_ok h = list_all (\<lambda>n. \<exists>i. cidr_wf i (in_net n)) (interface_networks h)"

lemma auto_protected_wf:
  assumes "auto_protected h = Some ps" "masks_ok h" "c \<in> set ps"
  shows "\<exists>n. cidr_wf n c"
proof -
  obtain n where "cidr_parse ''127.0.0.0/8'' = Inr n"
    using rmap_ok_iff [of cidr_parse RESERVED] reserved_parse by (auto simp: RESERVED_def)
  define W where "W = (\<lambda>c. \<exists>n. cidr_wf n c)"
  have "W (projr (cidr_parse ''127.0.0.0/8''))" using cidr_parse_wf [OF \<open>cidr_parse _ = Inr n\<close>] \<open>cidr_parse _ = Inr n\<close> by (simp add: W_def)
  moreover have "W (in_net n)" if "n \<in> set (interface_networks h)" for n
    using assms(2) that by (simp add: masks_ok_def list_all_iff W_def)
  moreover have "W (cidr_single a)" for a using cidr_single_wf by (auto simp: W_def)
  ultimately have "W c" using assms(1,3) by (auto simp: auto_protected_def split: option.splits)
  then show ?thesis by (simp add: W_def)
qed

lemma lpm_match_mono: "t \<subseteq> t' \<Longrightarrow> lpm_match t len key \<Longrightarrow> lpm_match t' len key"
  unfolding lpm_match_def by blast

lemma feeds_block_listed:
  assumes "feeds_ok k" "lpm_match (km_feeds k) 32 (bytes32 ip)" "set (km_feed_nets k) = net_key ` set nets" "\<forall>c \<in> set nets. \<exists>n. cidr_wf n c"
  shows "\<exists>c \<in> set nets. cidr_contains c ip"
proof -
  have "km_feeds k \<subseteq> feed_key ` net_key ` set nets" using assms(1,3) by (simp add: feeds_ok_def)
  then have "lpm_match (feed_key ` net_key ` set nets) 32 (bytes32 ip)" using assms(2) by (rule lpm_match_mono)
  then show ?thesis using lpm_feed_keys [OF assms(4)] by blast
qed

text \<open>C24: the kernel's feed check never drops what must not be dropped: after any feed update, the trie matches no reserved
  address, no address of this machine, of its router or of its name servers, and no address of a trusted network.\<close>

theorem feed_update_spares:
  assumes "apply_feeds cfg h disk results k = Some (k', states, hist)" "feeds_ok k" "masks_ok h"
    and "host_source h ip \<or> list_ex (\<lambda>c. cidr_contains c ip) reserved_nets
      \<or> (\<exists>ts. trusted_cidrs cfg = Inr ts \<and> list_ex (\<lambda>c. cidr_contains c ip) ts)"
  shows "\<not> lpm_match (km_feeds k') 32 (bytes32 ip) \<and> feeds_ok k'"
proof -
  define ts where "ts = (case trusted_cidrs cfg of Inr ts \<Rightarrow> ts | Inl _ \<Rightarrow> [])"
  obtain own nets where own: "auto_protected h = Some own"
    and nets: "load_feeds (c_feeds cfg) (own @ ts) results disk = Some (nets, states)"
    and ok: "feeds_ok k'" and set: "set (km_feed_nets k') = net_key ` set nets"
    using apply_feeds_parts [OF assms(1,2)] unfolding ts_def by metis
  have twf: "\<exists>n. cidr_wf n c" if "c \<in> set ts" for c
  proof (cases "trusted_cidrs cfg")
    case (Inr cs)
    then show ?thesis
      using that rmap_set [of cidr_parse "c_trusted cfg" cs] cidr_parse_wf by (auto simp: ts_def trusted_cidrs_def)
  qed (use that in \<open>simp add: ts_def\<close>)
  have wf: "\<forall>r \<in> set (reserved_nets @ own @ ts). \<exists>n. cidr_wf n r"
    using reserved_wf auto_protected_wf [OF own assms(3)] twf by auto
  have nwf: "\<forall>c \<in> set nets. \<exists>n. cidr_wf n c" using load_feeds_set [OF nets] cidr_parse_wf by blast
  obtain r where r: "r \<in> set (reserved_nets @ own @ ts)" "cidr_contains r ip"
    using assms(4) auto_protected_covers [OF own] by (fastforce simp: list_ex_iff ts_def)
  have "\<not> cidr_contains c ip" if c: "c \<in> set nets" for c
  proof
    assume ip: "cidr_contains c ip"
    obtain m where m: "cidr_wf m c" using nwf c by blast
    obtain n where n: "cidr_wf n r" using wf r(1) by blast
    have "overlaps r c" by (rule shared_overlaps [OF n m r(2) ip])
    with load_feeds_set [OF nets c] r(1) show False by auto
  qed
  then show ?thesis using feeds_block_listed [OF ok _ set nwf] ok by blast
qed

definition demo_host :: host where
  "demo_host = \<lparr>h_files = Map.empty, h_nmcli = None, h_ifaddrs = [(''eth0'', If_V4 0x09090909 (Some 0xFFFFFF00))],
     h_net_dir = [], h_boot = (1000, 0), h_unix = Some 1700000000\<rparr>"

lemma demo_host_facts: "default_route demo_host = Some None" "masks_ok demo_host" "host_source demo_host 0x09090909"
proof -
  show "default_route demo_host = Some None" by (simp add: default_route_def demo_host_def)
  have "interface_networks demo_host = [\<lparr>in_iface = ''eth0'', in_addr = 0x09090909, in_net = \<lparr>ci_net = 0x09090900, ci_mask = 0xFFFFFF00\<rparr>\<rparr>]"
    by (simp add: interface_networks_def demo_host_def map_filter_simps)
  moreover have "cidr_wf 24 \<lparr>ci_net = 0x09090900, ci_mask = 0xFFFFFF00\<rparr>"
    by (simp add: cidr_wf_def mask_eq_exp_minus_1)
  ultimately show "masks_ok demo_host" "host_source demo_host 0x09090909"
    by (auto simp: masks_ok_def host_source_def own_addresses_def)
qed

lemma feed_update_spares_witness:
  "\<exists>k' states hist. apply_feeds shipped_config demo_host demo_disk [] maps_init = Some (k', states, hist)
    \<and> \<not> lpm_match (km_feeds k') 32 (bytes32 0x09090909)"
proof -
  obtain own where own: "auto_protected demo_host = Some own"
    using demo_host_facts(1) by (simp add: auto_protected_def)
  have "trusted_cidrs shipped_config = Inr []" by (simp add: trusted_cidrs_def shipped_config_def config_default_def)
  moreover obtain nets states where "load_feeds (c_feeds shipped_config) (own @ []) [] demo_disk = Some (nets, states)"
    using load_feeds_total by blast
  ultimately have "\<exists>k' states hist. apply_feeds shipped_config demo_host demo_disk [] maps_init = Some (k', states, hist)"
    using own by (simp add: apply_feeds_def Let_def case_prod_unfold)
  then obtain k' states hist where a: "apply_feeds shipped_config demo_host demo_disk [] maps_init = Some (k', states, hist)" by blast
  have "feeds_ok maps_init" by (simp add: feeds_ok_def maps_init_def)
  from feed_update_spares [OF a this demo_host_facts(2), of "0x09090909"] demo_host_facts(3) a show ?thesis by blast
qed

end
