(* ===== verification/Bans.thy ===== *)
theory Bans
  imports Daemon
begin

text \<open>
  The life of a ban in the daemon (src/ai-firewall/src/daemon.rs: \<open>refresh_protection\<close>, \<open>restore\<close>, \<open>save\<close>, \<open>sweep\<close>, the event
  reader, \<open>enact\<close>, \<open>build_status\<close>). Entries for the history file are returned as a list; log lines are left out. The steps that
  change the shared state, the command line's among them, are the inductive relation \<open>daemon_step\<close>.
\<close>

section \<open>Handlers\<close>

type_synonym hist = "(string \<times> string \<times> string) list"

definition trusted_or_none :: "config \<Rightarrow> cidr list" where
  "trusted_or_none cfg = (case trusted_cidrs cfg of Inr ts \<Rightarrow> ts | Inl _ \<Rightarrow> [])"

text \<open>\<open>None\<close> is the panic of \<open>auto_protected\<close>.\<close>

definition refresh_protection :: "config \<Rightarrow> host \<Rightarrow> shared \<Rightarrow> shared option" where
  "refresh_protection cfg h s = do {
     own \<leftarrow> auto_protected h;
     let det = set_protected (own @ trusted_or_none cfg) (own_v6_prefixes h) (sh_detector s);
     let lift = map fst (filter (\<lambda>(ip, r). br_source r = ''auto'' \<and> is_protected det ip) (sh_records s));
     let s1 = fold lift_ban lift (s\<lparr>sh_detector := det\<rparr>);
     Some (if lift = [] then s1 else s1\<lparr>sh_dirty := True\<rparr>)
   }"

definition restore_secs :: "u64 \<Rightarrow> saved_ban \<Rightarrow> u64 option" where
  "restore_secs unix b =
     (if sb_expires_unix b = 0 then Some 0
      else if sb_expires_unix b > unix then Some (sb_expires_unix b - unix) else None)"

definition restore_ban :: "host \<Rightarrow> saved_ban \<Rightarrow> shared \<Rightarrow> shared" where
  "restore_ban h b s =
     (case restore_secs (unix_secs h) b of
        None \<Rightarrow> s
      | Some secs \<Rightarrow>
          let ip = sb_ip b;
              bl = (if bl_contains ip (sh_blocklist s) then sh_blocklist s
                    else opt_or (bl_insert ip (expiry_for (boot_ns h) secs) (sh_blocklist s)) (sh_blocklist s));
              recs = (if hm_has (sh_records s) ip then sh_records s
                      else hm_put ip \<lparr>br_reason = sb_reason b, br_source = sb_source b, br_strikes = sb_strikes b\<rparr> (sh_records s))
          in s\<lparr>sh_blocklist := bl, sh_records := recs\<rparr>)"

definition restore_off :: "host \<Rightarrow> saved_offender \<Rightarrow> shared \<Rightarrow> shared" where
  "restore_off h off s =
     s\<lparr>sh_detector := restore_offender (so_ip off)
        \<lparr>of_strikes = so_strikes off,
         of_last_ban = sat_sub (boot_secs h) (sat_sub (unix_secs h) (so_last_ban_unix off))\<rparr> (sh_detector s)\<rparr>"

definition restore :: "saved \<Rightarrow> host \<Rightarrow> shared \<Rightarrow> shared" where
  "restore sv h s = fold (restore_off h) (sv_offenders sv) (fold (restore_ban h) (sv_bans sv) s)"

definition save_state :: "(saved \<Rightarrow> error + string) \<Rightarrow> host \<Rightarrow> shared \<Rightarrow> fsys \<Rightarrow> shared \<times> fsys" where
  "save_state enc h s fs =
     (let (fs', r) = saved_store enc (capture h (sh_blocklist s) (sh_records s) (dt_offenders (sh_detector s))) fs
      in (case r of Inr _ \<Rightarrow> (s\<lparr>sh_dirty := False\<rparr>, fs') | Inl _ \<Rightarrow> (s, fs')))"

definition sweep_entry :: "u64 \<Rightarrow> src \<times> u64 \<Rightarrow> shared \<times> hist \<Rightarrow> shared \<times> hist" where
  "sweep_entry now e st =
     (let (ip, expiry) = e; (s, lg) = st in
      if remaining now expiry = None then
        let bl = opt_or (bl_remove ip (sh_blocklist s)) (sh_blocklist s) in
        (s\<lparr>sh_blocklist := bl, sh_records := hm_del ip (sh_records s), sh_dirty := True\<rparr>,
         case hm_get (sh_records s) ip of Some r \<Rightarrow> lg @ [(''expire'', show_src ip, br_reason r)] | None \<Rightarrow> lg)
      else if hm_has (sh_records s) ip then st
      else (s\<lparr>sh_records := hm_put ip manual_record (sh_records s), sh_dirty := True\<rparr>,
            lg @ [(''ban'', show_src ip, ''by hand'')]))"

definition sweep :: "host \<Rightarrow> shared \<Rightarrow> shared \<times> hist" where
  "sweep h s =
     (let entries = bl_entries (sh_blocklist s);
          present = map fst entries;
          (s1, lg) = fold (sweep_entry (boot_ns h)) entries (s, []);
          lifted = filter (\<lambda>ip. ip \<notin> set present) (map fst (sh_records s1));
          recs = hm_retain (\<lambda>ip _. ip \<in> set present) (sh_records s1)
      in (s1\<lparr>sh_records := recs, sh_dirty := (sh_dirty s1 \<or> length recs \<noteq> length (sh_records s1))\<rparr>,
          lg @ map (\<lambda>ip. (''lift'', show_src ip, ''by hand'')) lifted))"

text \<open>\<open>tui::duration\<close>.\<close>

definition pad2 :: "string \<Rightarrow> string" where
  "pad2 s = replicate (2 - length s) (CHR ''0'') @ s"

definition duration :: "u64 \<Rightarrow> string" where
  "duration secs =
     (if secs = 0 then ''forever''
      else if secs < 120 then show_word secs @ ''s''
      else if secs < 7200 then show_word (secs div 60) @ ''m''
      else show_word (secs div 3600) @ ''h'' @ pad2 (show_word (secs mod 3600 div 60)) @ ''m'')"

definition push_recent :: "recent_ban \<Rightarrow> recent_ban list \<Rightarrow> recent_ban list" where
  "push_recent r rs = (if length rs = RECENT_BANS then drop 1 rs else rs) @ [r]"

definition enact :: "host \<Rightarrow> ban \<Rightarrow> shared \<Rightarrow> shared \<times> hist" where
  "enact h b s =
     (let enforced = sh_enforce s; ip = ban_ip b;
          (s1, lg) =
            (if enforced then
               (case bl_insert ip (expiry_for (boot_ns h) (ban_secs b)) (sh_blocklist s) of
                  Some bl \<Rightarrow>
                    (s\<lparr>sh_blocklist := bl,
                       sh_records := hm_put ip
                         \<lparr>br_reason = ban_reason b @ '' ('' @ ban_ports b @ '')'', br_source = ''auto'', br_strikes = ban_strikes b\<rparr>
                         (sh_records s),
                       sh_dirty := True,
                       sh_notes := (if sh_notify_bans s then bn_push (show_src ip) (ban_reason b @ '' on '' @ ban_ports b) (sh_notes s)
                                    else sh_notes s)\<rparr>,
                     [(''ban'', show_src ip, ban_reason b @ '' on '' @ ban_ports b @ '', '' @ duration (ban_secs b)
                        @ '', strike '' @ show_word (ban_strikes b))])
                | None \<Rightarrow> (s, []))
             else (s, []))
      in (s1\<lparr>sh_recent := push_recent
            \<lparr>rb_ip = ip, rb_reason = ban_reason b, rb_ports = ban_ports b, rb_score = ban_score b, rb_secs = ban_secs b,
             rb_strikes = ban_strikes b, rb_at_unix = unix_secs h, rb_enforced = enforced\<rparr> (sh_recent s1)\<rparr>, lg))"

definition handle_event :: "host \<Rightarrow> packet_event \<Rightarrow> shared \<times> hist \<Rightarrow> shared \<times> hist" where
  "handle_event h ev st =
     (let (s, lg) = st; (det, b) = observe ev (boot_secs h) (sh_detector s); s1 = s\<lparr>sh_detector := det\<rparr> in
      case b of
        None \<Rightarrow> (s1, lg)
      | Some x \<Rightarrow> (let (s2, l) = enact h x s1 in (s2, lg @ l)))"

definition handle_batch :: "host \<Rightarrow> packet_event list \<Rightarrow> shared \<Rightarrow> shared \<times> hist" where
  "handle_batch h batch s = fold (handle_event h) batch (s, [])"

definition prune_shared :: "host \<Rightarrow> shared \<Rightarrow> shared" where
  "prune_shared h s = s\<lparr>sh_detector := prune (boot_secs h) (sh_detector s)\<rparr>"

section \<open>Status\<close>

record status_ban =
  st_ip :: src
  st_remaining_secs :: u64
  st_reason :: string
  st_source :: string
  st_strikes :: u32

definition status_ban_of :: "u64 \<Rightarrow> (src, ban_record) hmap \<Rightarrow> src \<times> u64 \<Rightarrow> status_ban option" where
  "status_ban_of now records e =
     (let rec = opt_or (hm_get records (fst e)) manual_record in do {
        left \<leftarrow> remaining now (snd e);
        Some \<lparr>st_ip = fst e, st_remaining_secs = left, st_reason = br_reason rec, st_source = br_source rec, st_strikes = br_strikes rec\<rparr>
      })"

definition status_bans :: "host \<Rightarrow> shared \<Rightarrow> status_ban list" where
  "status_bans h s = sort_key st_ip (List.map_filter (status_ban_of (boot_ns h) (sh_records s)) (bl_entries (sh_blocklist s)))"

section \<open>The invariant\<close>

definition bn_ok :: "ban_notes \<Rightarrow> bool" where
  "bn_ok n = (length (bn_shown n) \<le> bn_count n \<and> (0 < bn_count n \<longrightarrow> bn_shown n \<noteq> []))"

definition shared_ok :: "shared \<Rightarrow> bool" where
  "shared_ok s = (det_ok (sh_detector s) \<and> bl_ok (sh_blocklist s) \<and> hm_ok (sh_records s) \<and> length (sh_recent s) \<le> RECENT_BANS
     \<and> bn_ok (sh_notes s))"

lemma bn_default_ok: "bn_ok bn_default"
  by (simp add: bn_ok_def bn_default_def)

lemma bn_push_ok: "bn_ok n \<Longrightarrow> bn_ok (bn_push ip r n)"
  by (auto simp: bn_ok_def bn_push_def NOTE_SHOWN_def Let_def)

lemma bn_take_ok: "bn_ok n \<Longrightarrow> \<exists>n' note. bn_take now n = Some (n', note) \<and> bn_ok n'"
  by (cases "bn_shown n") (auto simp: bn_ok_def bn_take_def note_text_def Let_def)

lemma bn_flush_ok: "bn_ok n \<Longrightarrow> \<exists>n' sent'. bn_flush now (n, sent) = Some (n', sent') \<and> bn_ok n'"
  using bn_take_ok [of n now] by (auto simp: bn_flush_def)

lemma shared_ok_simps [simp]:
  "shared_ok (s\<lparr>sh_dirty := d\<rparr>) = shared_ok s"
  "shared_ok (s\<lparr>sh_enforce := e\<rparr>) = shared_ok s"
  "shared_ok (s\<lparr>sh_notify_bans := e\<rparr>) = shared_ok s"
  by (simp_all add: shared_ok_def)

lemma lift_ban_ok: "shared_ok s \<Longrightarrow> shared_ok (lift_ban ip s)"
  by (cases "bl_remove ip (sh_blocklist s)") (auto simp: shared_ok_def lift_ban_def hm_ok_del dest: bl_remove_ok)

lemma fold_lift_ok: "shared_ok s \<Longrightarrow> shared_ok (fold lift_ban ips s)"
  by (induction ips arbitrary: s) (simp_all add: lift_ban_ok)

lemma refresh_ok: "refresh_protection cfg h s = Some s' \<Longrightarrow> shared_ok s \<Longrightarrow> shared_ok s'"
proof -
  assume r: "refresh_protection cfg h s = Some s'" and ok: "shared_ok s"
  have "shared_ok (s\<lparr>sh_detector := set_protected ps ps6 (sh_detector s)\<rparr>)" for ps ps6
    using ok by (simp add: shared_ok_def set_protected_ok)
  then show ?thesis using r fold_lift_ok by (auto simp: refresh_protection_def bind_eq_Some_conv Let_def split: if_splits)
qed

lemma insert_or_ok: "bl_ok b \<Longrightarrow> bl_ok (opt_or (bl_insert ip e b) b)"
  by (cases "bl_insert ip e b") (auto dest: bl_insert_ok)

lemma restore_ban_ok: "shared_ok s \<Longrightarrow> shared_ok (restore_ban h b s)"
  by (auto simp: restore_ban_def shared_ok_def Let_def insert_or_ok hm_ok_put split: option.splits)

lemma restore_off_ok: "shared_ok s \<Longrightarrow> shared_ok (restore_off h off s)"
  by (simp add: restore_off_def shared_ok_def det_ok_def restore_offender_def hm_ok_put)

lemma fold_inv: "P s \<Longrightarrow> (\<And>x s. P s \<Longrightarrow> P (f x s)) \<Longrightarrow> P (fold f xs s)"
  by (induction xs arbitrary: s) simp_all

lemma restore_ok: "shared_ok s \<Longrightarrow> shared_ok (restore sv h s)"
  unfolding restore_def
  by (rule fold_inv [where P = shared_ok]; (rule fold_inv [where P = shared_ok])?) (simp_all add: restore_ban_ok restore_off_ok)

lemma sweep_entry_ok: "shared_ok (fst st) \<Longrightarrow> shared_ok (fst (sweep_entry now e st))"
proof -
  assume a: "shared_ok (fst st)"
  obtain s lg where st: "st = (s, lg)" by (cases st)
  obtain ip x where e: "e = (ip, x)" by (cases e)
  have "shared_ok (s\<lparr>sh_blocklist := opt_or (bl_remove ip (sh_blocklist s)) (sh_blocklist s), sh_records := hm_del ip (sh_records s)\<rparr>)"
    using lift_ban_ok [of s ip] a st by (simp add: lift_ban_def)
  then show ?thesis
    using a by (auto simp: sweep_entry_def st e shared_ok_def hm_ok_put Let_def split: option.splits)
qed

lemma sweep_ok: "shared_ok s \<Longrightarrow> shared_ok (fst (sweep h s))"
proof -
  assume "shared_ok s"
  then have "shared_ok (fst (fold (sweep_entry (boot_ns h)) (bl_entries (sh_blocklist s)) (s, [])))"
    using fold_inv [of "\<lambda>st. shared_ok (fst st)" "(s, [])" "sweep_entry (boot_ns h)"] sweep_entry_ok by simp
  then show ?thesis by (simp add: sweep_def Let_def case_prod_unfold shared_ok_def hm_ok_retain)
qed

lemma push_recent_length: "length rs \<le> RECENT_BANS \<Longrightarrow> length (push_recent r rs) \<le> RECENT_BANS"
  by (auto simp: push_recent_def RECENT_BANS_def)

lemma enact_ok: "shared_ok s \<Longrightarrow> shared_ok (fst (enact h b s))"
  by (auto simp: enact_def shared_ok_def Let_def hm_ok_put push_recent_length bn_push_ok split: option.splits dest: bl_insert_ok)

lemma handle_event_ok: "shared_ok (fst st) \<Longrightarrow> shared_ok (fst (handle_event h ev st))"
proof -
  assume a: "shared_ok (fst st)"
  obtain s lg where st: "st = (s, lg)" by (cases st)
  obtain det b where o: "observe ev (boot_secs h) (sh_detector s) = (det, b)" by (metis surj_pair)
  have "det_ok det" using observe_ok [of "sh_detector s" ev "boot_secs h"] a st o by (simp add: shared_ok_def)
  then have "shared_ok (s\<lparr>sh_detector := det\<rparr>)" using a st by (simp add: shared_ok_def)
  then show ?thesis
    using enact_ok [of "s\<lparr>sh_detector := det\<rparr>" h] by (auto simp: handle_event_def st o Let_def case_prod_unfold split: option.split)
qed

lemma handle_batch_ok: "shared_ok s \<Longrightarrow> shared_ok (fst (handle_batch h es s))"
  unfolding handle_batch_def using fold_inv [of "\<lambda>st. shared_ok (fst st)" "(s, [])" "handle_event h"] handle_event_ok by simp

lemma prune_shared_ok: "shared_ok s \<Longrightarrow> shared_ok (prune_shared h s)"
  by (simp add: prune_shared_def shared_ok_def prune_ok)

section \<open>Steps of the whole daemon\<close>

text \<open>Everything that changes the shared state once the daemon runs: its own handlers, and the command line, which changes the pinned maps behind
  the daemon's back.\<close>

inductive daemon_step :: "shared \<Rightarrow> shared \<Rightarrow> bool" where
  Packets: "daemon_step s (fst (handle_batch h es s))"
| Sweep: "daemon_step s (fst (sweep h s))"
| Refresh: "refresh_protection cfg h s = Some s' \<Longrightarrow> daemon_step s s'"
| Restore: "daemon_step s (restore sv h s)"
| Prune: "daemon_step s (prune_shared h s)"
| Save: "daemon_step s (fst (save_state enc h s fs))"
| Apply: "apply_config cfg pol eph w = (w', r) \<Longrightarrow> daemon_step (w_shared w) (w_shared w')"
| Cli_Ban: "bl_insert ip e (sh_blocklist s) = Some b \<Longrightarrow> daemon_step s (s\<lparr>sh_blocklist := b\<rparr>)"
| Cli_Unban: "bl_remove ip (sh_blocklist s) = Some b \<Longrightarrow> daemon_step s (s\<lparr>sh_blocklist := b\<rparr>)"

inductive reachable :: "shared \<Rightarrow> shared \<Rightarrow> bool" for s0 where
  start: "reachable s0 s0"
| step: "reachable s0 s \<Longrightarrow> daemon_step s s' \<Longrightarrow> reachable s0 s'"

text \<open>A step of \<open>apply_config\<close>, also one that fails half way, keeps the invariant of the shared state.\<close>

definition keeps :: "('s \<Rightarrow> bool) \<Rightarrow> 's step \<Rightarrow> bool" where
  "keeps P f = (\<forall>s. P s \<longrightarrow> P (fst (f s)))"

lemma keeps_seq: "keeps P f \<Longrightarrow> keeps P g \<Longrightarrow> keeps P (seq f g)"
  by (fastforce simp: keeps_def seq_def split: prod.splits sum.splits)

lemma keeps_each: "(\<And>x. keeps P (f x)) \<Longrightarrow> keeps P (each f xs)"
proof (induction xs)
  case (Cons x xs)
  have "each f (x # xs) = seq (f x) (each f xs)" by (rule ext) simp
  with Cons show ?case by (simp add: keeps_seq)
qed (simp add: keeps_def)

lemma keeps_with_ok: "(\<And>x. keeps P (f x)) \<Longrightarrow> keeps P (with_ok r f)"
  by (auto simp: keeps_def with_ok_def split: sum.splits)

lemma config_ban_keeps: "keeps shared_ok (config_ban ip)"
  by (auto simp: keeps_def config_ban_def shared_ok_def hm_ok_put split: option.splits dest: bl_insert_ok)

lemma block_listed_keeps: "keeps shared_ok (block_listed cs)"
proof -
  have "keeps shared_ok (seq (each config_ban l) (\<lambda>s. (s\<lparr>sh_dirty := True\<rparr>, Inr ())))" for l
    by (intro keeps_seq keeps_each config_ban_keeps) (simp add: keeps_def)
  then show ?thesis by (simp add: keeps_def block_listed_def Let_def lift_stale_def fold_lift_ok)
qed

text \<open>What every part of \<open>apply_config\<close> keeps, it keeps.\<close>

lemma apply_config_inv:
  assumes "\<And>slot v. slot \<in> {CFG_ENFORCE, CFG_EPHEMERAL_LOW, CFG_DROP_PING} \<Longrightarrow> keeps P (set_setting slot v)"
    and "\<And>ps. keeps P (put_tcp ps)" "\<And>ps. keeps P (put_udp ps)"
    and "\<And>ks. keeps P (put_from_tcp ks)" "\<And>ks. keeps P (put_from_udp ks)" "\<And>rs. keeps P (put_rates rs)"
    and "keeps P (configure_shared cfg)" "\<And>cs. keeps P (on_shared (block_listed cs))"
  shows "keeps P (apply_config cfg pol eph)"
proof -
  have "keeps P (put_compiled c)" for c
    unfolding put_compiled_def by (intro keeps_seq assms)
  then show ?thesis
    unfolding apply_config_def by (intro keeps_seq keeps_with_ok assms) simp_all
qed

lemma put_rates_eq: "\<exists>m. put_rates rates w = (w\<lparr>w_maps := (w_maps w)\<lparr>km_rate := m, km_rate_set := rates\<rparr>\<rparr>, Inr ())"
  unfolding put_rates_def seq_def each_zero each_rates by (auto simp: each_rates remember_rates_def)

text \<open>The parts of the world a step of \<open>apply_config\<close> writes.\<close>

lemma step_frames:
  "w_shared (fst (set_setting slot v w)) = w_shared w" "w_maps (fst (set_setting slot v w)) = w_maps w"
  "w_shared (fst (put_tcp ps w)) = w_shared w" "w_settings (fst (put_tcp ps w)) = w_settings w"
  "w_shared (fst (put_udp ps w)) = w_shared w" "w_settings (fst (put_udp ps w)) = w_settings w"
  "w_shared (fst (put_from_tcp ks w)) = w_shared w" "w_settings (fst (put_from_tcp ks w)) = w_settings w"
  "w_shared (fst (put_from_udp ks w)) = w_shared w" "w_settings (fst (put_from_udp ks w)) = w_settings w"
  "w_shared (fst (put_rates rs w)) = w_shared w" "w_settings (fst (put_rates rs w)) = w_settings w"
  "w_maps (fst (configure_shared cfg w)) = w_maps w" "w_settings (fst (configure_shared cfg w)) = w_settings w"
  "w_maps (fst (on_shared f w)) = w_maps w" "w_settings (fst (on_shared f w)) = w_settings w"
  using put_rates_eq [of rs w]
  by (auto simp: set_setting_def put_tcp_def put_udp_def put_from_tcp_def put_from_udp_def configure_shared_def on_shared_def
      case_prod_unfold Let_def split: option.split)

lemma step_feeds:
  "km_feeds (w_maps (fst (put_tcp ps w))) = km_feeds (w_maps w)" "km_feed_nets (w_maps (fst (put_tcp ps w))) = km_feed_nets (w_maps w)"
  "km_feeds (w_maps (fst (put_udp ps w))) = km_feeds (w_maps w)" "km_feed_nets (w_maps (fst (put_udp ps w))) = km_feed_nets (w_maps w)"
  "km_feeds (w_maps (fst (put_from_tcp ks w))) = km_feeds (w_maps w)" "km_feed_nets (w_maps (fst (put_from_tcp ks w))) = km_feed_nets (w_maps w)"
  "km_feeds (w_maps (fst (put_from_udp ks w))) = km_feeds (w_maps w)" "km_feed_nets (w_maps (fst (put_from_udp ks w))) = km_feed_nets (w_maps w)"
  "km_feeds (w_maps (fst (put_rates rs w))) = km_feeds (w_maps w)" "km_feed_nets (w_maps (fst (put_rates rs w))) = km_feed_nets (w_maps w)"
  using put_rates_eq [of rs w]
  by (auto simp: put_tcp_def put_udp_def put_from_tcp_def put_from_udp_def case_prod_unfold Let_def)

lemma apply_config_keeps: "keeps (\<lambda>w. shared_ok (w_shared w)) (apply_config cfg pol eph)"
proof (rule apply_config_inv)
  show "keeps (\<lambda>w. shared_ok (w_shared w)) (configure_shared cfg)"
    by (auto simp: keeps_def configure_shared_def shared_ok_def det_ok_def reconfigure_def)
  show "keeps (\<lambda>w. shared_ok (w_shared w)) (on_shared (block_listed cs))" for cs
    using block_listed_keeps by (simp add: keeps_def on_shared_def case_prod_unfold Let_def)
qed (simp_all add: keeps_def step_frames)

lemma apply_config_feeds: "keeps (\<lambda>w. feeds_ok (w_maps w)) (apply_config cfg pol eph)"
  by (rule apply_config_inv) (simp_all add: keeps_def step_frames step_feeds feeds_ok_def)

lemma save_state_ok: "shared_ok s \<Longrightarrow> shared_ok (fst (save_state enc h s fs))"
  by (simp add: save_state_def case_prod_unfold Let_def split: sum.split)

lemma daemon_step_ok: "daemon_step s s' \<Longrightarrow> shared_ok s \<Longrightarrow> shared_ok s'"
proof (induction rule: daemon_step.induct)
  case (Apply cfg pol eph w w' r)
  then show ?case using apply_config_keeps [of cfg pol eph] by (metis fst_conv keeps_def)
next
  case (Cli_Ban ip e s b)
  then show ?case by (auto simp: shared_ok_def dest: bl_insert_ok)
next
  case (Cli_Unban ip s b)
  then show ?case by (auto simp: shared_ok_def dest: bl_remove_ok)
qed (simp_all add: handle_batch_ok sweep_ok refresh_ok restore_ok prune_shared_ok save_state_ok)

text \<open>In every state the daemon can reach, through any interleaving of packets, ticks, config reloads (also failing ones) and commands:
  at most 16384 sources are tracked and never a protected one, the ban maps stay within their 65536 and 16384 entries with one expiry per source, there is one record
  per source, and at most 20 recent bans are kept.\<close>

theorem daemon_invariant:
  assumes "reachable s0 s" "shared_ok s0"
  shows "shared_ok s"
  using assms by (induction rule: reachable.induct) (simp_all add: daemon_step_ok)

definition shared0 :: shared where
  "shared0 = shared_init shipped_config \<lparr>bl_v4 = [], bl_v6 = Some []\<rparr>"

lemma shared0_ok: "shared_ok shared0"
  by (simp add: shared0_def shared_init_def shared_ok_def detector_new_ok bl_ok_def bn_default_ok)

lemma daemon_invariant_witness: "shared_ok (fst (sweep demo_host (prune_shared demo_host shared0)))"
proof (rule daemon_invariant [OF _ shared0_ok])
  show "reachable shared0 (fst (sweep demo_host (prune_shared demo_host shared0)))"
    by (rule reachable.step [OF reachable.step [OF reachable.start]]) (rule Prune, rule Sweep)
qed

section \<open>Sweeping\<close>

lemma sweep_entry_get:
  "bl_get (sh_blocklist (fst (sweep_entry now (ip, e) (s, lg)))) x =
      (if x = ip \<and> remaining now e = None then None else bl_get (sh_blocklist s) x)"
  "hm_get (sh_records (fst (sweep_entry now (ip, e) (s, lg)))) x =
      (if x = ip then (if remaining now e = None then None else Some (opt_or (hm_get (sh_records s) x) manual_record))
       else hm_get (sh_records s) x)"
proof -
  have "sh_blocklist (lift_ban ip s) = opt_or (bl_remove ip (sh_blocklist s)) (sh_blocklist s)" by (simp add: lift_ban_def)
  then show "bl_get (sh_blocklist (fst (sweep_entry now (ip, e) (s, lg)))) x =
      (if x = ip \<and> remaining now e = None then None else bl_get (sh_blocklist s) x)"
    using lift_ban_get [of ip s x] by (auto simp: sweep_entry_def Let_def split: option.splits)
  show "hm_get (sh_records (fst (sweep_entry now (ip, e) (s, lg)))) x =
      (if x = ip then (if remaining now e = None then None else Some (opt_or (hm_get (sh_records s) x) manual_record))
       else hm_get (sh_records s) x)"
    by (auto simp: sweep_entry_def Let_def hm_get_del hm_get_put hm_has_def split: option.splits)
qed

lemma sweep_fold:
  "hm_ok es \<Longrightarrow>
    bl_get (sh_blocklist (fst (fold (sweep_entry now) es (s, lg)))) x =
      (if \<exists>e. hm_get es x = Some e \<and> remaining now e = None then None else bl_get (sh_blocklist s) x)
    \<and> hm_get (sh_records (fst (fold (sweep_entry now) es (s, lg)))) x =
      (case hm_get es x of
         None \<Rightarrow> hm_get (sh_records s) x
       | Some e \<Rightarrow> if remaining now e = None then None else Some (opt_or (hm_get (sh_records s) x) manual_record))"
proof (induction es arbitrary: s lg)
  case (Cons e0 es)
  obtain ip e where e0: "e0 = (ip, e)" by (cases e0)
  obtain s1 lg1 where s1: "sweep_entry now (ip, e) (s, lg) = (s1, lg1)" by (metis surj_pair)
  note one = sweep_entry_get [of now ip e s lg x, unfolded s1 fst_conv]
  have "ip \<notin> fst ` set es" using Cons.prems e0 by simp
  then have no: "hm_get es ip = None" by (simp add: map_of_eq_None_iff)
  have "hm_ok es" using Cons.prems by simp
  from Cons.IH [OF this, of s1 lg1] one no show ?case
    by (cases "x = ip") (simp_all add: e0 s1 split: option.splits)
qed simp

text \<open>C25: a tick brings the daemon's view and the kernel's together. After a sweep the ban maps hold exactly the bans that were in force, with
  their expiries; there is a record for exactly these, the old one or, for a ban made behind the daemon's back, that of a manual ban; the records of
  bans that expired or were lifted from the command line are gone.\<close>

theorem sweep_exact:
  assumes "shared_ok s" "sweep h s = (s', lg)"
  shows "bl_get (sh_blocklist s') x = (if live (boot_ns h) (bl_get (sh_blocklist s) x) then bl_get (sh_blocklist s) x else None)
    \<and> hm_get (sh_records s') x =
      (if live (boot_ns h) (bl_get (sh_blocklist s) x) then Some (opt_or (hm_get (sh_records s) x) manual_record) else None)"
proof -
  define es where "es = bl_entries (sh_blocklist s)"
  have get: "hm_get es y = bl_get (sh_blocklist s) y" for y by (simp add: es_def entries_get)
  have ok: "hm_ok es" using assms(1) entries_distinct by (simp add: es_def shared_ok_def)
  obtain s1 lg1 where s1: "fold (sweep_entry (boot_ns h)) es (s, []) = (s1, lg1)" by (metis surj_pair)
  note f = sweep_fold [OF ok, of "boot_ns h" s "[]" x, unfolded s1 fst_conv get]
  have "shared_ok s1"
    using fold_inv [of "\<lambda>st. shared_ok (fst st)" "(s, [])" "sweep_entry (boot_ns h)" es] sweep_entry_ok assms(1) s1 by simp
  then have r1: "hm_ok (sh_records s1)" by (simp add: shared_ok_def)
  have s': "sh_blocklist s' = sh_blocklist s1" "sh_records s' = hm_retain (\<lambda>ip _. ip \<in> set (map fst es)) (sh_records s1)"
    using assms(2) s1 by (auto simp: sweep_def Let_def es_def)
  have "x \<in> set (map fst es) \<longleftrightarrow> bl_get (sh_blocklist s) x \<noteq> None"
    by (simp add: get [symmetric] map_of_eq_None_iff)
  then show ?thesis
    using f by (cases "bl_get (sh_blocklist s) x") (auto simp: s' hm_get_retain [OF r1] remaining_live live_def split: option.splits)
qed

definition swept :: shared where
  "swept = shared0\<lparr>sh_blocklist := \<lparr>bl_v4 = [(1, 5), (2, 0)], bl_v6 = None\<rparr>\<rparr>"

lemma sweep_exact_witness:
  "\<exists>s' lg. sweep demo_host swept = (s', lg) \<and> bl_get (sh_blocklist s') (V4 1) = None
    \<and> bl_get (sh_blocklist s') (V4 2) = Some BAN_FOREVER \<and> hm_get (sh_records s') (V4 2) = Some manual_record"
proof -
  obtain s' lg where s': "sweep demo_host swept = (s', lg)" by (metis surj_pair)
  have ok: "shared_ok swept" using shared0_ok by (simp add: shared_ok_def swept_def bl_ok_def BLOCKLIST_ENTRIES_def)
  have now: "boot_ns demo_host = 1000000000000" by (simp add: boot_ns_def demo_host_def)
  have recs: "sh_records swept = []" by (simp add: swept_def shared0_def shared_init_def)
  show ?thesis
    using sweep_exact [OF ok s', of "V4 1"] sweep_exact [OF ok s', of "V4 2"] s' now
    by (simp add: live_def swept_def BAN_FOREVER_def recs [unfolded swept_def])
qed

section \<open>Protection\<close>

lemma refresh_effect:
  assumes "refresh_protection cfg h s = Some s'" "hm_ok (sh_records s)"
  shows "(let lifted = (\<exists>r. hm_get (sh_records s) x = Some r \<and> br_source r = ''auto'') \<and> is_protected (sh_detector s') x in
      bl_get (sh_blocklist s') x = (if lifted then None else bl_get (sh_blocklist s) x)
      \<and> hm_get (sh_records s') x = (if lifted then None else hm_get (sh_records s) x))
    \<and> (\<exists>own. auto_protected h = Some own \<and> dt_protected (sh_detector s') = own @ trusted_or_none cfg)"
proof -
  obtain own where own: "auto_protected h = Some own" using assms(1) by (auto simp: refresh_protection_def bind_eq_Some_conv)
  define det where "det = set_protected (own @ trusted_or_none cfg) (own_v6_prefixes h) (sh_detector s)"
  define lift where "lift = map fst (filter (\<lambda>(ip, r). br_source r = ''auto'' \<and> is_protected det ip) (sh_records s))"
  have d: "sh_detector (fold lift_ban ips t) = sh_detector t" for ips t
    by (induction ips arbitrary: t) (simp_all add: lift_ban_def)
  have eq: "s' = (let s1 = fold lift_ban lift (s\<lparr>sh_detector := det\<rparr>) in if lift = [] then s1 else s1\<lparr>sh_dirty := True\<rparr>)"
    using assms(1) unfolding refresh_protection_def own det_def lift_def by (simp add: Let_def)
  have s': "sh_blocklist s' = sh_blocklist (fold lift_ban lift (s\<lparr>sh_detector := det\<rparr>))"
    "sh_records s' = sh_records (fold lift_ban lift (s\<lparr>sh_detector := det\<rparr>))" "sh_detector s' = det"
    unfolding eq by (simp_all add: Let_def d)
  define L where "L \<longleftrightarrow> (\<exists>r. hm_get (sh_records s) x = Some r \<and> br_source r = ''auto'') \<and> is_protected det x"
  have "x \<in> set lift \<longleftrightarrow> L"
    using map_of_eq_Some_iff [OF assms(2)] by (auto simp: lift_def L_def image_iff)
  moreover have "dt_protected det = own @ trusted_or_none cfg" by (simp add: det_def set_protected_def Let_def)
  ultimately show ?thesis
    using fold_lift [of lift "s\<lparr>sh_detector := det\<rparr>" x] own unfolding s' L_def [symmetric] Let_def by simp
qed

text \<open>When the router, a name server or an own address changes to one the detector had banned, the ban is lifted: after the
  protected set is refreshed no automatic ban on a protected source is left in the records or the maps, and no other ban is touched.\<close>

theorem refresh_lifts:
  assumes "refresh_protection cfg h s = Some s'" "hm_ok (sh_records s)"
  shows "(let lifted = (\<exists>r. hm_get (sh_records s) x = Some r \<and> br_source r = ''auto'') \<and> is_protected (sh_detector s') x in
      bl_get (sh_blocklist s') x = (if lifted then None else bl_get (sh_blocklist s) x)
      \<and> hm_get (sh_records s') x = (if lifted then None else hm_get (sh_records s) x))
    \<and> (\<exists>own. auto_protected h = Some own \<and> dt_protected (sh_detector s') = own @ trusted_or_none cfg)"
  by (rule refresh_effect [OF assms])

definition auto_banned :: shared where
  "auto_banned = shared0\<lparr>sh_blocklist := \<lparr>bl_v4 = [(0x09090909, 0)], bl_v6 = None\<rparr>,
     sh_records := [(V4 0x09090909, \<lparr>br_reason = ''port scan'', br_source = ''auto'', br_strikes = 1\<rparr>)]\<rparr>"

lemma refresh_lifts_witness:
  "\<exists>s'. refresh_protection shipped_config demo_host auto_banned = Some s' \<and> bl_get (sh_blocklist s') (V4 0x09090909) = None"
proof -
  obtain own where own: "auto_protected demo_host = Some own" using demo_host_facts(1) by (simp add: auto_protected_def)
  then obtain s' where s': "refresh_protection shipped_config demo_host auto_banned = Some s'"
    by (simp add: refresh_protection_def Let_def)
  have ok: "hm_ok (sh_records auto_banned)" by (simp add: auto_banned_def)
  have "\<exists>c \<in> set own. cidr_contains c 0x09090909" by (rule auto_protected_covers [OF own demo_host_facts(3)])
  moreover have "dt_protected (sh_detector s') = own @ trusted_or_none shipped_config" using refresh_lifts [OF s' ok] own by auto
  ultimately have "is_protected (sh_detector s') (V4 0x09090909)" by (auto simp: list_ex_iff)
  with refresh_lifts [OF s' ok, of "V4 0x09090909"] s' show ?thesis by (auto simp: auto_banned_def Let_def)
qed

section \<open>Status\<close>

text \<open>The status file tells the truth about bans: it lists a source exactly when a ban on it is in force, with the seconds left (0 for a
  permanent one), each source once and in order.\<close>

theorem status_exact:
  assumes "bl_ok (sh_blocklist s)"
  shows "((\<exists>b \<in> set (status_bans h s). st_ip b = ip \<and> st_remaining_secs b = left)
      \<longleftrightarrow> (\<exists>e. bl_get (sh_blocklist s) ip = Some e \<and> remaining (boot_ns h) e = Some left))
    \<and> sorted (map st_ip (status_bans h s)) \<and> distinct (map st_ip (status_bans h s))"
proof -
  let ?es = "bl_entries (sh_blocklist s)"
  let ?f = "status_ban_of (boot_ns h) (sh_records s)"
  have ok: "hm_ok ?es" by (rule entries_distinct [OF assms])
  have f: "?f e = Some b \<longleftrightarrow> (\<exists>l. remaining (boot_ns h) (snd e) = Some l
      \<and> b = \<lparr>st_ip = fst e, st_remaining_secs = l, st_reason = br_reason (opt_or (hm_get (sh_records s) (fst e)) manual_record),
        st_source = br_source (opt_or (hm_get (sh_records s) (fst e)) manual_record),
        st_strikes = br_strikes (opt_or (hm_get (sh_records s) (fst e)) manual_record)\<rparr>)" for e b
    by (auto simp: status_ban_of_def Let_def bind_eq_Some_conv)
  have mem: "b \<in> set (status_bans h s) \<longleftrightarrow> (\<exists>e \<in> set ?es. ?f e = Some b)" for b
    by (simp add: status_bans_def set_map_filter)
  have get: "(ip, e) \<in> set ?es \<longleftrightarrow> bl_get (sh_blocklist s) ip = Some e" for e
    using map_of_eq_Some_iff [OF ok] by (simp add: entries_get)
  have "(\<exists>b \<in> set (status_bans h s). st_ip b = ip \<and> st_remaining_secs b = left)
      \<longleftrightarrow> (\<exists>e. bl_get (sh_blocklist s) ip = Some e \<and> remaining (boot_ns h) e = Some left)"
    unfolding get [symmetric] by (force simp: mem f)
  moreover have "distinct (map st_ip (List.map_filter ?f xs)) \<and> st_ip ` set (List.map_filter ?f xs) \<subseteq> fst ` set xs" if "hm_ok xs" for xs
    using that
  proof (induction xs)
    case (Cons e xs)
    show ?case
    proof (cases "?f e")
      case None
      with Cons show ?thesis by (auto simp: map_filter_simps)
    next
      case (Some b)
      then have "st_ip b = fst e" using f [of e b] by auto
      with Cons Some show ?thesis by (auto simp: map_filter_simps)
    qed
  qed (simp add: map_filter_simps)
  then have "distinct (map st_ip (List.map_filter ?f ?es))" using ok by blast
  then have "distinct (map st_ip (status_bans h s))"
    unfolding status_bans_def distinct_map by (simp add: inj_on_def)
  moreover have "sorted (map st_ip (status_bans h s))" by (simp add: status_bans_def)
  ultimately show ?thesis by blast
qed

lemma status_exact_witness:
  "\<exists>b \<in> set (status_bans demo_host swept). st_ip b = V4 2 \<and> st_remaining_secs b = 0"
proof -
  have ok: "bl_ok (sh_blocklist swept)" by (simp add: swept_def bl_ok_def BLOCKLIST_ENTRIES_def)
  have "\<exists>e. bl_get (sh_blocklist swept) (V4 2) = Some e \<and> remaining (boot_ns demo_host) e = Some 0"
    by (simp add: swept_def remaining_def BAN_FOREVER_def)
  with status_exact [OF ok, of demo_host "V4 2" 0] show ?thesis by blast
qed

end
