(* ===== verification/Loop.thy ===== *)
theory Loop
  imports Bans
begin

text \<open>
  The daemon as a whole (src/ai-firewall/src/daemon.rs: \<open>run\<close>, \<open>with_posture\<close>, \<open>heal\<close>, \<open>attaches_changed\<close>, \<open>policy_summary\<close>,
  \<open>sources_differ\<close>, \<open>build_status\<close>): what it does at start and at each tick, one definition per block of the loop, and the
  steps everything around it can take in between. What the system answers during one tick is the record \<open>tick_env\<close>; the codecs and the
  command line are the record \<open>cli\<close>. A panic is \<open>None\<close>. The VM forwarding check of a tick is added in theory Service; log lines are left out.
\<close>

section \<open>Constants and state\<close>

definition PROTECT_REFRESH_TICKS :: u64 where "PROTECT_REFRESH_TICKS = 20"
definition SAVE_TICKS :: u64 where "SAVE_TICKS = 10"
definition FEED_CHECK_TICKS :: u64 where "FEED_CHECK_TICKS = 1200"

record attachment =
  at_iface :: string
  at_ifindex :: u32
  at_mode :: string
  at_egress :: bool

text \<open>\<open>dm_hist\<close> and \<open>dm_sent\<close> are what was recorded in the history and sent as notifications; \<open>dm_job\<close> is whether a feed refresh runs.\<close>

record dmn =
  dm_cfg :: config
  dm_profile :: "string option"
  dm_world :: world
  dm_cfg_mtime :: "u64 option"
  dm_posture_mtime :: "u64 option"
  dm_config_error :: "error option"
  dm_posture_error :: "error option"
  dm_links :: links
  dm_attachment :: "attachment option"
  dm_started :: u64
  dm_attaches :: u64
  dm_last_attaches :: u64
  dm_strict :: "bool option"
  dm_tick :: u64
  dm_feeds :: "feed_state list"
  dm_job :: bool
  dm_fs :: fsys
  dm_hist :: hist
  dm_sent :: "(u64 \<times> string \<times> string) list"

section \<open>Status\<close>

record status =
  ss_pid :: u32
  ss_mode :: string
  ss_interface :: "string option"
  ss_xdp_mode :: "string option"
  ss_udp_strict :: bool
  ss_started_unix :: u64
  ss_updated_unix :: u64
  ss_attaches :: u64
  ss_passed :: u64
  ss_dropped_blocklist :: u64
  ss_dropped_policy :: u64
  ss_dropped_feed :: u64
  ss_events_lost :: u64
  ss_tracked_sources :: nat
  ss_allow_tcp :: "string list"
  ss_allow_udp :: "string list"
  ss_ping :: bool
  ss_profile :: "string option"
  ss_profiles :: "string list"
  ss_rules :: "string list"
  ss_feeds :: "feed_state list"
  ss_feed_networks :: nat
  ss_config_error :: "error option"
  ss_posture :: "string option"
  ss_posture_error :: "error option"
  ss_bans :: "status_ban list"
  ss_recent :: "recent_ban list"

text \<open>The counters are per CPU and summed.\<close>

definition stat_of :: "(u32 \<rightharpoonup> u64 list) \<Rightarrow> u32 \<Rightarrow> u64" where
  "stat_of stats slot = (case stats slot of Some vs \<Rightarrow> sum_list vs | None \<Rightarrow> 0)"

definition udp_labels :: "policy \<Rightarrow> string list" where
  "udp_labels pol = fold (\<lambda>p ls. hs_insert (show_word p) ls) DHCP_CLIENT_PORTS (map spec_label (p_allow_udp pol))"

definition udp_strict_on :: "config \<Rightarrow> attachment option \<Rightarrow> bool" where
  "udp_strict_on cfg att = (c_udp_strict cfg \<and> (case att of Some a \<Rightarrow> at_egress a | None \<Rightarrow> False))"

definition build_status ::
  "u32 \<Rightarrow> config \<Rightarrow> policy \<Rightarrow> feed_state list \<Rightarrow> nat \<Rightarrow> host \<Rightarrow> shared \<Rightarrow> (u32 \<rightharpoonup> u64 list) \<Rightarrow> attachment option
   \<Rightarrow> u64 \<Rightarrow> u64 \<Rightarrow> status" where
  "build_status pid cfg pol feed_states feed_networks h s stats att started attaches =
     \<lparr>ss_pid = pid, ss_mode = c_mode cfg, ss_interface = map_option at_iface att, ss_xdp_mode = map_option at_mode att,
      ss_udp_strict = udp_strict_on cfg att, ss_started_unix = started, ss_updated_unix = unix_secs h, ss_attaches = attaches,
      ss_passed = stat_of stats STAT_PASSED, ss_dropped_blocklist = stat_of stats STAT_DROP_BLOCKLIST,
      ss_dropped_policy = stat_of stats STAT_DROP_POLICY, ss_dropped_feed = stat_of stats STAT_DROP_FEED,
      ss_events_lost = stat_of stats STAT_EVENTS_LOST, ss_tracked_sources = tracked (sh_detector s),
      ss_allow_tcp = map spec_label (p_allow_tcp pol), ss_allow_udp = udp_labels pol, ss_ping = p_allow_ping pol,
      ss_profile = p_profile pol, ss_profiles = map fst (c_profiles cfg), ss_rules = map rule_label (p_rules pol),
      ss_feeds = feed_states, ss_feed_networks = feed_networks, ss_config_error = None, ss_posture = c_posture cfg,
      ss_posture_error = None, ss_bans = status_bans h s, ss_recent = sh_recent s\<rparr>"

section \<open>What a tick gets from outside\<close>

record cli =
  su_pid :: u32
  su_path :: string
  su_iface :: "string option"
  su_toml :: "string \<Rightarrow> error + config"
  su_posture :: "string \<Rightarrow> error + posture"
  su_enc :: "saved \<Rightarrow> error + string"
  su_dec :: "string \<Rightarrow> saved option"
  su_status :: "status \<Rightarrow> error + string"

record tick_env =
  tk_host :: host
  tk_hup :: bool
  tk_mtime :: "string \<Rightarrow> u64 option"
  tk_posture :: file_read
  tk_tc :: link_env
  tk_xdp :: link_env
  tk_job :: "(string \<times> string option) list option"
  tk_disk :: feed_disk
  tk_stats :: "u32 \<rightharpoonup> u64 list"

definition with_posture :: "config \<Rightarrow> posture option \<Rightarrow> config" where
  "with_posture cfg p = (case p of Some p \<Rightarrow> posture_apply p cfg | None \<Rightarrow> cfg)"

definition override :: "string option \<Rightarrow> config \<Rightarrow> config" where
  "override iface cfg = (case iface of Some i \<Rightarrow> cfg\<lparr>c_interface := i\<rparr> | None \<Rightarrow> cfg)"

definition sources_differ :: "config \<Rightarrow> config \<Rightarrow> bool" where
  "sources_differ a b = (feed_sources (c_feeds a) \<noteq> feed_sources (c_feeds b))"

definition spec_list :: "port_spec list \<Rightarrow> string" where
  "spec_list v = (if v = [] then ''none'' else join '' '' (map spec_label v))"

text \<open>The separator is a middle dot, U+00B7, here as its two UTF-8 bytes.\<close>

definition dot :: string where
  "dot = ''  '' @ [char_of (0xC2 :: nat), char_of (0xB7 :: nat)] @ ''  ''"

definition policy_summary :: "policy \<Rightarrow> string" where
  "policy_summary p =
     ''open tcp: '' @ spec_list (p_allow_tcp p) @ dot @ ''udp: '' @ spec_list (p_allow_udp p) @ dot
     @ ''rules: '' @ show_nat (length (p_rules p))"

definition notified :: "host \<Rightarrow> string \<Rightarrow> string \<Rightarrow> dmn \<Rightarrow> dmn" where
  "notified h title body d = d\<lparr>dm_sent := dm_sent d @ [(unix_secs h, title, body)]\<rparr>"

definition feed_entry :: "(string \<times> string) option \<Rightarrow> hist" where
  "feed_entry note = (case note of Some (kind, detail) \<Rightarrow> [(kind, [], detail)] | None \<Rightarrow> [])"

section \<open>Following the uplink\<close>

definition wanted_iface :: "config \<Rightarrow> host \<Rightarrow> attachment option \<Rightarrow> string option option" where
  "wanted_iface cfg h att =
     (if c_interface cfg = ''auto''
      then map_option (\<lambda>route. case route of Some (i, _) \<Rightarrow> Some i | None \<Rightarrow> map_option at_iface att) (default_route h)
      else Some (Some (c_interface cfg)))"

text \<open>The second half of \<open>heal\<close>: nothing is attached any more.\<close>

definition attach_to :: "string option \<Rightarrow> host \<Rightarrow> link_env \<Rightarrow> link_env \<Rightarrow> links \<Rightarrow> (links \<times> attachment option) \<times> bool" where
  "attach_to wanted h et ex l =
     (case wanted of
        None \<Rightarrow> ((l, None), False)
      | Some iface \<Rightarrow>
          (case ifindex h iface of
             None \<Rightarrow> ((l, None), False)
           | Some idx \<Rightarrow>
               let l1 = fold unpin_both (filter (\<lambda>i. i \<noteq> iface) (pinned_ifaces l)) l;
                   (l2, r2) = attach_tc et iface idx l1;
                   (l3, r3) = attach_xdp ex iface idx l2
               in case r3 of
                    Inr (mode, _) \<Rightarrow>
                      ((l3, Some \<lparr>at_iface = iface, at_ifindex = idx, at_mode = mode, at_egress = (r2 = Inr ())\<rparr>), True)
                  | Inl _ \<Rightarrow> ((l3, None), False)))"

definition heal ::
  "config \<Rightarrow> host \<Rightarrow> link_env \<Rightarrow> link_env \<Rightarrow> links \<times> attachment option \<Rightarrow> ((links \<times> attachment option) \<times> bool) option" where
  "heal cfg h et ex st = do {
     let (l, att) = st;
     wanted \<leftarrow> wanted_iface cfg h att;
     Some (case att of
        Some a \<Rightarrow>
          if wanted = Some (at_iface a) \<and> ifindex h (at_iface a) = Some (at_ifindex a) then (st, False)
          else attach_to wanted h et ex (unpin_both (at_iface a) l)
      | None \<Rightarrow> attach_to wanted h et ex l)
   }"

section \<open>The blocks of a tick\<close>

definition adopt :: "cli \<Rightarrow> tick_env \<Rightarrow> config \<Rightarrow> dmn \<Rightarrow> dmn option" where
  "adopt su e cfg d =
     (let h = tk_host e;
          prof = profile_for cfg (active_connections h);
          (w, r) = apply_config cfg (policy_of cfg prof) (ephemeral_low h) (dm_world d)
      in case r of
           Inl x \<Rightarrow> Some (d\<lparr>dm_world := w, dm_config_error := Some x\<rparr>)
         | Inr _ \<Rightarrow> do {
             (k, states, note) \<leftarrow> apply_feeds cfg h (tk_disk e) [] (w_maps w);
             s \<leftarrow> refresh_protection cfg h (w_shared w);
             Some (d\<lparr>dm_world := w\<lparr>w_maps := k, w_shared := s\<rparr>, dm_config_error := None, dm_cfg := cfg, dm_profile := prof,
               dm_fs := remember_good (su_path su) (dm_fs d), dm_job := dm_job d \<or> sources_differ (dm_cfg d) cfg,
               dm_feeds := states, dm_hist := dm_hist d @ feed_entry note\<rparr>)
           })"

definition reload :: "cli \<Rightarrow> tick_env \<Rightarrow> dmn \<Rightarrow> dmn option" where
  "reload su e d =
     (let now = tk_mtime e (su_path su); now_posture = tk_mtime e POSTURE_PATH in
      if tk_hup e \<or> now \<noteq> dm_cfg_mtime d \<or> now_posture \<noteq> dm_posture_mtime d then
        let (posture, err) = posture_load (su_posture su) POSTURE_PATH (tk_posture e);
            (fs, r) = load_or_create (su_toml su) (su_path su) (dm_fs d);
            d1 = d\<lparr>dm_cfg_mtime := now, dm_posture_mtime := now_posture, dm_posture_error := err, dm_fs := fs\<rparr>
        in case r of
             Inr cfg \<Rightarrow> adopt su e (override (su_iface su) (with_posture cfg posture)) d1
           | Inl x \<Rightarrow>
               let d2 = (if dm_config_error d1 = None
                         then notified (tk_host e) ''Firewall config has an error''
                                ''The last config that worked stays in force. Check it: ai-firewall check'' d1
                         else d1)
               in Some (d2\<lparr>dm_config_error := Some x\<rparr>)
      else Some d)"

definition heal_tick :: "tick_env \<Rightarrow> dmn \<Rightarrow> dmn option" where
  "heal_tick e d = do {
     ((l, att), changed) \<leftarrow> heal (dm_cfg d) (tk_host e) (tk_tc e) (tk_xdp e) (dm_links d, dm_attachment d);
     Some (d\<lparr>dm_links := l, dm_attachment := att, dm_attaches := (if changed then dm_attaches d + 1 else dm_attaches d)\<rparr>)
   }"

definition strict_tick :: "dmn \<Rightarrow> dmn" where
  "strict_tick d =
     (let strict = udp_strict_on (dm_cfg d) (dm_attachment d) in
      if dm_strict d \<noteq> Some strict then
        (case set_setting CFG_UDP_STRICT (bit32 strict) (dm_world d) of
           (w, Inr _) \<Rightarrow> d\<lparr>dm_world := w, dm_strict := Some strict\<rparr>
         | (w, Inl _) \<Rightarrow> d\<lparr>dm_world := w\<rparr>)
      else d)"

definition on_world_shared :: "(shared \<Rightarrow> shared) \<Rightarrow> dmn \<Rightarrow> dmn" where
  "on_world_shared f d = d\<lparr>dm_world := (dm_world d)\<lparr>w_shared := f (w_shared (dm_world d))\<rparr>\<rparr>"

definition sweep_tick :: "tick_env \<Rightarrow> dmn \<Rightarrow> dmn option" where
  "sweep_tick e d = do {
     let h = tk_host e;
     let (s1, lg) = sweep h (w_shared (dm_world d));
     s2 \<leftarrow> (if dm_tick d mod PROTECT_REFRESH_TICKS = 0 then refresh_protection (dm_cfg d) h s1 else Some s1);
     (notes, sent) \<leftarrow> bn_flush (unix_secs h) (sh_notes s2, dm_sent d);
     Some (on_world_shared (\<lambda>_. s2\<lparr>sh_notes := notes\<rparr>) (d\<lparr>dm_hist := dm_hist d @ lg, dm_sent := sent\<rparr>))
   }"

text \<open>\<open>attaches_changed\<close> is not called, and so forgets nothing, at the ticks where the check is due anyway.\<close>

definition attaches_changed :: "u64 \<Rightarrow> u64 \<Rightarrow> u64 \<times> bool" where
  "attaches_changed before now = (now, before \<noteq> now)"

definition profile_tick :: "tick_env \<Rightarrow> dmn \<Rightarrow> dmn" where
  "profile_tick e d =
     (let h = tk_host e;
          (seen, due) = (if dm_tick d mod PROTECT_REFRESH_TICKS = 2 then (dm_last_attaches d, True)
                         else attaches_changed (dm_last_attaches d) (dm_attaches d));
          d1 = d\<lparr>dm_last_attaches := seen\<rparr>;
          prof = profile_for (dm_cfg d) (active_connections h);
          pol = policy_of (dm_cfg d) prof
      in if \<not> due \<or> prof = dm_profile d then d1
         else (case apply_config (dm_cfg d) pol (ephemeral_low h) (dm_world d) of
                 (w, Inl _) \<Rightarrow> d1\<lparr>dm_world := w\<rparr>
               | (w, Inr _) \<Rightarrow>
                   let name = opt_or prof ''default'' in
                   notified h (''Firewall profile: '' @ name) (policy_summary pol)
                     (d1\<lparr>dm_world := w, dm_hist := dm_hist d @ [(''profile'', [], name)], dm_profile := prof\<rparr>)))"

definition feed_tick :: "tick_env \<Rightarrow> dmn \<Rightarrow> dmn option" where
  "feed_tick e d =
     (let job = (dm_job d \<or> dm_tick d mod FEED_CHECK_TICKS = 0) in
      case (job, tk_job e) of
        (True, Some results) \<Rightarrow> do {
          (k, states, note) \<leftarrow> apply_feeds (dm_cfg d) (tk_host e) (tk_disk e) results (w_maps (dm_world d));
          Some (d\<lparr>dm_job := False, dm_world := (dm_world d)\<lparr>w_maps := k\<rparr>, dm_feeds := states,
            dm_hist := dm_hist d @ feed_entry note\<rparr>)
        }
      | _ \<Rightarrow> Some (d\<lparr>dm_job := job\<rparr>))"

definition status_of :: "cli \<Rightarrow> tick_env \<Rightarrow> dmn \<Rightarrow> status" where
  "status_of su e d =
     (build_status (su_pid su) (dm_cfg d) (policy_of (dm_cfg d) (dm_profile d)) (dm_feeds d)
        (length (km_feed_nets (w_maps (dm_world d)))) (tk_host e) (w_shared (dm_world d)) (tk_stats e) (dm_attachment d)
        (dm_started d) (dm_attaches d))\<lparr>ss_config_error := dm_config_error d, ss_posture_error := dm_posture_error d\<rparr>"

definition write_status :: "(status \<Rightarrow> error + string) \<Rightarrow> status \<Rightarrow> fsys \<Rightarrow> fsys" where
  "write_status enc st fs = (case enc st of Inl _ \<Rightarrow> fs | Inr text \<Rightarrow> fst (write_atomic STATUS_FILE text fs))"

definition status_tick :: "cli \<Rightarrow> tick_env \<Rightarrow> dmn \<Rightarrow> dmn" where
  "status_tick su e d =
     (let h = tk_host e;
          s1 = prune_shared h (w_shared (dm_world d));
          (s2, fs) = (if sh_dirty s1 \<or> dm_tick d mod SAVE_TICKS = 0 then save_state (su_enc su) h s1 (dm_fs d) else (s1, dm_fs d));
          d1 = on_world_shared (\<lambda>_. s2) (d\<lparr>dm_fs := fs\<rparr>)
      in d1\<lparr>dm_fs := write_status (su_status su) (status_of su e d1) fs\<rparr>)"

definition tick :: "cli \<Rightarrow> tick_env \<Rightarrow> dmn \<Rightarrow> dmn option" where
  "tick su e d = do {
     d1 \<leftarrow> reload su e (d\<lparr>dm_tick := dm_tick d + 1\<rparr>);
     d2 \<leftarrow> heal_tick e d1;
     d3 \<leftarrow> sweep_tick e (strict_tick d2);
     d4 \<leftarrow> feed_tick e (profile_tick e d3);
     Some (status_tick su e d4)
   }"

section \<open>Start\<close>

text \<open>The maps \<open>BLOCKLIST\<close> and \<open>BLOCKLIST6\<close> are pinned and come with what they held; the rule maps and settings are new.\<close>

definition start :: "cli \<Rightarrow> tick_env \<Rightarrow> blocklist \<Rightarrow> links \<Rightarrow> fsys \<Rightarrow> (error + dmn) option" where
  "start su e bl l fs = do {
     let h = tk_host e;
     let (fs1, loaded) = load_at_start (su_toml su) (su_path su) fs;
     (cfg0, cfg_error) \<leftarrow> loaded;
     let (posture, posture_error) = posture_load (su_posture su) POSTURE_PATH (tk_posture e);
     let cfg = override (su_iface su) (with_posture cfg0 posture);
     let prof = profile_for cfg (active_connections h);
     let fs2 = (if cfg_error = None then remember_good (su_path su) fs1 else fs1);
     let w0 = \<lparr>w_settings = Map.empty, w_maps = maps_init, w_shared = shared_init cfg bl\<rparr>;
     let (w, r) = apply_config cfg (policy_of cfg prof) (ephemeral_low h) w0;
     (case r of
        Inl x \<Rightarrow> Some (Inl x)
      | Inr _ \<Rightarrow> do {
          s \<leftarrow> refresh_protection cfg h (restore (saved_load (su_dec su) fs2) h (w_shared w));
          (k, states, note) \<leftarrow> apply_feeds cfg h (tk_disk e) [] (w_maps w);
          Some (Inr \<lparr>dm_cfg = cfg, dm_profile = prof, dm_world = w\<lparr>w_maps := k, w_shared := s\<rparr>,
            dm_cfg_mtime = tk_mtime e (su_path su), dm_posture_mtime = tk_mtime e POSTURE_PATH,
            dm_config_error = cfg_error, dm_posture_error = posture_error, dm_links = l, dm_attachment = None,
            dm_started = unix_secs h, dm_attaches = 0, dm_last_attaches = 0, dm_strict = None, dm_tick = 0, dm_feeds = states, dm_job = True,
            dm_fs = fs2, dm_hist = feed_entry note,
            dm_sent = (if cfg_error = None then []
              else [(unix_secs h, ''Firewall config has an error'',
                     ''Running with the last config that worked. Check it: ai-firewall check'')])\<rparr>)
        })
   }"

section \<open>Steps\<close>

text \<open>What everything around the daemon can do between two ticks: packets arrive, the command line bans and unbans, files and pins change.\<close>

inductive outside :: "dmn \<Rightarrow> dmn \<Rightarrow> bool" where
  Batch: "outside d (on_world_shared (\<lambda>s. fst (handle_batch h es s)) d)"
| Ban: "bl_insert ip x (sh_blocklist (w_shared (dm_world d))) = Some b \<Longrightarrow>
    outside d (on_world_shared (\<lambda>s. s\<lparr>sh_blocklist := b\<rparr>) d)"
| Unban: "bl_remove ip (sh_blocklist (w_shared (dm_world d))) = Some b \<Longrightarrow>
    outside d (on_world_shared (\<lambda>s. s\<lparr>sh_blocklist := b\<rparr>) d)"
| Edit: "outside d (d\<lparr>dm_fs := fs\<rparr>)"
| Relink: "outside d (d\<lparr>dm_links := l\<rparr>)"

inductive dmn_step :: "cli \<Rightarrow> dmn \<Rightarrow> dmn \<Rightarrow> bool" for su where
  Tick: "tick su e d = Some d' \<Longrightarrow> dmn_step su d d'"
| Outside: "outside d d' \<Longrightarrow> dmn_step su d d'"

inductive dmn_run :: "cli \<Rightarrow> dmn \<Rightarrow> dmn \<Rightarrow> bool" for su where
  Stay: "dmn_run su d d"
| Go: "dmn_run su d d' \<Longrightarrow> dmn_step su d' d'' \<Longrightarrow> dmn_run su d d''"

section \<open>Following the uplink\<close>

lemma pin_names: "pin_name ''tc'' i \<noteq> pin_name ''xdp'' j" "pin_name ''xdp'' i = pin_name ''xdp'' j \<longleftrightarrow> i = j"
  by (simp_all add: pin_name_def)

lemma pin_new_dir:
  "pin_new e kind iface idx mode l = (l', r) \<Longrightarrow> set (lk_dir l') = (if r = Inr () then insert (pin_name kind iface) (set (lk_dir l)) else set (lk_dir l))"
  by (auto simp: pin_new_def pin_def split: sum.splits)

lemma unpin_dir: "set (lk_dir (unpin kind iface l)) = set (lk_dir l) - {pin_name kind iface}"
  by (auto simp: unpin_def)

lemma attach_tc_dir: "attach_tc e iface idx l = (l', r) \<Longrightarrow> set (lk_dir l') \<subseteq> insert (pin_name ''tc'' iface) (set (lk_dir l))"
  by (auto simp: attach_tc_def Let_def unpin_dir split: if_splits sum.splits dest!: pin_new_dir)

lemma attach_xdp_dir:
  assumes "attach_xdp e iface idx l = (l', Inr (mode, reused))"
  shows "set (lk_dir l') \<subseteq> insert (pin_name ''xdp'' iface) (set (lk_dir l)) \<and> pin_name ''xdp'' iface \<in> set (lk_dir l')"
proof -
  define l1 where "l1 = (if pinned ''xdp'' iface l then unpin ''xdp'' iface l else l)"
  have sub: "set (lk_dir l1) \<subseteq> set (lk_dir l)" by (auto simp: l1_def unpin_dir)
  consider "l' = l" "pinned ''xdp'' iface l" | m where "pin_new e ''xdp'' iface idx m l1 = (l', Inr ())"
    using assms unfolding attach_xdp_def Let_def l1_def [symmetric]
    by (auto simp: rbind_Inr_iff split: if_splits option.splits sum.splits prod.splits)
  then show ?thesis
  proof cases
    case 2
    with sub show ?thesis using pin_new_dir [OF 2] by auto
  qed (auto simp: pinned_def)
qed

lemma attach_to_True:
  assumes "attach_to wanted h et ex l = ((l', att'), True)"
  shows "\<exists>a. att' = Some a \<and> wanted = Some (at_iface a) \<and> ifindex h (at_iface a) = Some (at_ifindex a)
    \<and> pinned ''xdp'' (at_iface a) l' \<and> set (pinned_ifaces l') \<subseteq> {at_iface a}"
proof -
  obtain iface where w: "wanted = Some iface" using assms by (auto simp: attach_to_def split: option.splits)
  obtain idx where i: "ifindex h iface = Some idx" using assms w by (auto simp: attach_to_def split: option.splits)
  define l1 where "l1 = fold unpin_both (filter (\<lambda>i. i \<noteq> iface) (pinned_ifaces l)) l"
  obtain l2 r2 where t: "attach_tc et iface idx l1 = (l2, r2)" by (metis surj_pair)
  obtain r3 where x: "attach_xdp ex iface idx l2 = (l', r3)" and a: "case r3 of
      Inr (mode, _) \<Rightarrow> att' = Some \<lparr>at_iface = iface, at_ifindex = idx, at_mode = mode, at_egress = (r2 = Inr ())\<rparr> | Inl _ \<Rightarrow> False"
    using assms w i t by (auto simp: attach_to_def l1_def [symmetric] split: prod.splits sum.splits)
  obtain mode reused where r3: "r3 = Inr (mode, reused)"
    and att: "att' = Some \<lparr>at_iface = iface, at_ifindex = idx, at_mode = mode, at_egress = (r2 = Inr ())\<rparr>"
    using a by (cases r3) auto
  note d = attach_xdp_dir [OF x [unfolded r3]]
  have "j = iface" if "j \<in> set (pinned_ifaces l')" for j
  proof (rule ccontr)
    assume j: "j \<noteq> iface"
    have m: "pin_name ''xdp'' j \<in> set (lk_dir l')" "\<not> ends_with ''.meta'' j" using that by (simp_all add: pinned_ifaces_set)
    then have "pin_name ''xdp'' j \<in> set (lk_dir l2)" using d j pin_names(2) by blast
    then have l1: "pin_name ''xdp'' j \<in> set (lk_dir l1)" using attach_tc_dir [OF t] pin_names(1) [of iface j] by auto
    then have "pin_name ''xdp'' j \<in> set (lk_dir l)" by (simp add: l1_def dir_unpin_fold)
    then have "j \<in> set (pinned_ifaces l)" using m(2) by (simp add: pinned_ifaces_set)
    with l1 j show False by (auto simp: l1_def dir_unpin_fold)
  qed
  then show ?thesis using d i w att by (auto simp: pinned_def)
qed

lemma heal_True:
  assumes "heal cfg h et ex (l, att) = Some ((l', att'), True)"
  shows "\<exists>a. att' = Some a \<and> wanted_iface cfg h att = Some (Some (at_iface a)) \<and> ifindex h (at_iface a) = Some (at_ifindex a)
    \<and> pinned ''xdp'' (at_iface a) l' \<and> set (pinned_ifaces l') \<subseteq> {at_iface a}"
proof -
  obtain wanted where w: "wanted_iface cfg h att = Some wanted" using assms by (auto simp: heal_def bind_eq_Some_conv)
  then have "\<exists>l1. attach_to wanted h et ex l1 = ((l', att'), True)"
    using assms by (auto simp: heal_def split: option.splits if_splits)
  then show ?thesis using attach_to_True w by metis
qed

text \<open>When \<open>heal\<close> says it attached the filter, it is where it should be: on the wanted interface (the one of the default route, or the
  configured one), under its current index, pinned, and pinned nowhere else. Doing it again changes nothing, whatever attaching would answer
  by then, so the daemon does not re-attach at every tick.\<close>

theorem heal_settles:
  assumes "heal cfg h et ex (l, att) = Some ((l', att'), True)"
  shows "(\<exists>a. att' = Some a \<and> wanted_iface cfg h att = Some (Some (at_iface a)) \<and> ifindex h (at_iface a) = Some (at_ifindex a)
      \<and> pinned ''xdp'' (at_iface a) l' \<and> set (pinned_ifaces l') \<subseteq> {at_iface a})
    \<and> heal cfg h et2 ex2 (l', att') = Some ((l', att'), False)"
proof -
  obtain a where a: "att' = Some a" "wanted_iface cfg h att = Some (Some (at_iface a))" "ifindex h (at_iface a) = Some (at_ifindex a)"
    using heal_True [OF assms] by blast
  then have "wanted_iface cfg h att' = Some (Some (at_iface a))"
    by (auto simp: wanted_iface_def split: if_splits option.splits)
  then have "heal cfg h et2 ex2 (l', att') = Some ((l', att'), False)" using a by (simp add: heal_def)
  then show ?thesis using heal_True [OF assms] by blast
qed

definition wifi_host :: host where
  "wifi_host = demo_host\<lparr>h_files := [''/sys/class/net/wlan0/ifindex'' \<mapsto> show_word (3 :: u32)]\<rparr>"

definition wifi_config :: config where
  "wifi_config = shipped_config\<lparr>c_interface := ''wlan0''\<rparr>"

lemma fresh_attach:
  assumes "\<not> pinned ''tc'' i l" "\<not> pinned ''xdp'' i l"
  shows "\<exists>l2 l3. attach_tc fresh_env i idx l = (l2, Inr ()) \<and> attach_xdp fresh_env i idx l2 = (l3, Inr (''generic'', False))"
proof -
  have t: "attach_tc fresh_env i idx l = (write_meta True ''tc'' i idx ''tcx'' (pin ''tc'' i l), Inr ())"
    using assms(1) by (simp add: attach_tc_def fresh_env_def retry_busy.simps [of _ 0] lift_err_def pin_new_def)
  have "\<not> pinned ''xdp'' i (write_meta True ''tc'' i idx ''tcx'' (pin ''tc'' i l))"
    using assms(2) pin_names(1) [of i i] by (auto simp: pinned_def pin_def)
  moreover have "contains_str ''busy'' ''not supported'' = False" by code_simp
  ultimately have "\<exists>l3. attach_xdp fresh_env i idx (write_meta True ''tc'' i idx ''tcx'' (pin ''tc'' i l)) = (l3, Inr (''generic'', False))"
    by (simp add: attach_xdp_def fresh_env_def retry_busy.simps [of _ 0] lift_err_def pin_new_def)
  with t show ?thesis by blast
qed

lemma heal_settles_witness:
  "\<exists>l' a. heal wifi_config wifi_host fresh_env fresh_env (\<lparr>lk_dir = [pin_name ''xdp'' ''eth0''], lk_meta = Map.empty\<rparr>, None) = Some ((l', Some a), True)
    \<and> set (pinned_ifaces l') \<subseteq> {at_iface a} \<and> heal wifi_config wifi_host fresh_env fresh_env (l', Some a) = Some ((l', Some a), False)"
proof -
  let ?l = "\<lparr>lk_dir = [pin_name ''xdp'' ''eth0''], lk_meta = Map.empty\<rparr>"
  have idx: "ifindex wifi_host ''wlan0'' = Some 3"
    using parse_show_nat [of "unat (3 :: u32)" 4294967295] by (simp add: ifindex_def wifi_host_def show_word_def parse_u32_def)
  have w: "wanted_iface wifi_config wifi_host None = Some (Some ''wlan0'')"
    by (simp add: wanted_iface_def wifi_config_def)
  define l1 where "l1 = fold unpin_both (filter (\<lambda>i. i \<noteq> ''wlan0'') (pinned_ifaces ?l)) ?l"
  have "\<not> pinned k ''wlan0'' l1" for k
    by (simp add: l1_def pinned_def dir_unpin_fold) (simp add: pin_name_def)
  then obtain l2 l3 where a: "attach_tc fresh_env ''wlan0'' 3 l1 = (l2, Inr ())" "attach_xdp fresh_env ''wlan0'' 3 l2 = (l3, Inr (''generic'', False))"
    using fresh_attach by blast
  then obtain a where h: "heal wifi_config wifi_host fresh_env fresh_env (?l, None) = Some ((l3, Some a), True)"
    unfolding heal_def Let_def prod.case w bind.bind_lunit option.case attach_to_def idx l1_def [symmetric] by simp
  from heal_settles [OF h, of fresh_env fresh_env] h show ?thesis by blast
qed

section \<open>The invariant of the daemon\<close>

definition strict_ok :: "bool option \<Rightarrow> world \<Rightarrow> bool" where
  "strict_ok strict w = (\<forall>b. strict = Some b \<longrightarrow> w_settings w CFG_UDP_STRICT = Some (bit32 b))"

definition dmn_ok :: "dmn \<Rightarrow> bool" where
  "dmn_ok d = (validate (dm_cfg d) = Inr () \<and> shared_ok (w_shared (dm_world d)) \<and> feeds_ok (w_maps (dm_world d))
     \<and> strict_ok (dm_strict d) (dm_world d))"

lemma override_valid: "validate (override iface cfg) = Inr () \<longleftrightarrow> validate cfg = Inr ()"
  by (cases iface) (simp_all add: override_def validate_iff trusted_cidrs_def blocked_cidrs_def)

lemma with_posture_valid:
  "posture_load toml path rd = (p, err) \<Longrightarrow> validate cfg = Inr () \<Longrightarrow> validate (with_posture cfg p) = Inr ()"
  by (auto simp: posture_load_def with_posture_def rbind_Inr_iff posture_apply_ok split: file_read.splits sum.splits)

lemma load_or_create_valid: "load_or_create toml path fs = (fs1, Inr cfg) \<Longrightarrow> validate cfg = Inr ()"
  by (auto simp: load_or_create_def parse_config_def rbind_Inr_iff Let_def ctx_def split: if_splits prod.splits sum.splits)

lemma load_at_start_ok: "load_at_start toml path fs = (fs1, Some (cfg, e)) \<Longrightarrow> validate cfg = Inr ()"
  by (auto simp: load_at_start_def parse_config_def rbind_Inr_iff split: sum.splits prod.splits dest: load_or_create_valid)

lemma set_setting_other: "slot \<noteq> x \<Longrightarrow> w_settings (fst (set_setting slot v w)) x = w_settings w x"
  by (simp add: set_setting_def arr_set_def)

lemma slots_not_strict: "slot \<in> {CFG_ENFORCE, CFG_EPHEMERAL_LOW, CFG_DROP_PING} \<Longrightarrow> slot \<noteq> CFG_UDP_STRICT"
  by (auto simp: cfg_defs)

lemma apply_config_setting: "keeps (\<lambda>w. w_settings w CFG_UDP_STRICT = x) (apply_config cfg pol eph)"
  by (rule apply_config_inv) (simp_all only: keeps_def step_frames set_setting_other [OF slots_not_strict] simp_thms HOL.simp_thms)

lemma apply_config_strict: "keeps (strict_ok b) (apply_config cfg pol eph)"
  using apply_config_setting [of "Some (bit32 (the b))"] by (cases b) (simp_all add: keeps_def strict_ok_def)

definition world_ok :: "bool option \<Rightarrow> world \<Rightarrow> bool" where
  "world_ok b w = (shared_ok (w_shared w) \<and> feeds_ok (w_maps w) \<and> strict_ok b w)"

lemma dmn_ok_world: "dmn_ok d \<longleftrightarrow> validate (dm_cfg d) = Inr () \<and> world_ok (dm_strict d) (dm_world d)"
  by (auto simp: dmn_ok_def world_ok_def)

lemma world_ok_simps [simp]:
  "world_ok b (w\<lparr>w_shared := s\<rparr>) \<longleftrightarrow> shared_ok s \<and> feeds_ok (w_maps w) \<and> strict_ok b w"
  "strict_ok b (w\<lparr>w_shared := s\<rparr>) = strict_ok b w"
  "strict_ok b (w\<lparr>w_maps := k\<rparr>) = strict_ok b w"
  by (simp_all add: world_ok_def strict_ok_def)

lemma apply_config_world:
  assumes "apply_config cfg pol eph w = (w', r)" "world_ok b w"
  shows "world_ok b w'"
proof -
  have "keeps P (apply_config cfg pol eph) \<Longrightarrow> P w \<Longrightarrow> P w'" for P
    using assms(1) by (metis fst_conv keeps_def)
  note k = this [OF apply_config_keeps] this [OF apply_config_feeds] this [OF apply_config_strict]
  show ?thesis using assms(2) k by (simp add: world_ok_def)
qed

lemma apply_feeds_ok:
  "apply_feeds cfg h disk results k = Some (k', states, nt) \<Longrightarrow> feeds_ok k \<Longrightarrow> feeds_ok k'"
  using apply_feeds_parts by metis

lemma adopt_ok:
  assumes "adopt su e cfg d = Some d'" "dmn_ok d" "validate cfg = Inr ()"
  shows "dmn_ok d'"
proof -
  define prof where "prof = profile_for cfg (active_connections (tk_host e))"
  obtain w r where a: "apply_config cfg (policy_of cfg prof) (ephemeral_low (tk_host e)) (dm_world d) = (w, r)" by (metis surj_pair)
  have w: "world_ok (dm_strict d) w" using apply_config_world [OF a] assms(2) by (simp add: dmn_ok_world)
  show ?thesis
  proof (cases r)
    case (Inl x)
    then have "d' = d\<lparr>dm_world := w, dm_config_error := Some x\<rparr>"
      using assms(1) a by (simp add: adopt_def prof_def [symmetric] Let_def)
    then show ?thesis using assms(2) w by (simp add: dmn_ok_world)
  next
    case (Inr u)
    then obtain k states nt s where f: "apply_feeds cfg (tk_host e) (tk_disk e) [] (w_maps w) = Some (k, states, nt)"
      and p: "refresh_protection cfg (tk_host e) (w_shared w) = Some s"
      and d': "dm_cfg d' = cfg" "dm_world d' = w\<lparr>w_maps := k, w_shared := s\<rparr>" "dm_strict d' = dm_strict d"
      using assms(1) a by (auto simp: adopt_def prof_def [symmetric] Let_def bind_eq_Some_conv)
    show ?thesis
      using w refresh_ok [OF p] apply_feeds_ok [OF f] assms(3) by (simp add: dmn_ok_world d' world_ok_def)
  qed
qed

lemma dmn_ok_simps [simp]:
  "dmn_ok (d\<lparr>dm_tick := n\<rparr>) = dmn_ok d" "dmn_ok (d\<lparr>dm_fs := fs\<rparr>) = dmn_ok d" "dmn_ok (d\<lparr>dm_links := l\<rparr>) = dmn_ok d"
  "dmn_ok (d\<lparr>dm_config_error := ce\<rparr>) = dmn_ok d" "dmn_ok (d\<lparr>dm_cfg_mtime := m\<rparr>) = dmn_ok d" "dmn_ok (d\<lparr>dm_posture_mtime := m\<rparr>) = dmn_ok d"
  "dmn_ok (d\<lparr>dm_posture_error := pe\<rparr>) = dmn_ok d" "dmn_ok (notified h t b d) = dmn_ok d"
  "dmn_ok (d\<lparr>dm_hist := hi\<rparr>) = dmn_ok d" "dmn_ok (d\<lparr>dm_sent := se\<rparr>) = dmn_ok d" "dmn_ok (d\<lparr>dm_last_attaches := la\<rparr>) = dmn_ok d"
  "dmn_ok (d\<lparr>dm_job := j\<rparr>) = dmn_ok d" "dmn_ok (d\<lparr>dm_feeds := fe\<rparr>) = dmn_ok d" "dmn_ok (d\<lparr>dm_profile := p\<rparr>) = dmn_ok d"
  "dmn_ok (d\<lparr>dm_attachment := att\<rparr>) = dmn_ok d" "dmn_ok (d\<lparr>dm_attaches := n\<rparr>) = dmn_ok d"
  by (simp_all add: dmn_ok_def notified_def)

lemma dmn_ok_shared: "dmn_ok d \<Longrightarrow> shared_ok (f (w_shared (dm_world d))) \<Longrightarrow> dmn_ok (on_world_shared f d)"
  by (simp add: dmn_ok_world on_world_shared_def world_ok_def)

lemma reload_ok:
  assumes "reload su e d = Some d'" "dmn_ok d"
  shows "dmn_ok d'"
proof -
  obtain posture err where p: "posture_load (su_posture su) POSTURE_PATH (tk_posture e) = (posture, err)" by (metis surj_pair)
  obtain fs r where f: "load_or_create (su_toml su) (su_path su) (dm_fs d) = (fs, r)" by (metis surj_pair)
  let ?d = "d\<lparr>dm_cfg_mtime := tk_mtime e (su_path su), dm_posture_mtime := tk_mtime e POSTURE_PATH, dm_posture_error := err, dm_fs := fs\<rparr>"
  show ?thesis
  proof (cases "tk_hup e \<or> tk_mtime e (su_path su) \<noteq> dm_cfg_mtime d \<or> tk_mtime e POSTURE_PATH \<noteq> dm_posture_mtime d")
    case True
    show ?thesis
    proof (cases r)
      case (Inl x)
      with assms True p f show ?thesis by (auto simp: reload_def Let_def split: if_splits)
    next
      case (Inr cfg)
      have v: "validate (override (su_iface su) (with_posture cfg posture)) = Inr ()"
        using with_posture_valid [OF p] load_or_create_valid f Inr by (simp add: override_valid)
      have "adopt su e (override (su_iface su) (with_posture cfg posture)) ?d = Some d'"
        using assms(1) True p f Inr by (simp add: reload_def Let_def)
      from adopt_ok [OF this _ v] show ?thesis using assms(2) by simp
    qed
  qed (use assms in \<open>simp add: reload_def Let_def\<close>)
qed

lemma heal_tick_ok: "heal_tick e d = Some d' \<Longrightarrow> dmn_ok d \<Longrightarrow> dmn_ok d'"
  by (auto simp: heal_tick_def bind_eq_Some_conv)

lemma strict_tick_ok:
  assumes "dmn_ok d"
  shows "dmn_ok (strict_tick d)
    \<and> w_settings (dm_world (strict_tick d)) CFG_UDP_STRICT = Some (bit32 (udp_strict_on (dm_cfg d) (dm_attachment d)))
    \<and> dm_strict (strict_tick d) = Some (udp_strict_on (dm_cfg d) (dm_attachment d))
    \<and> dm_cfg (strict_tick d) = dm_cfg d \<and> dm_attachment (strict_tick d) = dm_attachment d"
proof (cases "dm_strict d = Some (udp_strict_on (dm_cfg d) (dm_attachment d))")
  case True
  then show ?thesis using assms by (simp add: strict_tick_def dmn_ok_def strict_ok_def)
next
  case False
  then have "strict_tick d = d\<lparr>dm_world := (dm_world d)\<lparr>w_settings := (w_settings (dm_world d))(CFG_UDP_STRICT \<mapsto> bit32 (udp_strict_on (dm_cfg d) (dm_attachment d)))\<rparr>,
      dm_strict := Some (udp_strict_on (dm_cfg d) (dm_attachment d))\<rparr>"
    by (simp add: strict_tick_def set_setting_def arr_set_def cfg_defs Let_def)
  then show ?thesis using assms by (simp add: dmn_ok_def strict_ok_def)
qed

lemma sweep_tick_ok:
  assumes "sweep_tick e d = Some d'" "dmn_ok d"
  shows "dmn_ok d' \<and> w_settings (dm_world d') = w_settings (dm_world d) \<and> dm_cfg d' = dm_cfg d \<and> dm_attachment d' = dm_attachment d"
proof -
  obtain s1 lg where s1: "sweep (tk_host e) (w_shared (dm_world d)) = (s1, lg)" by (metis surj_pair)
  have ok1: "shared_ok s1" using sweep_ok [of "w_shared (dm_world d)" "tk_host e"] assms(2) s1 by (simp add: dmn_ok_def)
  obtain s2 nts sent where s2: "(if dm_tick d mod PROTECT_REFRESH_TICKS = 0 then refresh_protection (dm_cfg d) (tk_host e) s1 else Some s1) = Some s2"
    and n: "bn_flush (unix_secs (tk_host e)) (sh_notes s2, dm_sent d) = Some (nts, sent)"
    and d': "d' = on_world_shared (\<lambda>_. s2\<lparr>sh_notes := nts\<rparr>) (d\<lparr>dm_hist := dm_hist d @ lg, dm_sent := sent\<rparr>)"
    using assms(1) s1 by (auto simp: sweep_tick_def bind_eq_Some_conv Let_def split: if_splits)
  have ok2: "shared_ok s2" using s2 ok1 refresh_ok by (auto split: if_splits)
  then have "bn_ok nts" using bn_flush_ok [of "sh_notes s2" "unix_secs (tk_host e)" "dm_sent d"] n by (simp add: shared_ok_def)
  with ok2 have "shared_ok (s2\<lparr>sh_notes := nts\<rparr>)" by (simp add: shared_ok_def)
  then have "dmn_ok d'" unfolding d' by (intro dmn_ok_shared) (simp_all add: assms(2))
  then show ?thesis by (simp add: d' on_world_shared_def)
qed

lemma profile_tick_ok:
  assumes "dmn_ok d"
  shows "dmn_ok (profile_tick e d)
    \<and> w_settings (dm_world (profile_tick e d)) CFG_UDP_STRICT = w_settings (dm_world d) CFG_UDP_STRICT
    \<and> dm_cfg (profile_tick e d) = dm_cfg d \<and> dm_attachment (profile_tick e d) = dm_attachment d
    \<and> dm_strict (profile_tick e d) = dm_strict d"
proof -
  define prof where "prof = profile_for (dm_cfg d) (active_connections (tk_host e))"
  obtain w r where a: "apply_config (dm_cfg d) (policy_of (dm_cfg d) prof) (ephemeral_low (tk_host e)) (dm_world d) = (w, r)" by (metis surj_pair)
  have w: "world_ok (dm_strict d) w" using apply_config_world [OF a] assms by (simp add: dmn_ok_world)
  have "w_settings w CFG_UDP_STRICT = w_settings (dm_world d) CFG_UDP_STRICT"
    using apply_config_setting [of "w_settings (dm_world d) CFG_UDP_STRICT"] a by (metis (mono_tags, lifting) fst_conv keeps_def)
  with w a assms show ?thesis
    by (auto simp: profile_tick_def prof_def [symmetric] Let_def dmn_ok_world notified_def split: prod.splits sum.splits if_splits)
qed

lemma feed_tick_ok:
  assumes "feed_tick e d = Some d'" "dmn_ok d"
  shows "dmn_ok d' \<and> w_settings (dm_world d') = w_settings (dm_world d) \<and> dm_cfg d' = dm_cfg d \<and> dm_attachment d' = dm_attachment d"
proof -
  have "dmn_ok (d\<lparr>dm_job := False, dm_world := (dm_world d)\<lparr>w_maps := k\<rparr>, dm_feeds := states, dm_hist := dm_hist d @ feed_entry nt\<rparr>)"
    if "apply_feeds (dm_cfg d) (tk_host e) (tk_disk e) results (w_maps (dm_world d)) = Some (k, states, nt)" for k states nt results
    using apply_feeds_ok [OF that] assms(2) by (simp add: dmn_ok_world world_ok_def)
  then show ?thesis
    using assms by (auto simp: feed_tick_def Let_def bind_eq_Some_conv split: bool.splits option.splits)
qed

lemma status_tick_ok:
  assumes "dmn_ok d"
  shows "dmn_ok (status_tick su e d) \<and> w_settings (dm_world (status_tick su e d)) = w_settings (dm_world d)
    \<and> dm_cfg (status_tick su e d) = dm_cfg d \<and> dm_attachment (status_tick su e d) = dm_attachment d"
proof -
  let ?s1 = "prune_shared (tk_host e) (w_shared (dm_world d))"
  have s1: "shared_ok ?s1" using prune_shared_ok assms by (simp add: dmn_ok_def)
  then have "shared_ok (fst (if sh_dirty ?s1 \<or> dm_tick d mod SAVE_TICKS = 0 then save_state (su_enc su) (tk_host e) ?s1 (dm_fs d) else (?s1, dm_fs d)))"
    by (simp add: save_state_ok)
  then have "dmn_ok (status_tick su e d)"
    unfolding status_tick_def Let_def case_prod_unfold
    by (simp only: dmn_ok_simps, intro dmn_ok_shared) (simp_all only: dmn_ok_simps assms)
  then show ?thesis by (simp add: status_tick_def Let_def case_prod_unfold on_world_shared_def)
qed

lemma tick_ok:
  assumes "tick su e d = Some d'" "dmn_ok d"
  shows "dmn_ok d' \<and> w_settings (dm_world d') CFG_UDP_STRICT = Some (bit32 (udp_strict_on (dm_cfg d') (dm_attachment d')))"
proof -
  obtain d1 d2 d3 d4 where t: "reload su e (d\<lparr>dm_tick := dm_tick d + 1\<rparr>) = Some d1" "heal_tick e d1 = Some d2"
    "sweep_tick e (strict_tick d2) = Some d3" "feed_tick e (profile_tick e d3) = Some d4" "d' = status_tick su e d4"
    using assms(1) by (auto simp: tick_def bind_eq_Some_conv)
  have "dmn_ok d1" by (rule reload_ok [OF t(1)]) (simp add: assms(2))
  then have "dmn_ok d2" by (rule heal_tick_ok [OF t(2)])
  note s = strict_tick_ok [OF this]
  note w = sweep_tick_ok [OF t(3) conjunct1 [OF s]]
  note p = profile_tick_ok [OF conjunct1 [OF w], of e]
  note f = feed_tick_ok [OF t(4) conjunct1 [OF p]]
  note st = status_tick_ok [OF conjunct1 [OF f], of su e]
  show ?thesis using s w p f st by (simp add: t(5))
qed

lemma start_ok:
  assumes "start su e bl l fs = Some (Inr d)" "bl_ok bl"
  shows "dmn_ok d"
proof -
  let ?h = "tk_host e"
  obtain fs1 loaded where l0: "load_at_start (su_toml su) (su_path su) fs = (fs1, loaded)" by (metis surj_pair)
  have "loaded \<noteq> None" using assms(1) unfolding start_def Let_def l0 prod.case by (intro notI) simp
  then obtain cfg0 ce where ld: "load_at_start (su_toml su) (su_path su) fs = (fs1, Some (cfg0, ce))" using l0 by auto
  obtain posture err where p: "posture_load (su_posture su) POSTURE_PATH (tk_posture e) = (posture, err)" by (metis surj_pair)
  define cfg where "cfg = override (su_iface su) (with_posture cfg0 posture)"
  define prof where "prof = profile_for cfg (active_connections ?h)"
  define w0 where "w0 = \<lparr>w_settings = Map.empty, w_maps = maps_init, w_shared = shared_init cfg bl\<rparr>"
  obtain w r where a: "apply_config cfg (policy_of cfg prof) (ephemeral_low ?h) w0 = (w, r)" by (metis surj_pair)
  define fs2 where "fs2 = (if ce = None then remember_good (su_path su) fs1 else fs1)"
  obtain s k states nt where s: "refresh_protection cfg ?h (restore (saved_load (su_dec su) fs2) ?h (w_shared w)) = Some s"
    and k: "apply_feeds cfg ?h (tk_disk e) [] (w_maps w) = Some (k, states, nt)"
    and d: "dm_cfg d = cfg" "dm_world d = w\<lparr>w_maps := k, w_shared := s\<rparr>" "dm_strict d = None"
    using assms(1) unfolding start_def ld p Let_def prod.case bind.bind_lunit cfg_def [symmetric] prof_def [symmetric] w0_def [symmetric]
      fs2_def [symmetric] a
    by (auto simp: bind_eq_Some_conv split: sum.splits)
  have v: "validate cfg = Inr ()" using load_at_start_ok [OF ld] with_posture_valid [OF p] by (simp add: cfg_def override_valid)
  have "shared_ok (shared_init cfg bl)"
    using assms(2) by (simp add: shared_init_def shared_ok_def detector_new_ok bn_default_ok)
  then have "world_ok None w0" by (simp add: w0_def world_ok_def strict_ok_def feeds_ok_def maps_init_def)
  then have w: "world_ok None w" using apply_config_world [OF a] by simp
  then have "shared_ok s" using refresh_ok [OF s] restore_ok by (simp add: world_ok_def)
  then show ?thesis using v w apply_feeds_ok [OF k] by (simp add: dmn_ok_world d world_ok_def strict_ok_def)
qed

lemma outside_ok: "outside d d' \<Longrightarrow> dmn_ok d \<Longrightarrow> dmn_ok d'"
proof (induction rule: outside.induct)
  case (Batch d h es)
  then show ?case by (intro dmn_ok_shared) (simp_all add: handle_batch_ok dmn_ok_def)
next
  case (Ban ip x d b)
  then show ?case by (intro dmn_ok_shared) (auto simp: dmn_ok_def shared_ok_def dest: bl_insert_ok)
next
  case (Unban ip d b)
  then show ?case by (intro dmn_ok_shared) (auto simp: dmn_ok_def shared_ok_def dest: bl_remove_ok)
qed simp_all

lemma dmn_step_ok: "dmn_step su d d' \<Longrightarrow> dmn_ok d \<Longrightarrow> dmn_ok d'"
proof (induction rule: dmn_step.induct)
  case (Tick e d d')
  then show ?case using tick_ok by blast
qed (rule outside_ok)

lemma dmn_run_ok: "dmn_run su d d' \<Longrightarrow> dmn_ok d \<Longrightarrow> dmn_ok d'"
  by (induction rule: dmn_run.induct) (simp_all add: dmn_step_ok)

section \<open>The policy in force\<close>

text \<open>The rule maps and settings in the kernel are exactly those of the config and profile the daemon goes by.\<close>

definition policy_in_force :: "dmn \<Rightarrow> bool" where
  "policy_in_force d =
     (maps_ok (w_maps (dm_world d))
      \<and> (\<exists>c eph. compile (policy_of (dm_cfg d) (dm_profile d)) = Inr c \<and> in_force c (w_maps (dm_world d))
           \<and> settings_for (dm_cfg d) (policy_of (dm_cfg d) (dm_profile d)) eph (w_settings (dm_world d))))"

text \<open>Whether the kernel takes the config that a tick applies: a new one when the file is loaded again, the same one when the network profile
  has changed. It refuses one when a map has no room.\<close>

definition taken :: "config \<Rightarrow> string option \<Rightarrow> host \<Rightarrow> world \<Rightarrow> bool" where
  "taken cfg prof h w = (snd (apply_config cfg (policy_of cfg prof) (ephemeral_low h) w) = Inr ())"

definition reload_taken :: "cli \<Rightarrow> tick_env \<Rightarrow> dmn \<Rightarrow> bool" where
  "reload_taken su e d =
     (if tk_hup e \<or> tk_mtime e (su_path su) \<noteq> dm_cfg_mtime d \<or> tk_mtime e POSTURE_PATH \<noteq> dm_posture_mtime d
      then (case snd (load_or_create (su_toml su) (su_path su) (dm_fs d)) of
              Inl _ \<Rightarrow> True
            | Inr cfg0 \<Rightarrow>
                let cfg = override (su_iface su) (with_posture cfg0 (fst (posture_load (su_posture su) POSTURE_PATH (tk_posture e))))
                in taken cfg (profile_for cfg (active_connections (tk_host e))) (tk_host e) (dm_world d))
      else True)"

definition profile_taken :: "tick_env \<Rightarrow> dmn \<Rightarrow> bool" where
  "profile_taken e d =
     (let prof = profile_for (dm_cfg d) (active_connections (tk_host e)) in
      prof = dm_profile d \<or> taken (dm_cfg d) prof (tk_host e) (dm_world d))"

definition tick_taken :: "cli \<Rightarrow> tick_env \<Rightarrow> dmn \<Rightarrow> bool" where
  "tick_taken su e d =
     (let d0 = d\<lparr>dm_tick := dm_tick d + 1\<rparr> in
      reload_taken su e d0
      \<and> (case Option.bind (reload su e d0) (\<lambda>d1. Option.bind (heal_tick e d1) (\<lambda>d2. sweep_tick e (strict_tick d2))) of
           Some d3 \<Rightarrow> profile_taken e d3
         | None \<Rightarrow> True))"

text \<open>Runs in which the kernel took every config.\<close>

inductive taken_run :: "cli \<Rightarrow> dmn \<Rightarrow> dmn \<Rightarrow> bool" for su where
  Still: "taken_run su d d"
| Ticked: "taken_run su d d' \<Longrightarrow> tick su e d' = Some d'' \<Longrightarrow> tick_taken su e d' \<Longrightarrow> taken_run su d d''"
| Left: "taken_run su d d' \<Longrightarrow> outside d' d'' \<Longrightarrow> taken_run su d d''"

lemma taken_run_run: "taken_run su d d' \<Longrightarrow> dmn_run su d d'"
  by (induction rule: taken_run.induct) (auto intro: dmn_run.intros dmn_step.intros)

lemma in_force_feeds [simp]:
  "maps_ok (k\<lparr>km_feeds := t, km_feed_nets := ns\<rparr>) = maps_ok k" "in_force c (k\<lparr>km_feeds := t, km_feed_nets := ns\<rparr>) = in_force c k"
  by (simp_all add: maps_ok_def in_force_def)

lemma policy_in_force_cong:
  assumes "dm_cfg d' = dm_cfg d" "dm_profile d' = dm_profile d" "w_maps (dm_world d') = w_maps (dm_world d)"
    "w_settings (dm_world d') = w_settings (dm_world d)"
  shows "policy_in_force d' = policy_in_force d"
  by (simp add: policy_in_force_def assms)

lemma taken_in_force:
  assumes "apply_config cfg (policy_of cfg prof) eph w = (w', Inr ())" "maps_ok (w_maps w)" "shared_ok (w_shared w)"
    and "dm_cfg d = cfg" "dm_profile d = prof" "w_settings (dm_world d) = w_settings w'"
    and "\<exists>t ns. w_maps (dm_world d) = (w_maps w')\<lparr>km_feeds := t, km_feed_nets := ns\<rparr>"
  shows "policy_in_force d"
proof -
  have hm: "hm_ok (sh_records (w_shared w))" using assms(3) by (simp add: shared_ok_def)
  show ?thesis using apply_config_ok(1-3) [OF assms(1,2) hm] assms(4-7) by (auto simp: policy_in_force_def)
qed

lemma same_feeds: "\<exists>t ns. k = k\<lparr>km_feeds := t, km_feed_nets := ns\<rparr>"
  by (intro exI [of _ "km_feeds k"] exI [of _ "km_feed_nets k"]) simp

lemma reload_in_force:
  assumes "reload su e d = Some d'" "reload_taken su e d" "policy_in_force d" "dmn_ok d"
  shows "policy_in_force d'"
proof -
  obtain posture err where p: "posture_load (su_posture su) POSTURE_PATH (tk_posture e) = (posture, err)" by (metis surj_pair)
  obtain fs r where f: "load_or_create (su_toml su) (su_path su) (dm_fs d) = (fs, r)" by (metis surj_pair)
  let ?d = "d\<lparr>dm_cfg_mtime := tk_mtime e (su_path su), dm_posture_mtime := tk_mtime e POSTURE_PATH, dm_posture_error := err, dm_fs := fs\<rparr>"
  show ?thesis
  proof (cases "tk_hup e \<or> tk_mtime e (su_path su) \<noteq> dm_cfg_mtime d \<or> tk_mtime e POSTURE_PATH \<noteq> dm_posture_mtime d")
    case False
    then show ?thesis using assms(1,3) by (simp add: reload_def)
  next
    case True
    show ?thesis
    proof (cases r)
      case (Inl x)
      have "dm_cfg d' = dm_cfg d \<and> dm_profile d' = dm_profile d \<and> dm_world d' = dm_world d"
        using assms(1) True p f Inl by (auto simp: reload_def Let_def notified_def split: if_splits)
      then show ?thesis using assms(3) policy_in_force_cong [of d' d] by simp
    next
      case (Inr cfg0)
      define cfg where "cfg = override (su_iface su) (with_posture cfg0 posture)"
      define prof where "prof = profile_for cfg (active_connections (tk_host e))"
      have ad: "adopt su e cfg ?d = Some d'" using assms(1) True p f Inr by (simp add: reload_def Let_def cfg_def)
      have "snd (apply_config cfg (policy_of cfg prof) (ephemeral_low (tk_host e)) (dm_world d)) = Inr ()"
        using assms(2) True p f Inr by (simp add: reload_taken_def taken_def cfg_def [symmetric] prof_def [symmetric] Let_def)
      then obtain w where a: "apply_config cfg (policy_of cfg prof) (ephemeral_low (tk_host e)) (dm_world d) = (w, Inr ())"
        by (metis prod.collapse)
      then obtain k states nt s where fd: "apply_feeds cfg (tk_host e) (tk_disk e) [] (w_maps w) = Some (k, states, nt)"
        and d': "dm_cfg d' = cfg" "dm_profile d' = prof" "dm_world d' = w\<lparr>w_maps := k, w_shared := s\<rparr>"
        using ad by (auto simp: adopt_def prof_def [symmetric] Let_def bind_eq_Some_conv)
      have w: "feeds_ok (w_maps w)" using apply_config_world [OF a, of "dm_strict d"] assms(4) by (simp add: dmn_ok_world world_ok_def)
      have k: "\<exists>t ns. k = (w_maps w)\<lparr>km_feeds := t, km_feed_nets := ns\<rparr>" using apply_feeds_parts [OF fd w] by metis
      show ?thesis
        by (rule taken_in_force [OF a]) (use assms(3,4) k in \<open>simp_all add: d' policy_in_force_def dmn_ok_def\<close>)
    qed
  qed
qed

lemma strict_in_force: "policy_in_force d \<Longrightarrow> policy_in_force (strict_tick d)"
proof -
  have "CFG_UDP_STRICT \<noteq> CFG_ENFORCE" "CFG_UDP_STRICT \<noteq> CFG_EPHEMERAL_LOW" "CFG_UDP_STRICT \<noteq> CFG_DROP_PING" by (simp_all add: cfg_defs)
  then show "policy_in_force d \<Longrightarrow> policy_in_force (strict_tick d)"
    by (auto simp: policy_in_force_def strict_tick_def set_setting_def settings_for_def arr_set_def Let_def cfg_defs)
qed

lemma profile_in_force:
  assumes "profile_taken e d" "policy_in_force d" "dmn_ok d"
  shows "policy_in_force (profile_tick e d)"
proof -
  define prof where "prof = profile_for (dm_cfg d) (active_connections (tk_host e))"
  obtain w r where a: "apply_config (dm_cfg d) (policy_of (dm_cfg d) prof) (ephemeral_low (tk_host e)) (dm_world d) = (w, r)" by (metis surj_pair)
  let ?p = "profile_tick e d"
  have taken: "r = Inr ()" if "prof \<noteq> dm_profile d"
    using assms(1) a that by (simp add: profile_taken_def taken_def prof_def [symmetric] Let_def)
  have "(dm_cfg ?p = dm_cfg d \<and> dm_profile ?p = dm_profile d \<and> dm_world ?p = dm_world d)
      \<or> (r = Inr () \<and> dm_cfg ?p = dm_cfg d \<and> dm_profile ?p = prof \<and> dm_world ?p = w)"
    using taken by (simp add: profile_tick_def prof_def [symmetric] Let_def notified_def case_prod_unfold a)
  then consider "dm_cfg ?p = dm_cfg d" "dm_profile ?p = dm_profile d" "dm_world ?p = dm_world d"
    | "r = Inr ()" "dm_cfg ?p = dm_cfg d" "dm_profile ?p = prof" "dm_world ?p = w"
    by blast
  then show ?thesis
  proof cases
    case 1
    then show ?thesis using assms(2) policy_in_force_cong [of ?p d] by simp
  next
    case 2
    show ?thesis
      by (rule taken_in_force [OF a [unfolded 2(1)]]) (use assms(2,3) same_feeds in \<open>simp_all add: 2 policy_in_force_def dmn_ok_def\<close>)
  qed
qed

lemma feed_in_force:
  assumes "feed_tick e d = Some d'" "policy_in_force d" "dmn_ok d"
  shows "policy_in_force d'"
proof -
  have "dm_cfg d' = dm_cfg d \<and> dm_profile d' = dm_profile d \<and> w_settings (dm_world d') = w_settings (dm_world d)
      \<and> (\<exists>t ns. w_maps (dm_world d') = (w_maps (dm_world d))\<lparr>km_feeds := t, km_feed_nets := ns\<rparr>)"
  proof (cases "\<exists>results. tk_job e = Some results \<and> (dm_job d \<or> dm_tick d mod FEED_CHECK_TICKS = 0)")
    case True
    then obtain results k states nt where f: "apply_feeds (dm_cfg d) (tk_host e) (tk_disk e) results (w_maps (dm_world d)) = Some (k, states, nt)"
      and d': "dm_cfg d' = dm_cfg d" "dm_profile d' = dm_profile d" "dm_world d' = (dm_world d)\<lparr>w_maps := k\<rparr>"
      using assms(1) by (auto simp: feed_tick_def Let_def bind_eq_Some_conv)
    have "feeds_ok (w_maps (dm_world d))" using assms(3) by (simp add: dmn_ok_def)
    from apply_feeds_parts [OF f this] show ?thesis using d' by auto
  next
    case False
    then have "d' = d\<lparr>dm_job := dm_job d \<or> dm_tick d mod FEED_CHECK_TICKS = 0\<rparr>"
      using assms(1) by (auto simp: feed_tick_def Let_def split: bool.splits option.splits)
    then show ?thesis using same_feeds by auto
  qed
  then show ?thesis using assms(2) by (auto simp: policy_in_force_def)
qed

lemma tick_in_force:
  assumes "tick su e d = Some d'" "tick_taken su e d" "policy_in_force d" "dmn_ok d"
  shows "policy_in_force d'"
proof -
  let ?d0 = "d\<lparr>dm_tick := dm_tick d + 1\<rparr>"
  obtain d1 d2 d3 d4 where t: "reload su e ?d0 = Some d1" "heal_tick e d1 = Some d2"
    "sweep_tick e (strict_tick d2) = Some d3" "feed_tick e (profile_tick e d3) = Some d4" "d' = status_tick su e d4"
    using assms(1) by (auto simp: tick_def bind_eq_Some_conv)
  have r: "reload_taken su e ?d0" "profile_taken e d3" using assms(2) t by (simp_all add: tick_taken_def Let_def)
  have ok0: "policy_in_force ?d0" "dmn_ok ?d0" using assms(3,4) policy_in_force_cong [of ?d0 d] by simp_all
  have ok1: "policy_in_force d1" "dmn_ok d1" using reload_in_force [OF t(1) r(1) ok0] reload_ok [OF t(1) ok0(2)] by simp_all
  have "dm_cfg d2 = dm_cfg d1 \<and> dm_profile d2 = dm_profile d1 \<and> dm_world d2 = dm_world d1" using t(2) by (auto simp: heal_tick_def bind_eq_Some_conv)
  then have ok2: "policy_in_force (strict_tick d2)" "dmn_ok (strict_tick d2)"
    using strict_in_force policy_in_force_cong [of d2 d1] ok1 heal_tick_ok [OF t(2)] strict_tick_ok by simp_all
  have "dm_profile d3 = dm_profile (strict_tick d2) \<and> w_maps (dm_world d3) = w_maps (dm_world (strict_tick d2))"
    using t(3) by (auto simp: sweep_tick_def on_world_shared_def Let_def case_prod_unfold bind_eq_Some_conv)
  then have ok3: "policy_in_force d3" "dmn_ok d3"
    using sweep_tick_ok [OF t(3) ok2(2)] ok2(1) policy_in_force_cong [of d3 "strict_tick d2"] by simp_all
  have ok4: "policy_in_force d4"
    using feed_in_force [OF t(4)] profile_in_force [OF r(2) ok3] profile_tick_ok [OF ok3(2)] by simp
  have "dm_cfg d' = dm_cfg d4 \<and> dm_profile d' = dm_profile d4 \<and> w_maps (dm_world d') = w_maps (dm_world d4)
      \<and> w_settings (dm_world d') = w_settings (dm_world d4)"
    by (simp add: t(5) status_tick_def Let_def case_prod_unfold on_world_shared_def)
  then show ?thesis using ok4 policy_in_force_cong [of d' d4] by simp
qed

lemma outside_in_force: "outside d d' \<Longrightarrow> policy_in_force d' = policy_in_force d"
  by (induction rule: outside.induct) (simp_all add: on_world_shared_def policy_in_force_def)

lemma taken_run_in_force:
  "taken_run su d d' \<Longrightarrow> policy_in_force d \<Longrightarrow> dmn_ok d \<Longrightarrow> policy_in_force d'"
proof (induction rule: taken_run.induct)
  case (Ticked d d' e d'')
  then show ?case using tick_in_force dmn_run_ok [OF taken_run_run] by blast
qed (simp_all add: outside_in_force)

lemma start_in_force:
  assumes "start su e bl l fs = Some (Inr d)" "bl_ok bl"
  shows "policy_in_force d"
proof -
  let ?h = "tk_host e"
  obtain fs1 loaded where l0: "load_at_start (su_toml su) (su_path su) fs = (fs1, loaded)" by (metis surj_pair)
  have "loaded \<noteq> None" using assms(1) unfolding start_def Let_def l0 prod.case by (intro notI) simp
  then obtain cfg0 ce where ld: "load_at_start (su_toml su) (su_path su) fs = (fs1, Some (cfg0, ce))" using l0 by auto
  obtain posture err where p: "posture_load (su_posture su) POSTURE_PATH (tk_posture e) = (posture, err)" by (metis surj_pair)
  define cfg where "cfg = override (su_iface su) (with_posture cfg0 posture)"
  define prof where "prof = profile_for cfg (active_connections ?h)"
  define w0 where "w0 = \<lparr>w_settings = Map.empty, w_maps = maps_init, w_shared = shared_init cfg bl\<rparr>"
  obtain w r where a: "apply_config cfg (policy_of cfg prof) (ephemeral_low ?h) w0 = (w, r)" by (metis surj_pair)
  define fs2 where "fs2 = (if ce = None then remember_good (su_path su) fs1 else fs1)"
  obtain s k states nt where r: "r = Inr ()" and k: "apply_feeds cfg ?h (tk_disk e) [] (w_maps w) = Some (k, states, nt)"
    and d: "dm_cfg d = cfg" "dm_profile d = prof" "dm_world d = w\<lparr>w_maps := k, w_shared := s\<rparr>"
    using assms(1) unfolding start_def ld p Let_def prod.case bind.bind_lunit cfg_def [symmetric] prof_def [symmetric] w0_def [symmetric]
      fs2_def [symmetric] a
    by (auto simp: bind_eq_Some_conv split: sum.splits)
  have sh: "shared_ok (shared_init cfg bl)"
    using assms(2) by (simp add: shared_init_def shared_ok_def detector_new_ok bn_default_ok)
  then have "world_ok None w0" by (simp add: w0_def world_ok_def strict_ok_def feeds_ok_def maps_init_def)
  then have "feeds_ok (w_maps w)" using apply_config_world [OF a, of None] by (simp add: world_ok_def)
  then have "\<exists>t ns. k = (w_maps w)\<lparr>km_feeds := t, km_feed_nets := ns\<rparr>" by (rule apply_feeds_parts [OF k])
  then have m: "\<exists>t ns. w_maps (dm_world d) = (w_maps w)\<lparr>km_feeds := t, km_feed_nets := ns\<rparr>" by (simp add: d)
  show ?thesis
    by (rule taken_in_force [OF a [unfolded r]]) (use sh m in \<open>simp_all add: d w0_def maps_init_ok\<close>)
qed

section \<open>Ticks do not panic\<close>

lemma apply_feeds_total: "default_route h \<noteq> None \<Longrightarrow> \<exists>k' states nt. apply_feeds cfg h disk results k = Some (k', states, nt)"
proof -
  assume "default_route h \<noteq> None"
  then obtain own where own: "auto_protected h = Some own" using auto_protected_total by blast
  obtain nets sts where "load_feeds (c_feeds cfg) (own @ (case trusted_cidrs cfg of Inr ts \<Rightarrow> ts | Inl _ \<Rightarrow> [])) results disk = Some (nets, sts)"
    using load_feeds_total by blast
  then show ?thesis using own by (simp add: apply_feeds_def Let_def case_prod_unfold)
qed

lemma refresh_total: "default_route h \<noteq> None \<Longrightarrow> \<exists>s'. refresh_protection cfg h s = Some s'"
  using auto_protected_total [of h] by (auto simp: refresh_protection_def Let_def)

lemma adopt_total:
  assumes "default_route (tk_host e) \<noteq> None"
  shows "\<exists>d'. adopt su e cfg d = Some d'"
proof -
  obtain w r where a: "apply_config cfg (policy_of cfg (profile_for cfg (active_connections (tk_host e)))) (ephemeral_low (tk_host e)) (dm_world d) = (w, r)"
    by (metis surj_pair)
  obtain s where "refresh_protection cfg (tk_host e) (w_shared w) = Some s" using refresh_total assms by blast
  moreover obtain k states nt where "apply_feeds cfg (tk_host e) (tk_disk e) [] (w_maps w) = Some (k, states, nt)"
    using apply_feeds_total assms by blast
  ultimately show ?thesis using a by (cases r) (simp_all add: adopt_def Let_def)
qed

lemma reload_total: "default_route (tk_host e) \<noteq> None \<Longrightarrow> \<exists>d'. reload su e d = Some d'"
  using adopt_total by (auto simp: reload_def Let_def case_prod_unfold split: sum.split)

lemma heal_tick_total: "default_route (tk_host e) \<noteq> None \<Longrightarrow> \<exists>d'. heal_tick e d = Some d'"
proof -
  assume "default_route (tk_host e) \<noteq> None"
  then obtain w where w: "wanted_iface (dm_cfg d) (tk_host e) (dm_attachment d) = Some w"
    by (cases "c_interface (dm_cfg d) = ''auto''") (auto simp: wanted_iface_def)
  then obtain r where r: "heal (dm_cfg d) (tk_host e) (tk_tc e) (tk_xdp e) (dm_links d, dm_attachment d) = Some r"
    by (simp add: heal_def)
  obtain la c where "r = (la, c)" by (cases r)
  moreover obtain l att where "la = (l, att)" by (cases la)
  ultimately show ?thesis using r by (simp add: heal_tick_def)
qed

lemma sweep_tick_total:
  assumes "default_route (tk_host e) \<noteq> None" "dmn_ok d"
  shows "\<exists>d'. sweep_tick e d = Some d'"
proof -
  obtain s1 lg where s1: "sweep (tk_host e) (w_shared (dm_world d)) = (s1, lg)" by (metis surj_pair)
  have ok1: "shared_ok s1" using sweep_ok [of "w_shared (dm_world d)" "tk_host e"] assms(2) s1 by (simp add: dmn_ok_def)
  obtain s2 where s2: "(if dm_tick d mod PROTECT_REFRESH_TICKS = 0 then refresh_protection (dm_cfg d) (tk_host e) s1 else Some s1) = Some s2"
    using refresh_total [OF assms(1), of "dm_cfg d" s1] by (cases "dm_tick d mod PROTECT_REFRESH_TICKS = 0") auto
  have "shared_ok s2" using s2 ok1 refresh_ok by (auto split: if_splits)
  then obtain n' sent' where "bn_flush (unix_secs (tk_host e)) (sh_notes s2, dm_sent d) = Some (n', sent')"
    using bn_flush_ok unfolding shared_ok_def by blast
  then show ?thesis using s1 s2 by (simp add: sweep_tick_def Let_def)
qed

lemma feed_tick_total:
  assumes "default_route (tk_host e) \<noteq> None"
  shows "\<exists>d'. feed_tick e d = Some d'"
proof -
  define job where "job = (dm_job d \<or> dm_tick d mod FEED_CHECK_TICKS = 0)"
  show ?thesis
  proof (cases "tk_job e")
    case (Some results)
    obtain k states nt where "apply_feeds (dm_cfg d) (tk_host e) (tk_disk e) results (w_maps (dm_world d)) = Some (k, states, nt)"
      using apply_feeds_total assms by blast
    then show ?thesis using Some by (cases job) (simp_all add: feed_tick_def job_def [symmetric])
  qed (cases job, simp_all add: feed_tick_def job_def [symmetric])
qed

lemma tick_total:
  assumes "default_route (tk_host e) \<noteq> None" "dmn_ok d"
  shows "\<exists>d'. tick su e d = Some d'"
proof -
  obtain d1 where d1: "reload su e (d\<lparr>dm_tick := dm_tick d + 1\<rparr>) = Some d1" using reload_total [OF assms(1)] by blast
  have "dmn_ok d1" by (rule reload_ok [OF d1]) (simp add: assms(2))
  moreover obtain d2 where d2: "heal_tick e d1 = Some d2" using heal_tick_total [OF assms(1)] by blast
  ultimately have ok: "dmn_ok (strict_tick d2)" using strict_tick_ok heal_tick_ok by blast
  obtain d3 where d3: "sweep_tick e (strict_tick d2) = Some d3" using sweep_tick_total [OF assms(1) ok] by blast
  obtain d4 where "feed_tick e (profile_tick e d3) = Some d4" using feed_tick_total [OF assms(1)] by blast
  with d1 d2 d3 show ?thesis by (simp add: tick_def)
qed

section \<open>A start\<close>

definition demo_cli :: cli where
  "demo_cli = \<lparr>su_pid = 1, su_path = DEFAULT_PATH, su_iface = None, su_toml = (\<lambda>_. Inr shipped_config), su_posture = (\<lambda>_. Inr stealth_posture),
     su_enc = (\<lambda>_. Inr ''{}''), su_dec = (\<lambda>_. None), su_status = (\<lambda>_. Inr ''{}'')\<rparr>"

definition demo_env :: tick_env where
  "demo_env = \<lparr>tk_host = demo_host, tk_hup = False, tk_mtime = (\<lambda>_. None), tk_posture = Not_Found, tk_tc = fresh_env, tk_xdp = fresh_env,
     tk_job = None, tk_disk = demo_disk, tk_stats = Map.empty\<rparr>"

definition demo_fs :: fsys where
  "demo_fs = \<lparr>files = [DEFAULT_PATH \<mapsto> DEFAULT_CONFIG], writable = (\<lambda>_. False), renamable = (\<lambda>_. False)\<rparr>"

definition no_links :: links where
  "no_links = \<lparr>lk_dir = [], lk_meta = Map.empty\<rparr>"

lemma demo_start: "\<exists>d. start demo_cli demo_env \<lparr>bl_v4 = [], bl_v6 = Some []\<rparr> no_links demo_fs = Some (Inr d) \<and> dm_cfg d = shipped_config
    \<and> dm_tick d = 0 \<and> dm_cfg_mtime d = None \<and> dm_posture_mtime d = None \<and> dm_profile d = None"
proof -
  let ?bl = "\<lparr>bl_v4 = [], bl_v6 = Some []\<rparr> :: blocklist"
  have "load_or_create (\<lambda>_. Inr shipped_config) DEFAULT_PATH demo_fs = (demo_fs, Inr shipped_config)"
    by (simp add: load_or_create_def demo_fs_def read_to_string_def opt_ok_def parse_config_def rules_default)
  then have ld: "load_at_start (su_toml demo_cli) (su_path demo_cli) demo_fs = (demo_fs, Some (shipped_config, None))"
    by (simp add: load_at_start_def demo_cli_def)
  have p: "posture_load (su_posture demo_cli) POSTURE_PATH (tk_posture demo_env) = (None, None)"
    by (simp add: posture_load_def demo_env_def)
  have c: "override (su_iface demo_cli) (with_posture shipped_config None) = shipped_config"
    by (simp add: override_def with_posture_def demo_cli_def)
  have prof: "profile_for shipped_config (active_connections (tk_host demo_env)) = None"
    by (simp add: profile_for_def shipped_config_def config_default_def)
  have eph: "ephemeral_low (tk_host demo_env) = 32768" by (simp add: ephemeral_low_def demo_env_def demo_host_def)
  obtain w where w: "apply_config shipped_config (policy_of shipped_config None) 32768 world0 = (w, Inr ())"
    using world0_applies by blast
  have r: "default_route (tk_host demo_env) \<noteq> None" using demo_host_facts(1) by (simp add: demo_env_def)
  define sv where "sv = saved_load (su_dec demo_cli) (remember_good (su_path demo_cli) demo_fs)"
  obtain s where s: "refresh_protection shipped_config (tk_host demo_env) (restore sv (tk_host demo_env) (w_shared w)) = Some s"
    using refresh_total [OF r] by blast
  obtain k states nt where k: "apply_feeds shipped_config (tk_host demo_env) (tk_disk demo_env) [] (w_maps w) = Some (k, states, nt)"
    using apply_feeds_total [OF r] by blast
  have w': "apply_config shipped_config (policy_of shipped_config None) 32768
      \<lparr>w_settings = Map.empty, w_maps = maps_init, w_shared = shared_init shipped_config ?bl\<rparr> = (w, Inr ())"
    using w by (simp add: world0_def)
  show ?thesis
    unfolding start_def Let_def ld prod.case bind.bind_lunit p c prof eph w' sum.case sv_def [symmetric] simp_thms if_True s k
    by (simp add: demo_env_def)
qed

lemma demo_tick_taken:
  assumes "dm_cfg d = shipped_config" "dm_cfg_mtime d = None" "dm_posture_mtime d = None" "dm_profile d = None"
  shows "tick_taken demo_cli demo_env d"
proof -
  let ?d0 = "d\<lparr>dm_tick := dm_tick d + 1\<rparr>"
  have prof: "profile_for shipped_config cs = None" for cs by (simp add: profile_for_def shipped_config_def config_default_def)
  have r: "reload demo_cli demo_env ?d0 = Some ?d0" by (simp add: reload_def demo_env_def assms)
  have p3: "dm_cfg d3 = shipped_config \<and> dm_profile d3 = None"
    if t: "heal_tick demo_env ?d0 = Some d2" "sweep_tick demo_env (strict_tick d2) = Some d3" for d2 d3
  proof -
    have "dm_cfg d2 = shipped_config \<and> dm_profile d2 = None" using t(1) assms by (auto simp: heal_tick_def bind_eq_Some_conv)
    then have "dm_cfg (strict_tick d2) = shipped_config \<and> dm_profile (strict_tick d2) = None"
      by (simp add: strict_tick_def Let_def split: prod.split sum.split)
    then show ?thesis using t(2) by (auto simp: sweep_tick_def on_world_shared_def Let_def case_prod_unfold bind_eq_Some_conv)
  qed
  have "profile_taken demo_env d3" if "heal_tick demo_env ?d0 = Some d2" "sweep_tick demo_env (strict_tick d2) = Some d3" for d2 d3
    using p3 [OF that] by (simp add: profile_taken_def prof)
  moreover have "reload_taken demo_cli demo_env ?d0" by (simp add: reload_taken_def demo_env_def assms)
  ultimately show ?thesis by (auto simp: tick_taken_def Let_def r bind_eq_Some_conv split: option.split)
qed

section \<open>Properties\<close>

text \<open>C4: from any start over pinned maps, through any number of ticks with anything the system may answer (config and posture files broken or
  changed, feeds, networks and clocks of any kind), batches of packets, bans and unbans from the command line: the config the daemon goes by always
  validates (postures laid over it included), the shared state keeps its invariant, and the feed trie holds only networks that were loaded. And the
  kernel enforces that config: its port, address and limit maps and its settings are, entry by entry, those that the config and the profile in use
  compile to, as long as the kernel took every config that a tick applied (none of its maps was full).\<close>

theorem daemon_stays_sound:
  assumes "start su e bl l fs = Some (Inr d)" "bl_ok bl" "dmn_run su d d'"
  shows "validate (dm_cfg d') = Inr () \<and> shared_ok (w_shared (dm_world d')) \<and> feeds_ok (w_maps (dm_world d'))
    \<and> (taken_run su d d' \<longrightarrow> policy_in_force d')"
  using dmn_run_ok [OF assms(3) start_ok [OF assms(1,2)]] taken_run_in_force [OF _ start_in_force [OF assms(1,2)] start_ok [OF assms(1,2)]]
  by (simp add: dmn_ok_def)

lemma daemon_stays_sound_witness:
  "\<exists>d d'. start demo_cli demo_env \<lparr>bl_v4 = [], bl_v6 = Some []\<rparr> no_links demo_fs = Some (Inr d) \<and> tick demo_cli demo_env d = Some d'
    \<and> validate (dm_cfg d') = Inr () \<and> policy_in_force d'"
proof -
  have bl: "bl_ok \<lparr>bl_v4 = [], bl_v6 = Some []\<rparr>" by (simp add: bl_ok_def)
  obtain d where d: "start demo_cli demo_env \<lparr>bl_v4 = [], bl_v6 = Some []\<rparr> no_links demo_fs = Some (Inr d)" "dm_cfg d = shipped_config"
    "dm_cfg_mtime d = None" "dm_posture_mtime d = None" "dm_profile d = None" using demo_start by blast
  have r: "default_route (tk_host demo_env) \<noteq> None" using demo_host_facts(1) by (simp add: demo_env_def)
  obtain d' where d': "tick demo_cli demo_env d = Some d'" using tick_total [OF r start_ok [OF d(1) bl]] by blast
  have t: "taken_run demo_cli d d'"
    by (rule taken_run.Ticked [OF taken_run.Still d']) (rule demo_tick_taken [OF d(2-5)])
  from daemon_stays_sound [OF d(1) bl taken_run_run [OF t]] t d(1) d' show ?thesis by blast
qed

text \<open>C9: the loop does not take itself down: in every state the daemon can reach, a tick goes through whatever the system answers, with the one exception of
  a route table with a line of exactly seven fields.\<close>

theorem ticks_go_through:
  assumes "start su e bl l fs = Some (Inr d)" "bl_ok bl" "dmn_run su d d'" "default_route (tk_host e') \<noteq> None"
  shows "\<exists>d''. tick su e' d' = Some d''"
  using tick_total [OF assms(4) dmn_run_ok [OF assms(3) start_ok [OF assms(1,2)]]] .

lemma ticks_go_through_witness:
  "\<exists>d d'. start demo_cli demo_env \<lparr>bl_v4 = [], bl_v6 = Some []\<rparr> no_links demo_fs = Some (Inr d) \<and> tick demo_cli demo_env d = Some d'"
proof -
  have bl: "bl_ok \<lparr>bl_v4 = [], bl_v6 = Some []\<rparr>" by (simp add: bl_ok_def)
  obtain d where d: "start demo_cli demo_env \<lparr>bl_v4 = [], bl_v6 = Some []\<rparr> no_links demo_fs = Some (Inr d)" using demo_start by blast
  have r: "default_route (tk_host demo_env) \<noteq> None" using demo_host_facts(1) by (simp add: demo_env_def)
  from ticks_go_through [OF d bl dmn_run.Stay r] d show ?thesis by blast
qed

text \<open>C19: replies are never cut off: after every tick the kernel drops unsolicited UDP strictly exactly when the config asks for it and the
  egress program that records the flows is attached, whatever happened before; and the status file says so.\<close>

theorem strict_needs_egress:
  assumes "start su e bl l fs = Some (Inr d)" "bl_ok bl" "dmn_run su d d'" "tick su e' d' = Some d''"
  shows "w_settings (dm_world d'') CFG_UDP_STRICT = Some (bit32 (c_udp_strict (dm_cfg d'') \<and> (\<exists>a. dm_attachment d'' = Some a \<and> at_egress a)))
    \<and> bit32 (ss_udp_strict (status_of su e' d'')) = opt_or (w_settings (dm_world d'') CFG_UDP_STRICT) 0"
proof -
  have "w_settings (dm_world d'') CFG_UDP_STRICT = Some (bit32 (udp_strict_on (dm_cfg d'') (dm_attachment d'')))"
    using tick_ok [OF assms(4) dmn_run_ok [OF assms(3) start_ok [OF assms(1,2)]]] by blast
  moreover have "udp_strict_on (dm_cfg d'') (dm_attachment d'') = (c_udp_strict (dm_cfg d'') \<and> (\<exists>a. dm_attachment d'' = Some a \<and> at_egress a))"
    by (simp add: udp_strict_on_def split: option.split)
  ultimately show ?thesis by (simp add: status_of_def build_status_def)
qed

lemma strict_needs_egress_witness:
  "\<exists>d d'. start demo_cli demo_env \<lparr>bl_v4 = [], bl_v6 = Some []\<rparr> no_links demo_fs = Some (Inr d) \<and> tick demo_cli demo_env d = Some d'
    \<and> w_settings (dm_world d') CFG_UDP_STRICT = Some (bit32 (c_udp_strict (dm_cfg d') \<and> (\<exists>a. dm_attachment d' = Some a \<and> at_egress a)))"
proof -
  have bl: "bl_ok \<lparr>bl_v4 = [], bl_v6 = Some []\<rparr>" by (simp add: bl_ok_def)
  obtain d where d: "start demo_cli demo_env \<lparr>bl_v4 = [], bl_v6 = Some []\<rparr> no_links demo_fs = Some (Inr d)" using demo_start by blast
  have r: "default_route (tk_host demo_env) \<noteq> None" using demo_host_facts(1) by (simp add: demo_env_def)
  obtain d' where d': "tick demo_cli demo_env d = Some d'" using tick_total [OF r start_ok [OF d bl]] by blast
  from strict_needs_egress [OF d bl dmn_run.Stay d'] d d' show ?thesis by blast
qed

text \<open>C20: a config file that cannot be read, parsed or validated changes nothing that is in force: the reload keeps the config, the profile, the maps and
  the shared state of before, and only records the error (and says so once). This for each of the three triggers of a reload.\<close>

theorem bad_edit_keeps:
  assumes "load_or_create (su_toml su) (su_path su) (dm_fs d) = (fs', Inl x)"
    "tk_hup e \<or> tk_mtime e (su_path su) \<noteq> dm_cfg_mtime d \<or> tk_mtime e POSTURE_PATH \<noteq> dm_posture_mtime d"
  shows "\<exists>d'. reload su e d = Some d' \<and> dm_cfg d' = dm_cfg d \<and> dm_profile d' = dm_profile d \<and> dm_world d' = dm_world d
    \<and> dm_feeds d' = dm_feeds d \<and> dm_config_error d' = Some x
    \<and> length (dm_sent d') = length (dm_sent d) + (if dm_config_error d = None then 1 else 0)"
  using assms by (simp add: reload_def Let_def notified_def case_prod_unfold)

lemma bad_edit_keeps_witness:
  "\<exists>d d'. start demo_cli demo_env \<lparr>bl_v4 = [], bl_v6 = Some []\<rparr> no_links demo_fs = Some (Inr d)
    \<and> reload (demo_cli\<lparr>su_toml := (\<lambda>_. Inl (Msg ''syntax''))\<rparr>) (demo_env\<lparr>tk_hup := True\<rparr>) d = Some d' \<and> dm_cfg d' = shipped_config"
proof -
  obtain d where d: "start demo_cli demo_env \<lparr>bl_v4 = [], bl_v6 = Some []\<rparr> no_links demo_fs = Some (Inr d)" "dm_cfg d = shipped_config"
    using demo_start by blast
  let ?su = "demo_cli\<lparr>su_toml := (\<lambda>_. Inl (Msg ''syntax''))\<rparr>"
  have "\<exists>fs' x. load_or_create (su_toml ?su) (su_path ?su) (dm_fs d) = (fs', Inl x)"
    by (auto simp: load_or_create_def parse_config_def read_to_string_def write_file_def opt_ok_def rbind_def Let_def split: option.splits)
  then obtain fs' x where "load_or_create (su_toml ?su) (su_path ?su) (dm_fs d) = (fs', Inl x)" by blast
  from bad_edit_keeps [OF this, of "demo_env\<lparr>tk_hup := True\<rparr>"] d show ?thesis by auto
qed

text \<open>C40: a config that validates but cannot be applied, its blocked addresses finding no room in the ban map, is reported as
  rejected, with the last config that worked said to be in force, and the daemon goes on with that one; but the ports, rules, limits and settings in the kernel
  are those of the new one.\<close>

theorem failed_reload_half_applied:
  assumes "validate cfg = Inr ()" "maps_ok (w_maps (dm_world d))" "prof = profile_for cfg (active_connections (tk_host e))"
    and "compile (policy_of cfg prof) = Inr c" "card (set (co_from_tcp c)) \<le> 4096" "card (set (co_from_udp c)) \<le> 4096"
    and "apply_config cfg (policy_of cfg prof) (ephemeral_low (tk_host e)) (dm_world d) = (w, Inl x)"
  shows "\<exists>d'. adopt su e cfg d = Some d' \<and> dm_cfg d' = dm_cfg d \<and> dm_profile d' = dm_profile d \<and> dm_config_error d' = Some x
    \<and> in_force c (w_maps (dm_world d')) \<and> settings_for cfg (policy_of cfg prof) (ephemeral_low (tk_host e)) (w_settings (dm_world d'))"
  using apply_config_fails [OF assms(1,4,2,5,6,7)] assms(3,7) by (simp add: adopt_def Let_def)

definition full_bans :: blocklist where
  "full_bans = \<lparr>bl_v4 = map (\<lambda>i. (of_nat i, 0)) [0..<65536], bl_v6 = Some []\<rparr>"

definition one_more :: config where
  "one_more = shipped_config\<lparr>c_blocked := [''255.0.0.1''], c_allow_tcp := [One 22]\<rparr>"

lemma one_more_facts:
  "blocked_cidrs one_more = Inr [\<lparr>ci_net = 0xFF000001, ci_mask = - 1\<rparr>]" "validate one_more = Inr ()"
proof -
  have c: "cidr_parse ''255.0.0.1'' = Inr \<lparr>ci_net = 0xFF000001, ci_mask = - 1\<rparr>" by (simp add: cidr_eval)
  then show b: "blocked_cidrs one_more = Inr [\<lparr>ci_net = 0xFF000001, ci_mask = - 1\<rparr>]"
    by (simp add: blocked_cidrs_def one_more_def)
  have "leading_ones (- 1) = 32" by code_simp
  moreover have "policy_ok [One 22] [One 5353] []" by (simp add: policy_ok_def expand_def)
  ultimately show "validate one_more = Inr ()"
    using rules_default b by (simp add: validate_iff one_more_def trusted_cidrs_def shipped_config_def config_default_def)
qed

lemma of_nat_eq_iff_small: "i < 65536 \<Longrightarrow> j < 65536 \<Longrightarrow> (of_nat i :: u32) = of_nat j \<longleftrightarrow> i = j"
proof
  assume "i < 65536" "j < 65536" "(of_nat i :: u32) = of_nat j"
  then have "unat (of_nat i :: u32) = unat (of_nat j :: u32)" by simp
  then show "i = j" using \<open>i < 65536\<close> \<open>j < 65536\<close> by (simp add: unat_of_nat)
qed simp

lemma full_bans_ok: "bl_ok full_bans"
  by (simp add: full_bans_def bl_ok_def BLOCKLIST_ENTRIES_def o_def distinct_map inj_on_def of_nat_eq_iff_small)

lemma full_bans_full:
  assumes "bl_ok b" "\<And>ip. bl_get b (V4 ip) = (if ip = 0xFF000001 then Some e else bl_get full_bans (V4 ip))"
  shows False
proof -
  have keys: "ip \<in> fst ` set (bl_v4 b) \<longleftrightarrow> bl_get b (V4 ip) \<noteq> None" for ip
    by (simp add: map_of_eq_None_iff)
  have "insert 0xFF000001 (of_nat ` {..<65536}) \<subseteq> fst ` set (bl_v4 b)"
  proof -
    have "bl_get full_bans (V4 (of_nat i)) \<noteq> None" if "i < 65536" for i
      using that unfolding full_bans_def by (simp only: bl_get.simps blocklist.simps map_of_eq_None_iff) force
    then show ?thesis unfolding subset_iff keys assms(2) by auto
  qed
  then have "card (insert (0xFF000001 :: u32) (of_nat ` {..<65536})) \<le> card (fst ` set (bl_v4 b))" by (intro card_mono) auto
  moreover have "card (of_nat ` {..<65536} :: u32 set) = 65536" by (subst card_image) (simp_all add: inj_on_def of_nat_eq_iff_small)
  moreover have "(0xFF000001 :: u32) \<notin> of_nat ` {..<65536}"
  proof
    assume "(0xFF000001 :: u32) \<in> of_nat ` {..<65536}"
    then obtain i where i: "(0xFF000001 :: u32) = of_nat i" "i < 65536" by auto
    have "unat (0xFF000001 :: u32) = unat (of_nat i :: u32)" using i(1) by (rule arg_cong)
    then show False using i(2) by (simp add: unat_of_nat)
  qed
  moreover have "card (fst ` set (bl_v4 b)) \<le> length (bl_v4 b)" using card_length [of "map fst (bl_v4 b)"] by simp
  ultimately show False using assms(1) by (simp add: bl_ok_def BLOCKLIST_ENTRIES_def)
qed

lemma failed_reload_half_applied_witness:
  "\<exists>d d'. adopt demo_cli demo_env one_more d = Some d' \<and> dm_cfg d' = shipped_config \<and> dm_config_error d' \<noteq> None
    \<and> port_open (km_tcp (w_maps (dm_world d'))) 22"
proof -
  obtain d0 :: dmn where d0: "dm_cfg d0 = shipped_config" using demo_start by blast
  define d where "d = d0\<lparr>dm_world := \<lparr>w_settings = Map.empty, w_maps = maps_init, w_shared = shared_init shipped_config full_bans\<rparr>\<rparr>"
  have prof: "profile_for one_more (active_connections (tk_host demo_env)) = None"
    by (simp add: profile_for_def one_more_def shipped_config_def config_default_def)
  obtain c where c: "compile (policy_of one_more None) = Inr c" "co_from_tcp c = []" "co_from_udp c = []" "22 \<in> set (co_tcp c)"
    by (simp add: policy_of_def one_more_def shipped_config_def config_default_def compile_def expand_def port_range_def)
  obtain w r where w: "apply_config one_more (policy_of one_more None) (ephemeral_low (tk_host demo_env)) (dm_world d) = (w, r)" by (metis surj_pair)
  have ok: "maps_ok (w_maps (dm_world d))" "hm_ok (sh_records (w_shared (dm_world d)))" "shared_ok (w_shared (dm_world d))"
    using full_bans_ok by (simp_all add: d_def maps_init_ok shared_init_def shared_ok_def detector_new_ok bn_default_ok)
  have "r \<noteq> Inr u" for u
  proof
    assume "r = Inr u"
    note w = w [unfolded this]
    have "bl_get (sh_blocklist (w_shared w)) (V4 ip) = (if ip = 0xFF000001 then Some BAN_FOREVER else bl_get full_bans (V4 ip))" for ip
      using apply_config_ok(4) [OF w ok(1,2), of "V4 ip"]
      by (simp add: d_def shared_init_def listed_in_def one_more_facts(1) cidr_contains_def)
    moreover have "shared_ok (w_shared w)"
      using apply_config_keeps [of one_more "policy_of one_more None" "ephemeral_low (tk_host demo_env)"] ok(3) w
      by (metis (mono_tags, lifting) fst_conv keeps_def)
    then have "bl_ok (sh_blocklist (w_shared w))" by (simp add: shared_ok_def)
    ultimately show False by (rule full_bans_full [rotated])
  qed
  then obtain x where x: "r = Inl x" by (cases r) auto
  from failed_reload_half_applied [OF one_more_facts(2) ok(1), of None demo_env c w x demo_cli] c prof w x
  obtain d' where "adopt demo_cli demo_env one_more d = Some d'" "dm_cfg d' = dm_cfg d" "dm_config_error d' = Some x"
    "in_force c (w_maps (dm_world d'))" by auto
  moreover have "port_open (km_tcp (w_maps (dm_world d'))) 22" using calculation(4) c(4) by (simp add: in_force_def)
  ultimately show ?thesis using d0 by (auto simp: d_def)
qed

end
