(* ===== verification/Text.thy ===== *)
theory Text
  imports Strings "HOL-Library.List_Lexorder"
begin

text \<open>
  More of Rust's \<open>str\<close>: searching and splitting at a substring, ASCII case, and the lines of a text that was put together line by
  line. Used by the parsers of command output, model replies and dashboard input.
\<close>

section \<open>Substrings\<close>

fun split_str_once :: "string \<Rightarrow> string \<Rightarrow> (string \<times> string) option" where
  "split_str_once p [] = (if p = [] then Some ([], []) else None)"
| "split_str_once p (c # cs) =
     (if starts_with p (c # cs) then Some ([], drop (length p) (c # cs))
      else map_option (\<lambda>(a, b). (c # a, b)) (split_str_once p cs))"

lemma split_str_once_Some: "split_str_once p s = Some (a, b) \<Longrightarrow> s = a @ p @ b"
proof (induction p s arbitrary: a rule: split_str_once.induct)
  case (2 p c cs)
  then show ?case
    by (auto simp: starts_with_def split: if_splits) (metis append_take_drop_id)+
qed (simp split: if_splits)

lemma split_str_once_None: "split_str_once p s = None \<longleftrightarrow> \<not> contains_str p s"
  by (induction p s rule: split_str_once.induct) auto

function split_str :: "string \<Rightarrow> string \<Rightarrow> string list" where
  "split_str p s =
     (if p = [] then [s] else case split_str_once p s of None \<Rightarrow> [s] | Some (a, b) \<Rightarrow> a # split_str p b)"
  by pat_completeness auto
termination
  by (relation "measure (length \<circ> snd)") (auto dest!: split_str_once_Some)

declare split_str.simps [simp del]

text \<open>\<open>rsplit_once\<close>: at the last occurrence of a character.\<close>

definition rsplit_once :: "char \<Rightarrow> string \<Rightarrow> (string \<times> string) option" where
  "rsplit_once c s = map_option (\<lambda>(a, b). (rev b, rev a)) (split_once c (rev s))"

lemma rsplit_once_Some: "rsplit_once c s = Some (a, b) \<Longrightarrow> s = a @ c # b \<and> c \<notin> set b"
proof -
  assume "rsplit_once c s = Some (a, b)"
  then have "rev s = rev b @ c # rev a \<and> c \<notin> set (rev b)"
    using split_once_Some [of c "rev s" "rev b" "rev a"] by (auto simp: rsplit_once_def)
  then show ?thesis by (simp add: rev_swap)
qed

lemma contains_appendI: "contains_str p (a @ p @ b)"
proof (induction a)
  case Nil
  have "starts_with p (p @ b)" by (simp add: starts_with_def)
  then show ?case by (cases "p @ b") auto
qed (simp add: starts_with_def)

lemma contains_self_head: "contains_str p (p @ b)"
  using contains_appendI [of p "[]"] by simp

lemma contains_append_left: "contains_str p b \<Longrightarrow> contains_str p (a @ b)"
  by (induction a) auto

section \<open>ASCII case\<close>

definition upper :: "char \<Rightarrow> char" where
  "upper c = (if 97 \<le> (of_char c :: nat) \<and> (of_char c :: nat) \<le> 122 then char_of ((of_char c :: nat) - 32) else c)"

definition lower :: "char \<Rightarrow> char" where
  "lower c = (if 65 \<le> (of_char c :: nat) \<and> (of_char c :: nat) \<le> 90 then char_of ((of_char c :: nat) + 32) else c)"

section \<open>Texts made of lines\<close>

definition clean_line :: "string \<Rightarrow> bool" where
  "clean_line l = list_all (\<lambda>c. (of_char c :: nat) \<noteq> 10 \<and> (of_char c :: nat) \<noteq> 13) l"

definition unlines :: "string list \<Rightarrow> string" where
  "unlines ls = concat (map (\<lambda>l. l @ newline) ls)"

lemma unlines_simps [simp]: "unlines [] = []" "unlines (l # ls) = l @ newline @ unlines ls" "unlines (ls @ ms) = unlines ls @ unlines ms"
  by (simp_all add: unlines_def)

lemma newline_of_char [simp]: "of_char (char_of (10::nat)) = (10::nat)"
  by simp

lemma split_on_line: "list_all (\<lambda>c. \<not> p c) l \<Longrightarrow> p c \<Longrightarrow> split_on p (l @ c # rest) = l # split_on p rest"
  by (induction l) auto

lemma split_on_unlines:
  "list_all clean_line ls \<Longrightarrow> split_on (\<lambda>c. of_char c = (10::nat)) (unlines ls) = ls @ [[]]"
proof (induction ls)
  case (Cons l ls)
  then have "split_on (\<lambda>c. of_char c = (10::nat)) (l @ char_of (10::nat) # unlines ls) = l # split_on (\<lambda>c. of_char c = (10::nat)) (unlines ls)"
    by (intro split_on_line) (auto simp: clean_line_def list_all_iff)
  with Cons show ?case by (simp add: newline_def)
qed simp

lemma str_lines_unlines: "list_all clean_line ls \<Longrightarrow> str_lines (unlines ls) = ls"
proof -
  assume c: "list_all clean_line ls"
  have "map (\<lambda>l. if l \<noteq> [] \<and> of_char (last l) = (13::nat) then butlast l else l) ls = ls"
    using c by (induction ls) (auto simp: clean_line_def list_all_iff)
  then show ?thesis by (simp add: str_lines_def split_on_unlines [OF c])
qed

text \<open>A word: not empty, no white space.\<close>

definition is_word :: "string \<Rightarrow> bool" where
  "is_word w = (w \<noteq> [] \<and> list_all (\<lambda>c. \<not> is_ws c) w)"

lemma split_on_words:
  assumes "is_word w" shows "split_on is_ws (w @ rest) =
    (case rest of [] \<Rightarrow> [w] | c # cs \<Rightarrow> if is_ws c then w # split_on is_ws cs
       else (case split_on is_ws rest of v # vs \<Rightarrow> (w @ v) # vs | [] \<Rightarrow> [w]))"
proof -
  have "list_all (\<lambda>c. \<not> is_ws c) u \<Longrightarrow> split_on is_ws (u @ rest) =
    (case split_on is_ws rest of v # vs \<Rightarrow> (u @ v) # vs | [] \<Rightarrow> [u])" for u
    by (induction u) (auto split: list.splits)
  then show ?thesis using assms by (auto simp: is_word_def split: list.splits)
qed

lemma split_whitespace_word [simp]: "is_word w \<Longrightarrow> split_whitespace w = [w]"
  using split_on_words [of w "[]"] by (simp add: split_whitespace_def is_word_def)

lemma split_whitespace_Cons:
  assumes "is_word w" "is_ws c" shows "split_whitespace (w @ c # rest) = w # split_whitespace rest"
  using split_on_words [OF assms(1), of "c # rest"] assms by (simp add: split_whitespace_def is_word_def)

lemma split_whitespace_join: "list_all is_word ws \<Longrightarrow> split_whitespace (join '' '' ws) = ws"
proof (induction "'' ''" ws rule: join.induct)
  case (3 x y ys)
  then show ?case by (simp add: split_whitespace_Cons is_ws_def)
qed (simp add: split_whitespace_def, use split_whitespace_word in \<open>simp add: split_whitespace_def\<close>)

lemma trim_start_ws: "list_all is_ws a \<Longrightarrow> trim_start_by is_ws (a @ s) = trim_start_by is_ws s"
  by (induction a) (auto simp: trim_start_by_def)

lemma dropWhile_keeps: "s \<noteq> [] \<Longrightarrow> \<not> p (hd s) \<Longrightarrow> dropWhile p s = s"
  by (cases s) auto

lemma trim_by_keep: "s \<noteq> [] \<Longrightarrow> \<not> p (hd s) \<Longrightarrow> \<not> p (last s) \<Longrightarrow> trim_by p s = s"
  using dropWhile_keeps [of s p] dropWhile_keeps [of "rev s" p] by (simp add: trim_by_def trim_start_by_def trim_end_by_def hd_rev)

definition trimmed :: "string \<Rightarrow> bool" where
  "trimmed s = (s = [] \<or> \<not> is_ws (hd s) \<and> \<not> is_ws (last s))"

lemma trim_trimmed: "trimmed s \<Longrightarrow> trim s = s"
  using trim_by_keep [of s is_ws] by (cases "s = []") (simp_all add: trimmed_def trim_def, simp add: trim_by_def trim_start_by_def trim_end_by_def)

lemma trim_indent: "list_all is_ws a \<Longrightarrow> trimmed s \<Longrightarrow> trim (a @ s) = s"
  using trim_trimmed [of s] by (simp add: trim_def trim_by_def trim_start_ws)

end
