(* ===== verification/Nft.thy ===== *)
theory Nft
  imports Host Text
begin

text \<open>
  The nftables part of the doctor (src/ai-firewall/src/doctor.rs): reading \<open>nft list ruleset\<close>, the forward chains that
  cut a VM bridge off, and the two rules that let it through. The tool itself is a parameter: what it lists and what running it does.
\<close>

section \<open>Chains\<close>

record chain =
  ch_family :: string
  ch_table :: string
  ch_name :: string
  ch_hook :: "string option"
  ch_drop :: bool
  ch_body :: string

type_synonym rules_state = "chain list \<times> string \<times> string \<times> chain option"

definition word_or_empty :: "string list \<Rightarrow> nat \<Rightarrow> string" where
  "word_or_empty ws i = (if i < length ws then ws ! i else [])"

definition hook_of :: "string \<Rightarrow> string option" where
  "hook_of t =
     (case split_str ''hook '' t of
        _ # h # _ \<Rightarrow> (case split_whitespace h of w # _ \<Rightarrow> Some w | [] \<Rightarrow> None)
      | _ \<Rightarrow> None)"

definition ruleset_line :: "string \<Rightarrow> rules_state \<Rightarrow> rules_state" where
  "ruleset_line line st =
     (let t = trim line; (done_chains, family, table, current) = st; brace = (\<lambda>c. c = CHR 0x7B) in
      case strip_prefix ''table '' t of
        Some rest \<Rightarrow>
          let parts = split_whitespace (trim_end_by brace rest)
          in (done_chains, word_or_empty parts 0, word_or_empty parts 1, current)
      | None \<Rightarrow>
          (case strip_prefix ''chain '' t of
             Some rest \<Rightarrow>
               (done_chains, family, table,
                Some \<lparr>ch_family = family, ch_table = table, ch_name = trim (trim_end_by brace rest), ch_hook = None,
                  ch_drop = False, ch_body = []\<rparr>)
           | None \<Rightarrow>
               if t = [CHR 0x7D] then
                 (case current of
                    Some c \<Rightarrow> (done_chains @ [c], family, table, None)
                  | None \<Rightarrow> st)
               else
                 (case current of
                    None \<Rightarrow> st
                  | Some c \<Rightarrow>
                      if starts_with ''type '' t then
                        (done_chains, family, table, Some (c\<lparr>ch_hook := hook_of t, ch_drop := contains_str ''policy drop'' t\<rparr>))
                      else (done_chains, family, table, Some (c\<lparr>ch_body := ch_body c @ t @ newline\<rparr>)))))"

definition parse_ruleset :: "string \<Rightarrow> chain list" where
  "parse_ruleset text = fst (fold ruleset_line (str_lines text) ([], [], [], None))"

section \<open>VM bridges and the chains that block them\<close>

definition virt_bridges :: "host \<Rightarrow> string list" where
  "virt_bridges h = sort (filter is_virt_bridge (h_net_dir h))"

definition vm_bridges :: "host \<Rightarrow> string list" where
  "vm_bridges h =
     filter (\<lambda>b. starts_with ''virbr'' b \<or> starts_with ''lxdbr'' b \<or> starts_with ''vmnet'' b) (virt_bridges h)"

definition quoted :: "string \<Rightarrow> string" where
  "quoted s = CHR 0x22 # s @ [CHR 0x22]"

definition lets_out :: "string \<Rightarrow> chain \<Rightarrow> bool" where
  "lets_out bridge c =
     list_ex (\<lambda>l. contains_str (''iifname '' @ quoted bridge) l \<and> contains_str ''accept'' l) (str_lines (ch_body c))"

definition blocking_forward_chains :: "chain list \<Rightarrow> string \<Rightarrow> chain list" where
  "blocking_forward_chains cs bridge =
     filter (\<lambda>c. \<not> lets_out bridge c) (filter (\<lambda>c. ch_hook c = Some ''forward'' \<and> ch_drop c) cs)"

section \<open>Letting the bridges through\<close>

text \<open>\<open>nf_list\<close> is \<open>nft list ruleset\<close>, \<open>None\<close> when it fails; \<open>nf_run\<close> runs \<open>nft\<close> with arguments: \<open>None\<close> when it could
  not be started, otherwise whether it succeeded.\<close>

record 'n nft =
  nf_list :: "'n \<Rightarrow> string option"
  nf_run :: "string list \<Rightarrow> 'n \<Rightarrow> 'n \<times> bool option"

definition insert_base :: "chain \<Rightarrow> string list" where
  "insert_base c = [''insert'', ''rule'', ch_family c, ch_table c, ch_name c]"

definition reply_rule :: "string \<Rightarrow> string list" where
  "reply_rule bridge =
     [''oifname'', quoted bridge, ''ct'', ''state'', ''related,established'', ''accept'', ''comment'', quoted ''ai-firewall'']"

definition out_rule :: "string \<Rightarrow> string list" where
  "out_rule bridge = [''iifname'', quoted bridge, ''accept'', ''comment'', quoted ''ai-firewall'']"

definition nft_do :: "'n nft \<Rightarrow> string list \<Rightarrow> 'n \<Rightarrow> 'n \<times> (error + unit)" where
  "nft_do nf args n =
     (case nf_run nf args n of
        (n', None) \<Rightarrow> (n', Inl (Msg ''nft''))
      | (n', Some ok) \<Rightarrow> (n', if ok then Inr () else Inl (Msg (''nft '' @ join '' '' args @ '' failed''))))"

definition let_through :: "'n nft \<Rightarrow> string \<times> chain \<Rightarrow> 'n \<Rightarrow> 'n \<times> (error + string)" where
  "let_through nf bc n =
     (let (bridge, c) = bc in
      case nft_do nf (insert_base c @ reply_rule bridge) n of
        (n1, Inl e) \<Rightarrow> (n1, Inl e)
      | (n1, Inr _) \<Rightarrow>
          (case nft_do nf (insert_base c @ out_rule bridge) n1 of
             (n2, Inl e) \<Rightarrow> (n2, Inl e)
           | (n2, Inr _) \<Rightarrow> (n2, Inr (bridge @ '' through '' @ ch_family c @ '' '' @ ch_table c @ '' '' @ ch_name c))))"

fun let_all :: "'n nft \<Rightarrow> (string \<times> chain) list \<Rightarrow> 'n \<Rightarrow> 'n \<times> (error + string list)" where
  "let_all nf [] n = (n, Inr [])"
| "let_all nf (bc # bcs) n =
     (case let_through nf bc n of
        (n1, Inl e) \<Rightarrow> (n1, Inl e)
      | (n1, Inr what) \<Rightarrow>
          (case let_all nf bcs n1 of
             (n2, Inl e) \<Rightarrow> (n2, Inl e)
           | (n2, Inr changed) \<Rightarrow> (n2, Inr (what # changed))))"

definition blocked_pairs :: "chain list \<Rightarrow> string list \<Rightarrow> (string \<times> chain) list" where
  "blocked_pairs cs bridges = concat (map (\<lambda>b. map (Pair b) (blocking_forward_chains cs b)) bridges)"

definition ensure_vm_forwarding :: "'n nft \<Rightarrow> host \<Rightarrow> 'n \<Rightarrow> 'n \<times> (error + string list)" where
  "ensure_vm_forwarding nf h n =
     (let bridges = vm_bridges h in
      if bridges = [] then (n, Inr [])
      else (case nf_list nf n of
              None \<Rightarrow> (n, Inr [])
            | Some text \<Rightarrow> let_all nf (blocked_pairs (parse_ruleset text) bridges) n))"

section \<open>What the tool lists is what the parser reads\<close>

text \<open>The shape of \<open>nft list ruleset\<close>, a table block for each chain, with two spellings of the policy.\<close>

definition tab :: string where "tab = [char_of (9::nat)]"

definition HOOKS :: "string list" where
  "HOOKS = [''prerouting'', ''input'', ''forward'', ''output'', ''postrouting'', ''ingress'', ''egress'']"

definition hook_line :: "chain \<Rightarrow> string" where
  "hook_line c =
     ''type filter hook '' @ opt_or (ch_hook c) [] @ '' priority filter; policy '' @ (if ch_drop c then ''drop;'' else ''accept;'')"

definition chain_lines :: "chain \<Rightarrow> string list \<Rightarrow> string list" where
  "chain_lines c body =
     [''table '' @ ch_family c @ '' '' @ ch_table c @ '' {'', tab @ ''chain '' @ ch_name c @ '' {'']
     @ (if ch_hook c = None then [] else [tab @ tab @ hook_line c]) @ map (\<lambda>l. tab @ tab @ l) body @ [tab @ ''}'', ''}'']"

definition plain_line :: "string \<Rightarrow> bool" where
  "plain_line l = (clean_line l \<and> trimmed l \<and> l \<noteq> ''}'' \<and> \<not> starts_with ''table '' l \<and> \<not> starts_with ''chain '' l \<and> \<not> starts_with ''type '' l)"

definition name_ok :: "string \<Rightarrow> bool" where
  "name_ok w = (is_word w \<and> last w \<noteq> CHR 0x7B)"

fun chain_ok :: "chain \<times> string list \<Rightarrow> bool" where
  "chain_ok (c, body) =
     (name_ok (ch_family c) \<and> name_ok (ch_table c) \<and> name_ok (ch_name c) \<and> list_all plain_line body \<and> ch_body c = unlines body
      \<and> (case ch_hook c of None \<Rightarrow> \<not> ch_drop c | Some h \<Rightarrow> h \<in> set HOOKS))"

definition print_ruleset :: "(chain \<times> string list) list \<Rightarrow> string" where
  "print_ruleset cs = unlines (concat (map (\<lambda>(c, body). chain_lines c body) cs))"


lemma plain_trim: "trimmed l \<Longrightarrow> trim (tab @ tab @ l) = l"
  using trim_indent [of "tab @ tab" l] by (simp add: tab_def is_ws_def)

lemma name_char: "name_ok w \<Longrightarrow> w \<noteq> [] \<and> \<not> is_ws (hd w) \<and> \<not> is_ws (last w) \<and> last w \<noteq> CHR 0x7B"
  by (auto simp: name_ok_def is_word_def list_all_iff)

lemma trim_brace: "trim_end_by (\<lambda>c. c = CHR 0x7B) (s @ '' {'') = s @ '' ''"
  by (simp add: trim_end_by_def)

lemma table_line:
  assumes "name_ok f" "name_ok t"
  shows "ruleset_line (''table '' @ f @ '' '' @ t @ '' {'') (cs, f', t', cur) = (cs, f, t, cur)"
proof -
  have "trim (''table '' @ f @ '' '' @ t @ '' {'') = ''table '' @ f @ '' '' @ t @ '' {''"
    by (intro trim_trimmed) (simp add: trimmed_def is_ws_def)
  moreover have "split_whitespace (f @ '' '' @ t @ '' '') = [f, t]"
    using assms split_whitespace_Cons [of f "CHR '' ''" "t @ '' ''"] split_whitespace_Cons [of t "CHR '' ''" "[]"]
    by (simp add: name_ok_def is_ws_def, simp add: split_whitespace_def)
  ultimately show ?thesis
    using trim_brace [of "f @ '' '' @ t"] by (simp add: ruleset_line_def strip_prefix_def starts_with_def word_or_empty_def)
qed

lemma chain_line:
  assumes "name_ok n"
  shows "ruleset_line (tab @ ''chain '' @ n @ '' {'') (cs, f, t, cur)
    = (cs, f, t, Some \<lparr>ch_family = f, ch_table = t, ch_name = n, ch_hook = None, ch_drop = False, ch_body = []\<rparr>)"
proof -
  have "trim (tab @ ''chain '' @ n @ '' {'') = ''chain '' @ n @ '' {''"
    by (intro trim_indent) (simp_all add: tab_def trimmed_def is_ws_def)
  moreover have "trim (n @ '' '') = n"
    using name_char [OF assms] dropWhile_keeps [of "n @ '' ''" is_ws] dropWhile_keeps [of "rev n" is_ws]
    by (simp add: trim_def trim_by_def trim_start_by_def trim_end_by_def is_ws_def [of "CHR '' ''"] hd_rev hd_append)
  ultimately show ?thesis
    using trim_brace [of n] by (simp add: ruleset_line_def strip_prefix_def starts_with_def)
qed

lemma hook_facts:
  assumes "h \<in> set HOOKS"
  shows "let t = ''type filter hook '' @ h @ '' priority filter; policy '' @ (if d then ''drop;'' else ''accept;'')
    in trimmed t \<and> hook_of t = Some h \<and> (contains_str ''policy drop'' t \<longleftrightarrow> d) \<and> clean_line t"
proof -
  have "list_all (\<lambda>h. list_all (\<lambda>d. let t = ''type filter hook '' @ h @ '' priority filter; policy '' @ (if d then ''drop;'' else ''accept;'')
    in trimmed t \<and> hook_of t = Some h \<and> (contains_str ''policy drop'' t \<longleftrightarrow> d) \<and> clean_line t) [False, True]) HOOKS"
    by code_simp
  moreover have "d \<in> set [False, True]" by (cases d) simp_all
  ultimately show ?thesis using assms unfolding list_all_iff by blast
qed

lemma hook_line_step:
  assumes "h \<in> set HOOKS" "ch_hook c = Some h"
  shows "ruleset_line (tab @ tab @ hook_line c) (cs, f, t, Some r) = (cs, f, t, Some (r\<lparr>ch_hook := Some h, ch_drop := ch_drop c\<rparr>))"
proof -
  have h: "hook_line c = ''type filter hook '' @ h @ '' priority filter; policy '' @ (if ch_drop c then ''drop;'' else ''accept;'')"
    by (simp add: hook_line_def assms(2))
  have f: "trimmed (hook_line c)" "hook_of (hook_line c) = Some h" "contains_str ''policy drop'' (hook_line c) \<longleftrightarrow> ch_drop c"
    using hook_facts [OF assms(1), of "ch_drop c"] unfolding h Let_def by blast+
  have "strip_prefix ''table '' (hook_line c) = None" "strip_prefix ''chain '' (hook_line c) = None"
    "hook_line c \<noteq> ''}''" "starts_with ''type '' (hook_line c)"
    by (simp_all add: h strip_prefix_def starts_with_def)
  then show ?thesis by (simp add: ruleset_line_def plain_trim [OF f(1)] f(2,3))
qed

lemma body_line_step:
  assumes "plain_line l"
  shows "ruleset_line (tab @ tab @ l) (cs, f, t, Some r) = (cs, f, t, Some (r\<lparr>ch_body := ch_body r @ l @ newline\<rparr>))"
  using assms by (simp add: ruleset_line_def plain_line_def plain_trim strip_prefix_def)

lemma body_lines_step:
  "list_all plain_line ls \<Longrightarrow>
   fold ruleset_line (map (\<lambda>l. tab @ tab @ l) ls) (cs, f, t, Some r) = (cs, f, t, Some (r\<lparr>ch_body := ch_body r @ unlines ls\<rparr>))"
proof (induction ls arbitrary: r)
  case (Cons l ls)
  then show ?case using body_line_step [of l cs f t r] by simp
qed simp

lemma brace_step:
  "ruleset_line (tab @ ''}'') (cs, f, t, Some r) = (cs @ [r], f, t, None)" "ruleset_line ''}'' (cs, f, t, None) = (cs, f, t, None)"
proof -
  have "trim (tab @ ''}'') = ''}''" "trim ''}'' = ''}''" by code_simp+
  then show "ruleset_line (tab @ ''}'') (cs, f, t, Some r) = (cs @ [r], f, t, None)" "ruleset_line ''}'' (cs, f, t, None) = (cs, f, t, None)"
    by (simp_all add: ruleset_line_def strip_prefix_def starts_with_def)
qed

lemma chain_lines_step:
  assumes "chain_ok (c, body)"
  shows "fold ruleset_line (chain_lines c body) (cs, f, t, None) = (cs @ [c], ch_family c, ch_table c, None)"
proof -
  let ?r = "\<lparr>ch_family = ch_family c, ch_table = ch_table c, ch_name = ch_name c, ch_hook = None, ch_drop = False, ch_body = []\<rparr>"
  have "fold ruleset_line (if ch_hook c = None then [] else [tab @ tab @ hook_line c]) (cs, ch_family c, ch_table c, Some ?r)
      = (cs, ch_family c, ch_table c, Some (?r\<lparr>ch_hook := ch_hook c, ch_drop := ch_drop c\<rparr>))"
    using assms by (auto simp: hook_line_step split: option.splits)
  then show ?thesis
    using assms table_line [of "ch_family c" "ch_table c" cs f t None] chain_line [of "ch_name c" cs "ch_family c" "ch_table c" None]
      body_lines_step [of body]
    by (simp add: chain_lines_def brace_step del: append_assoc append_Cons append_Nil)
qed

lemma clean_line_append [simp]: "clean_line (a @ b) \<longleftrightarrow> clean_line a \<and> clean_line b" "clean_line [] \<longleftrightarrow> True"
  "clean_line (c # s) \<longleftrightarrow> (of_char c :: nat) \<noteq> 10 \<and> (of_char c :: nat) \<noteq> 13 \<and> clean_line s"
  by (auto simp: clean_line_def)

lemma is_word_clean: "is_word w \<Longrightarrow> clean_line w"
  unfolding is_word_def clean_line_def list_all_iff is_ws_def by force

lemma chain_lines_clean:
  assumes "chain_ok (c, body)" shows "list_all clean_line (chain_lines c body)"
proof -
  have "clean_line (hook_line c)" if h: "ch_hook c \<noteq> None"
  proof -
    obtain k where k: "ch_hook c = Some k" "k \<in> set HOOKS" using h assms by (auto split: option.splits)
    show ?thesis using hook_facts [OF k(2), of "ch_drop c"] by (simp add: hook_line_def k(1) Let_def)
  qed
  moreover have "clean_line (ch_family c)" "clean_line (ch_table c)" "clean_line (ch_name c)" "list_all clean_line body"
    using assms by (auto simp: name_ok_def plain_line_def list_all_iff intro: is_word_clean)
  moreover have "clean_line tab" by (simp add: tab_def)
  ultimately show ?thesis by (auto simp: chain_lines_def list_all_iff)
qed

lemma parse_print:
  assumes "list_all chain_ok cs" shows "parse_ruleset (print_ruleset cs) = map fst cs"
proof -
  have "list_all clean_line (concat (map (\<lambda>(c, body). chain_lines c body) cs))"
    using assms chain_lines_clean by (auto simp: list_all_iff split: prod.splits)
  then have "str_lines (print_ruleset cs) = concat (map (\<lambda>(c, body). chain_lines c body) cs)"
    by (simp add: print_ruleset_def str_lines_unlines)
  moreover have "fst (fold ruleset_line (concat (map (\<lambda>(c, body). chain_lines c body) cs)) (acc, f, t, None)) = acc @ map fst cs" for acc f t
    using assms
  proof (induction cs arbitrary: acc f t)
    case (Cons cb cs)
    obtain c body where cb: "cb = (c, body)" by (cases cb)
    have "chain_ok (c, body)" "list_all chain_ok cs" using Cons.prems by (simp_all only: cb list.pred_inject)
    then show ?case using Cons.IH by (simp add: cb chain_lines_step)
  qed simp
  ultimately show ?thesis by (simp add: parse_ruleset_def)
qed

text \<open>Parsing undoes printing: from a ruleset printed the way \<open>nft\<close> does, the parser reads exactly the chains it was printed from, with
  their tables, hooks, policies and rules.\<close>

theorem ruleset_round_trip:
  assumes "list_all chain_ok cs"
  shows "parse_ruleset (print_ruleset cs) = map fst cs"
  by (rule parse_print [OF assms])

definition docker_forward :: "chain \<times> string list" where
  "docker_forward =
     (\<lparr>ch_family = ''ip'', ch_table = ''filter'', ch_name = ''FORWARD'', ch_hook = Some ''forward'', ch_drop = True,
        ch_body = unlines [''counter packets 0 bytes 0 jump DOCKER-USER'']\<rparr>, [''counter packets 0 bytes 0 jump DOCKER-USER''])"

lemma docker_forward_ok: "chain_ok docker_forward"
  unfolding docker_forward_def by code_simp

lemma ruleset_round_trip_witness: "parse_ruleset (print_ruleset [docker_forward]) = [fst docker_forward]"
  by (subst ruleset_round_trip) (simp_all add: docker_forward_ok)


section \<open>After the fix no VM bridge is cut off\<close>

definition ch_key :: "chain \<Rightarrow> string \<times> string \<times> string" where
  "ch_key c = (ch_family c, ch_table c, ch_name c)"

definition insert_line :: "chain \<Rightarrow> string \<Rightarrow> chain list \<Rightarrow> chain list" where
  "insert_line c l cs = map (\<lambda>d. if ch_key d = ch_key c then d\<lparr>ch_body := l @ newline @ ch_body d\<rparr> else d) cs"

text \<open>What is relied on of \<open>nft insert rule\<close>: in a chain that exists it succeeds, the rule is listed first in the chain and nothing else
  changes. How a rule is spelled in the listing is left open but for the one the check looks for, which is listed as it was given.\<close>

definition nft_law :: "'n nft \<Rightarrow> bool" where
  "nft_law nf \<longleftrightarrow>
     (\<forall>n t c b. nf_list nf n = Some t \<and> ch_key c \<in> ch_key ` set (parse_ruleset t) \<and> clean_line b \<longrightarrow>
        (\<exists>n' t' l. nf_run nf (insert_base c @ reply_rule b) n = (n', Some True) \<and> nf_list nf n' = Some t' \<and> clean_line l
           \<and> parse_ruleset t' = insert_line c l (parse_ruleset t))
        \<and> (\<exists>n' t'. nf_run nf (insert_base c @ out_rule b) n = (n', Some True) \<and> nf_list nf n' = Some t'
           \<and> parse_ruleset t' = insert_line c (join '' '' (out_rule b)) (parse_ruleset t)))"

lemma str_lines_Cons: "clean_line l \<Longrightarrow> str_lines (l @ newline @ s) = l # str_lines s"
proof -
  assume c: "clean_line l"
  then have "split_on (\<lambda>c. of_char c = (10::nat)) (l @ newline @ s) = l # split_on (\<lambda>c. of_char c = (10::nat)) s"
    unfolding newline_def append_Cons append_Nil by (intro split_on_line) (auto simp: clean_line_def list_all_iff)
  moreover have "(if l \<noteq> [] \<and> of_char (last l) = (13::nat) then butlast l else l) = l"
    using c by (auto simp: clean_line_def list_all_iff)
  ultimately show ?thesis by (simp add: str_lines_def Let_def)
qed

text \<open>A ruleset evolves into another when chains only get more lines.\<close>

definition grows :: "chain \<Rightarrow> chain \<Rightarrow> bool" where
  "grows d d' \<longleftrightarrow> ch_key d' = ch_key d \<and> ch_hook d' = ch_hook d \<and> ch_drop d' = ch_drop d
     \<and> set (str_lines (ch_body d)) \<subseteq> set (str_lines (ch_body d'))"

lemma grows_insert: "clean_line l \<Longrightarrow> list_all2 grows cs (insert_line c l cs)"
  by (auto simp: insert_line_def list_all2_map2 grows_def ch_key_def str_lines_Cons intro!: list_all2_refl)

lemma grows_trans: "grows a b \<Longrightarrow> grows b c \<Longrightarrow> grows a c"
  by (auto simp: grows_def)

lemma grows_all_trans: "list_all2 grows a b \<Longrightarrow> list_all2 grows b c \<Longrightarrow> list_all2 grows a c"
  by (rule list_all2_trans [OF grows_trans])

lemma grows_keys: "list_all2 grows a b \<Longrightarrow> ch_key ` set b = ch_key ` set a"
  by (induction rule: list_all2_induct) (auto simp: grows_def)

lemma lets_out_grows: "grows d d' \<Longrightarrow> lets_out b d \<Longrightarrow> lets_out b d'"
  by (auto simp: grows_def lets_out_def list_ex_iff)

lemma join_Cons: "ws \<noteq> [] \<Longrightarrow> join s (w # ws) = w @ s @ join s ws"
  by (cases ws) auto

lemma out_line: "clean_line b \<Longrightarrow> clean_line (join '' '' (out_rule b))"
  "contains_str (''iifname '' @ quoted b) (join '' '' (out_rule b))" "contains_str ''accept'' (join '' '' (out_rule b))"
proof -
  have j: "join '' '' (out_rule b) = (''iifname '' @ quoted b) @ '' '' @ ''accept'' @ '' comment '' @ quoted ''ai-firewall''"
    by (simp add: out_rule_def)
  show "clean_line b \<Longrightarrow> clean_line (join '' '' (out_rule b))" by (simp add: j quoted_def)
  show "contains_str (''iifname '' @ quoted b) (join '' '' (out_rule b))" unfolding j by (rule contains_self_head)
  show "contains_str ''accept'' (join '' '' (out_rule b))"
    unfolding j by (intro contains_append_left contains_self_head)
qed

lemma insert_lets_out: "clean_line b \<Longrightarrow> d \<in> set (insert_line c (join '' '' (out_rule b)) cs) \<Longrightarrow> ch_key d = ch_key c \<Longrightarrow> lets_out b d"
  using out_line [of b] by (auto simp: insert_line_def lets_out_def str_lines_Cons ch_key_def split: if_splits)

lemma let_through_effect:
  assumes "nft_law nf" "nf_list nf n = Some t" "ch_key c \<in> ch_key ` set (parse_ruleset t)" "clean_line b"
  shows "\<exists>n' t' w. let_through nf (b, c) n = (n', Inr w) \<and> nf_list nf n' = Some t' \<and> list_all2 grows (parse_ruleset t) (parse_ruleset t')
    \<and> (\<forall>d \<in> set (parse_ruleset t'). ch_key d = ch_key c \<longrightarrow> lets_out b d)"
proof -
  obtain n1 t1 l where r1: "nf_run nf (insert_base c @ reply_rule b) n = (n1, Some True)" "nf_list nf n1 = Some t1" "clean_line l"
      "parse_ruleset t1 = insert_line c l (parse_ruleset t)"
    using assms unfolding nft_law_def by blast
  have g1: "list_all2 grows (parse_ruleset t) (parse_ruleset t1)" unfolding r1(4) by (rule grows_insert [OF r1(3)])
  then have "ch_key c \<in> ch_key ` set (parse_ruleset t1)" using assms(3) by (simp add: grows_keys)
  then obtain n2 t2 where r2: "nf_run nf (insert_base c @ out_rule b) n1 = (n2, Some True)" "nf_list nf n2 = Some t2"
      "parse_ruleset t2 = insert_line c (join '' '' (out_rule b)) (parse_ruleset t1)"
    using assms(1,4) r1(2) unfolding nft_law_def by blast
  have g2: "list_all2 grows (parse_ruleset t1) (parse_ruleset t2)" unfolding r2(3) by (rule grows_insert [OF out_line(1) [OF assms(4)]])
  have "\<forall>d \<in> set (parse_ruleset t2). ch_key d = ch_key c \<longrightarrow> lets_out b d"
    unfolding r2(3) using insert_lets_out [OF assms(4)] by blast
  then show ?thesis using r1(1) r2(1,2) grows_all_trans [OF g1 g2] by (simp add: let_through_def nft_do_def)
qed

lemma let_all_effect:
  assumes "nft_law nf" "nf_list nf n = Some t" "\<forall>(b, c) \<in> set bcs. ch_key c \<in> ch_key ` set (parse_ruleset t) \<and> clean_line b"
  shows "\<exists>n' t' w. let_all nf bcs n = (n', Inr w) \<and> nf_list nf n' = Some t' \<and> list_all2 grows (parse_ruleset t) (parse_ruleset t')
    \<and> length w = length bcs \<and> (\<forall>(b, c) \<in> set bcs. \<forall>d \<in> set (parse_ruleset t'). ch_key d = ch_key c \<longrightarrow> lets_out b d)"
  using assms(2,3)
proof (induction bcs arbitrary: n t)
  case Nil
  have "list_all2 grows (parse_ruleset t) (parse_ruleset t)" by (rule list_all2_refl) (simp add: grows_def)
  with Nil show ?case by simp
next
  case (Cons bc bcs)
  obtain b c where bc: "bc = (b, c)" by (cases bc)
  obtain n1 t1 w where s1: "let_through nf (b, c) n = (n1, Inr w)" "nf_list nf n1 = Some t1" "list_all2 grows (parse_ruleset t) (parse_ruleset t1)"
      "\<forall>d \<in> set (parse_ruleset t1). ch_key d = ch_key c \<longrightarrow> lets_out b d"
    using let_through_effect [OF assms(1) Cons.prems(1), of c b] Cons.prems(2) by (auto simp: bc)
  have "\<forall>(b, c) \<in> set bcs. ch_key c \<in> ch_key ` set (parse_ruleset t1) \<and> clean_line b"
    using Cons.prems(2) by (simp add: grows_keys [OF s1(3)])
  from Cons.IH [OF s1(2) this] obtain n2 t2 ws where s2: "let_all nf bcs n1 = (n2, Inr ws)" "nf_list nf n2 = Some t2"
      "list_all2 grows (parse_ruleset t1) (parse_ruleset t2)" "length ws = length bcs"
      "\<forall>(b, c) \<in> set bcs. \<forall>d \<in> set (parse_ruleset t2). ch_key d = ch_key c \<longrightarrow> lets_out b d" by blast
  have "lets_out b d" if d: "d \<in> set (parse_ruleset t2)" "ch_key d = ch_key c" for d
  proof -
    obtain i where i: "i < length (parse_ruleset t2)" "d = parse_ruleset t2 ! i" using d(1) by (auto simp: in_set_conv_nth)
    then have "grows (parse_ruleset t1 ! i) d" "i < length (parse_ruleset t1)" using s2(3) by (auto simp: list_all2_conv_all_nth)
    then show ?thesis using s1(4) d(2) nth_mem [of i "parse_ruleset t1"] lets_out_grows by (fastforce simp: grows_def)
  qed
  with s1 s2 show ?case using grows_all_trans [OF s1(3) s2(3)] by (auto simp: bc)
qed

lemma vm_settles:
  assumes "nft_law nf" "nf_list nf n = Some t" "list_all clean_line (h_net_dir h)"
  shows "\<exists>n' t' w. ensure_vm_forwarding nf h n = (n', Inr w) \<and> nf_list nf n' = Some t'
    \<and> (\<forall>b \<in> set (vm_bridges h). blocking_forward_chains (parse_ruleset t') b = [])
    \<and> ensure_vm_forwarding nf h n' = (n', Inr [])"
proof (cases "vm_bridges h = []")
  case True
  then show ?thesis using assms(2) by (simp add: ensure_vm_forwarding_def)
next
  case False
  let ?ps = "blocked_pairs (parse_ruleset t) (vm_bridges h)"
  have "clean_line b" if "b \<in> set (vm_bridges h)" for b
    using that assms(3) by (auto simp: vm_bridges_def virt_bridges_def list_all_iff)
  then have "\<forall>(b, c) \<in> set ?ps. ch_key c \<in> ch_key ` set (parse_ruleset t) \<and> clean_line b"
    by (auto simp: blocked_pairs_def blocking_forward_chains_def)
  from let_all_effect [OF assms(1,2) this] obtain n' t' w where r: "let_all nf ?ps n = (n', Inr w)" "nf_list nf n' = Some t'"
      "list_all2 grows (parse_ruleset t) (parse_ruleset t')"
      "\<forall>(b, c) \<in> set ?ps. \<forall>d \<in> set (parse_ruleset t'). ch_key d = ch_key c \<longrightarrow> lets_out b d" by blast
  have none: "blocking_forward_chains (parse_ruleset t') b = []" if b: "b \<in> set (vm_bridges h)" for b
  proof -
    have "lets_out b d" if d: "d \<in> set (parse_ruleset t')" "ch_hook d = Some ''forward''" "ch_drop d" for d
    proof -
      obtain i where i: "i < length (parse_ruleset t')" "d = parse_ruleset t' ! i" using d(1) by (auto simp: in_set_conv_nth)
      define d0 where "d0 = parse_ruleset t ! i"
      have g: "grows d0 d" "d0 \<in> set (parse_ruleset t)" using r(3) i by (auto simp: list_all2_conv_all_nth d0_def)
      show ?thesis
      proof (cases "lets_out b d0")
        case True
        then show ?thesis by (rule lets_out_grows [OF g(1)])
      next
        case False
        then have "(b, d0) \<in> set ?ps" using g d b by (auto simp: blocked_pairs_def blocking_forward_chains_def grows_def)
        then show ?thesis using r(4) d(1) g(1) by (fastforce simp: grows_def)
      qed
    qed
    then show ?thesis by (auto simp: blocking_forward_chains_def)
  qed
  then have "blocked_pairs (parse_ruleset t') (vm_bridges h) = []" by (simp add: blocked_pairs_def)
  then show ?thesis using r(1,2) none False assms(2) by (auto simp: ensure_vm_forwarding_def)
qed

text \<open>The fix works: when it returns, no forward chain of the ruleset cuts a VM bridge off, and running it again changes nothing.\<close>

theorem vm_forwarding_settles:
  assumes "nft_law nf" "nf_list nf n = Some t" "list_all clean_line (h_net_dir h)"
  shows "\<exists>n' t' w. ensure_vm_forwarding nf h n = (n', Inr w) \<and> nf_list nf n' = Some t'
    \<and> (\<forall>b \<in> set (vm_bridges h). blocking_forward_chains (parse_ruleset t') b = [])
    \<and> ensure_vm_forwarding nf h n' = (n', Inr [])"
  by (rule vm_settles [OF assms])

section \<open>What the fix may run\<close>

text \<open>A tool that notes what it was asked to run.\<close>

definition noting :: "'n nft \<Rightarrow> ('n \<times> string list list) nft" where
  "noting nf = \<lparr>nf_list = (\<lambda>(n, done). nf_list nf n),
     nf_run = (\<lambda>args (n, done). let (n', r) = nf_run nf args n in ((n', done @ [args]), r))\<rparr>"

definition vm_commands :: "chain list \<Rightarrow> string list \<Rightarrow> string list set" where
  "vm_commands cs bridges =
     {insert_base c @ r | c b r. c \<in> set cs \<and> ch_hook c = Some ''forward'' \<and> ch_drop c \<and> b \<in> set bridges \<and> r \<in> {reply_rule b, out_rule b}}"

lemma nft_do_noting: "snd (fst (nft_do (noting nf) args (n, done))) = done @ [args]"
  by (simp add: nft_do_def noting_def case_prod_unfold Let_def split: option.split)

lemma let_through_noting:
  "set (snd (fst (let_through (noting nf) (b, c) st))) \<subseteq> set (snd st) \<union> {insert_base c @ reply_rule b, insert_base c @ out_rule b}"
proof -
  obtain n dn where st: "st = (n, dn)" by (cases st)
  obtain m1 r1 where s1: "nft_do (noting nf) (insert_base c @ reply_rule b) st = (m1, r1)" by (metis surj_pair)
  have d1: "snd m1 = dn @ [insert_base c @ reply_rule b]" using nft_do_noting [of nf _ n dn] s1 by (metis fst_conv st)
  obtain m2 r2 where s2: "nft_do (noting nf) (insert_base c @ out_rule b) m1 = (m2, r2)" by (metis surj_pair)
  have d2: "snd m2 = snd m1 @ [insert_base c @ out_rule b]" using nft_do_noting [of nf _ "fst m1" "snd m1"] s2 by (metis fst_conv prod.collapse)
  have "fst (let_through (noting nf) (b, c) st) = (case r1 of Inl _ \<Rightarrow> m1 | Inr _ \<Rightarrow> m2)"
    by (simp add: let_through_def s1 s2 split: sum.split)
  then show ?thesis using d1 d2 by (auto simp: st split: sum.splits)
qed

lemma let_all_noting:
  "set (snd (fst (let_all (noting nf) bcs st)))
    \<subseteq> set (snd st) \<union> {insert_base c @ r | c b r. (b, c) \<in> set bcs \<and> r \<in> {reply_rule b, out_rule b}}"
proof (induction bcs arbitrary: st)
  case (Cons bc bcs)
  obtain b c where bc: "bc = (b, c)" by (cases bc)
  obtain m1 r1 where s1: "let_through (noting nf) (b, c) st = (m1, r1)" by (metis surj_pair)
  have d1: "set (snd m1) \<subseteq> set (snd st) \<union> {insert_base c @ reply_rule b, insert_base c @ out_rule b}"
    using let_through_noting [of nf b c st] s1 by simp
  obtain m2 r2 where s2: "let_all (noting nf) bcs m1 = (m2, r2)" by (metis surj_pair)
  have d2: "set (snd m2) \<subseteq> set (snd m1) \<union> {insert_base c @ r | c b r. (b, c) \<in> set bcs \<and> r \<in> {reply_rule b, out_rule b}}"
    using Cons.IH [of m1] s2 by simp
  have e: "fst (let_all (noting nf) (bc # bcs) st) = (case r1 of Inl _ \<Rightarrow> m1 | Inr _ \<Rightarrow> m2)"
    by (simp add: bc s1 s2 split: sum.split)
  show ?case unfolding e using d1 d2 by (cases r1; simp add: bc; blast)
qed simp

text \<open>C28: whatever the tool answers, the fix only ever runs two kinds of command: inserting, at the head of a forward chain that is there and drops by
  default, a rule that lets a VM bridge out, or one that lets replies back in to it. It deletes nothing and opens nothing inwards.\<close>

theorem vm_rules_narrow:
  assumes "nf_list nf n = Some t"
  shows "set (snd (fst (ensure_vm_forwarding (noting nf) h (n, [])))) \<subseteq> vm_commands (parse_ruleset t) (vm_bridges h)"
proof -
  let ?made = "{insert_base c @ r | c b r. (b, c) \<in> set (blocked_pairs (parse_ruleset t) (vm_bridges h)) \<and> r \<in> {reply_rule b, out_rule b}}"
  have made: "?made \<subseteq> vm_commands (parse_ruleset t) (vm_bridges h)"
    by (auto simp: vm_commands_def blocked_pairs_def blocking_forward_chains_def)
  have "nf_list (noting nf) (n, []) = Some t" using assms by (simp add: noting_def)
  then have "fst (ensure_vm_forwarding (noting nf) h (n, []))
      \<in> {(n, []), fst (let_all (noting nf) (blocked_pairs (parse_ruleset t) (vm_bridges h)) (n, []))}"
    by (simp add: ensure_vm_forwarding_def Let_def)
  moreover have "set (snd (fst (let_all (noting nf) (blocked_pairs (parse_ruleset t) (vm_bridges h)) (n, [])))) \<subseteq> ?made"
    using let_all_noting [of nf "blocked_pairs (parse_ruleset t) (vm_bridges h)" "(n, [])"] by simp
  ultimately have "set (snd (fst (ensure_vm_forwarding (noting nf) h (n, [])))) \<subseteq> ?made" by auto
  with made show ?thesis by (rule order_trans [rotated])
qed

section \<open>A tool that keeps its law\<close>

definition toy_insert :: "string list \<Rightarrow> (chain \<times> string list) list \<Rightarrow> (chain \<times> string list) list" where
  "toy_insert args cs =
     map (\<lambda>(d, body). if [ch_family d, ch_table d, ch_name d] = take 3 (drop 2 args)
       then let l = join '' '' (drop 5 args) in (d\<lparr>ch_body := l @ newline @ ch_body d\<rparr>, l # body) else (d, body)) cs"

definition toy :: "(chain \<times> string list) list nft" where
  "toy = \<lparr>nf_list = (\<lambda>cs. if list_all chain_ok cs then Some (print_ruleset cs) else None),
     nf_run = (\<lambda>args cs. (toy_insert args cs, Some True))\<rparr>"

lemma rule_plain:
  assumes "clean_line b"
  shows "plain_line (join '' '' (reply_rule b))" "plain_line (join '' '' (out_rule b))"
  using assms by (simp_all add: plain_line_def reply_rule_def out_rule_def quoted_def trimmed_def is_ws_def starts_with_def)

lemma toy_insert_parses:
  assumes "list_all chain_ok cs" "plain_line (join '' '' r)"
  shows "list_all chain_ok (toy_insert (insert_base c @ r) cs)"
    "map fst (toy_insert (insert_base c @ r) cs) = insert_line c (join '' '' r) (map fst cs)"
proof -
  have "chain_ok (d, body) \<Longrightarrow> chain_ok (d\<lparr>ch_body := join '' '' r @ newline @ ch_body d\<rparr>, join '' '' r # body)" for d body
    using assms(2) by (simp split: option.splits)
  then show "list_all chain_ok (toy_insert (insert_base c @ r) cs)"
    using assms(1) by (fastforce simp: toy_insert_def insert_base_def list_all_iff Let_def simp del: chain_ok.simps)
  show "map fst (toy_insert (insert_base c @ r) cs) = insert_line c (join '' '' r) (map fst cs)"
    by (auto simp: toy_insert_def insert_base_def insert_line_def ch_key_def Let_def)
qed

lemma toy_law: "nft_law toy"
proof -
  have step: "\<exists>n' t'. nf_run toy (insert_base c @ r) n = (n', Some True) \<and> nf_list toy n' = Some t'
      \<and> parse_ruleset t' = insert_line c (join '' '' r) (parse_ruleset t)"
    if "nf_list toy n = Some t" "plain_line (join '' '' r)" for n t c r
    using that toy_insert_parses [of n r c] by (auto simp: toy_def parse_print split: if_splits)
  have l: "clean_line (join '' '' (reply_rule b))" if "clean_line b" for b using rule_plain(1) [OF that] by (simp add: plain_line_def)
  show ?thesis unfolding nft_law_def using step rule_plain l by blast
qed

definition vm_host :: host where
  "vm_host = \<lparr>h_files = Map.empty, h_nmcli = None, h_ifaddrs = [], h_net_dir = [''eth0'', ''virbr0''], h_boot = (1000, 0), h_unix = Some 1700000000\<rparr>"

lemma vm_host_bridges: "vm_bridges vm_host = [''virbr0'']"
  by (simp add: vm_bridges_def virt_bridges_def vm_host_def is_virt_bridge_def starts_with_def)

lemma vm_forwarding_settles_witness:
  "\<exists>n' t' w. ensure_vm_forwarding toy vm_host [docker_forward] = (n', Inr w) \<and> nf_list toy n' = Some t'
    \<and> blocking_forward_chains (parse_ruleset t') ''virbr0'' = []"
proof -
  have l: "nf_list toy [docker_forward] = Some (print_ruleset [docker_forward])" using docker_forward_ok by (simp add: toy_def)
  have "list_all clean_line (h_net_dir vm_host)" by (simp add: vm_host_def)
  from vm_forwarding_settles [OF toy_law l this] show ?thesis by (auto simp: vm_host_bridges)
qed

lemma vm_rules_narrow_witness:
  "set (snd (fst (ensure_vm_forwarding (noting toy) vm_host ([docker_forward], [])))) \<subseteq> vm_commands [fst docker_forward] [''virbr0'']"
proof -
  have l: "nf_list toy [docker_forward] = Some (print_ruleset [docker_forward])" using docker_forward_ok by (simp add: toy_def)
  have "parse_ruleset (print_ruleset [docker_forward]) = [fst docker_forward]" using parse_print [of "[docker_forward]"] docker_forward_ok by simp
  with vm_rules_narrow [OF l, of vm_host] show ?thesis by (simp add: vm_host_bridges)
qed

end
