(* ===== verification/Service.thy ===== *)
theory Service
  imports Loop Nft
begin

text \<open>
  The rest of the daemon's loop (src/ai-firewall/src/daemon.rs: \<open>run\<close>): the whole body of a tick with the check of VM forwarding, which
  works on the nftables rules and not on the daemon's own state, and the end of the daemon.
\<close>

definition vm_tick :: "'n nft \<Rightarrow> tick_env \<Rightarrow> dmn \<Rightarrow> 'n \<Rightarrow> 'n" where
  "vm_tick nf e d n =
     (if c_keep_vm_forwarding (dm_cfg d) \<and> dm_tick d mod PROTECT_REFRESH_TICKS = 1
      then fst (ensure_vm_forwarding nf (tk_host e) n) else n)"

definition daemon_tick :: "'n nft \<Rightarrow> cli \<Rightarrow> tick_env \<Rightarrow> dmn \<times> 'n \<Rightarrow> (dmn \<times> 'n) option" where
  "daemon_tick nf su e st = do {
     let (d, n) = st;
     d1 \<leftarrow> reload su e (d\<lparr>dm_tick := dm_tick d + 1\<rparr>);
     d2 \<leftarrow> heal_tick e d1;
     d3 \<leftarrow> sweep_tick e (strict_tick d2);
     d4 \<leftarrow> feed_tick e (profile_tick e d3);
     let n' = vm_tick nf e d4 n;
     Some (status_tick su e d4, n')
   }"

definition shutdown :: "cli \<Rightarrow> host \<Rightarrow> dmn \<Rightarrow> dmn" where
  "shutdown su h d =
     (let (s, fs) = save_state (su_enc su) h (w_shared (dm_world d)) (dm_fs d);
          fs' = (if renamable fs STATUS_FILE then fs\<lparr>files := (files fs)(STATUS_FILE := None)\<rparr> else fs)
      in on_world_shared (\<lambda>_. s) (d\<lparr>dm_fs := fs'\<rparr>))"

section \<open>What the blocks of a tick leave alone\<close>

definition same_plan :: "dmn \<Rightarrow> dmn \<Rightarrow> bool" where
  "same_plan d d' = (dm_cfg d' = dm_cfg d \<and> dm_tick d' = dm_tick d)"

lemma same_plan_trans: "same_plan d d' \<Longrightarrow> same_plan d' d'' \<Longrightarrow> same_plan d d''"
  by (simp add: same_plan_def)

lemma notified_plan [simp]: "dm_cfg (notified h a b d) = dm_cfg d" "dm_tick (notified h a b d) = dm_tick d"
  by (simp_all add: notified_def)

lemma block_plan:
  "heal_tick e d = Some d' \<Longrightarrow> same_plan d d'" "same_plan d (strict_tick d)" "sweep_tick e d = Some d' \<Longrightarrow> same_plan d d'"
  "same_plan d (profile_tick e d)" "feed_tick e d = Some d' \<Longrightarrow> same_plan d d'" "same_plan d (status_tick su e d)"
  by (auto simp: same_plan_def heal_tick_def strict_tick_def sweep_tick_def on_world_shared_def profile_tick_def feed_tick_def status_tick_def
      Let_def case_prod_unfold bind_eq_Some_conv split: if_splits sum.splits option.splits bool.splits)

lemma reload_ticks: "reload su e d = Some d' \<Longrightarrow> dm_tick d' = dm_tick d"
  by (auto simp: reload_def adopt_def Let_def case_prod_unfold bind_eq_Some_conv split: if_splits sum.splits)

lemma map_bind: "map_option f (Option.bind x g) = Option.bind x (\<lambda>y. map_option f (g y))"
  by (cases x) simp_all

lemma daemon_tick_parts:
  "daemon_tick nf su e (d, n) = map_option (\<lambda>d'. (d', vm_tick nf e d' n)) (tick su e d)"
proof -
  have "vm_tick nf e (status_tick su e d4) n = vm_tick nf e d4 n" for d4
    using block_plan(6) [of d4 su e] by (simp add: same_plan_def vm_tick_def)
  then show ?thesis by (simp add: daemon_tick_def tick_def map_bind)
qed

lemma tick_counts:
  assumes "tick su e d = Some d'"
  shows "dm_tick d' = dm_tick d + 1"
proof -
  obtain d1 d2 d3 d4 where b: "reload su e (d\<lparr>dm_tick := dm_tick d + 1\<rparr>) = Some d1" "heal_tick e d1 = Some d2"
      "sweep_tick e (strict_tick d2) = Some d3" "feed_tick e (profile_tick e d3) = Some d4" "d' = status_tick su e d4"
    using assms by (auto simp: tick_def bind_eq_Some_conv)
  note p = same_plan_def
  show ?thesis using reload_ticks [OF b(1)] block_plan(1) [OF b(2)] block_plan(2) [of d2] block_plan(3) [OF b(3)]
      block_plan(4) [of d3 e] block_plan(5) [OF b(4)] block_plan(6) [of d4 su e] b(5) by (simp add: p)
qed

lemma tick_cfg:
  assumes "tick su e d = Some d'" "reload su e (d\<lparr>dm_tick := dm_tick d + 1\<rparr>) = Some d1"
  shows "dm_cfg d' = dm_cfg d1"
proof -
  obtain d2 d3 d4 where b: "heal_tick e d1 = Some d2"
      "sweep_tick e (strict_tick d2) = Some d3" "feed_tick e (profile_tick e d3) = Some d4" "d' = status_tick su e d4"
    using assms by (auto simp: tick_def bind_eq_Some_conv)
  show ?thesis using block_plan(1) [OF b(1)] block_plan(2) [of d2] block_plan(3) [OF b(2)]
      block_plan(4) [of d3 e] block_plan(5) [OF b(3)] block_plan(6) [of d4 su e] b(4) by (simp add: same_plan_def)
qed

section \<open>VMs stay connected, and the filter stays on\<close>

text \<open>C27: every twentieth tick of the daemon mends what others did to the forward chains: when it is over, and the config asks for it, no
  chain cuts a VM bridge off, whatever happened to the rules and to the daemon before; the other ticks leave the rules alone.\<close>

theorem daemon_heals_vms:
  assumes "daemon_tick nf su e (d, n) = Some (d', n')" "c_keep_vm_forwarding (dm_cfg d')"
    and "nft_law nf" "nf_list nf n = Some t" "list_all clean_line (h_net_dir (tk_host e))"
  shows "dm_tick d' = dm_tick d + 1 \<and> (if dm_tick d' mod 20 = 1
    then \<exists>t'. nf_list nf n' = Some t' \<and> (\<forall>b \<in> set (vm_bridges (tk_host e)). blocking_forward_chains (parse_ruleset t') b = [])
    else n' = n)"
proof -
  have t: "tick su e d = Some d'" and n': "n' = vm_tick nf e d' n" using assms(1) by (auto simp: daemon_tick_parts)
  show ?thesis using tick_counts [OF t] vm_settles [OF assms(3-5)] assms(2)
    by (auto simp: n' vm_tick_def PROTECT_REFRESH_TICKS_def)
qed

lemma daemon_heals_vms_witness:
  "\<exists>d d' n' t'. start demo_cli demo_env \<lparr>bl_v4 = [], bl_v6 = Some []\<rparr> no_links demo_fs = Some (Inr d)
    \<and> daemon_tick toy demo_cli (demo_env\<lparr>tk_host := demo_host\<lparr>h_net_dir := [''virbr0'']\<rparr>\<rparr>) (d, [docker_forward]) = Some (d', n')
    \<and> nf_list toy n' = Some t' \<and> blocking_forward_chains (parse_ruleset t') ''virbr0'' = []"
proof -
  let ?e = "demo_env\<lparr>tk_host := demo_host\<lparr>h_net_dir := [''virbr0'']\<rparr>\<rparr>"
  have bl: "bl_ok \<lparr>bl_v4 = [], bl_v6 = Some []\<rparr>" by (simp add: bl_ok_def)
  obtain d where d: "start demo_cli demo_env \<lparr>bl_v4 = [], bl_v6 = Some []\<rparr> no_links demo_fs = Some (Inr d)" "dm_cfg d = shipped_config"
      and z: "dm_tick d = 0" "dm_cfg_mtime d = None" "dm_posture_mtime d = None"
    using demo_start by blast
  have r: "default_route (tk_host ?e) \<noteq> None"
    using demo_host_facts(1) by (simp add: default_route_def)
  obtain d' where d': "tick demo_cli ?e d = Some d'" using tick_total [OF r start_ok [OF d(1) bl]] by blast
  have "reload demo_cli ?e (d\<lparr>dm_tick := dm_tick d + 1\<rparr>) = Some (d\<lparr>dm_tick := dm_tick d + 1\<rparr>)"
    using z by (simp add: reload_def demo_env_def)
  from tick_cfg [OF d' this] d(2) have c: "dm_cfg d' = shipped_config" by simp
  have t: "dm_tick d' = 1" using tick_counts [OF d'] z by simp
  have k: "c_keep_vm_forwarding shipped_config" by (simp add: shipped_config_def config_default_def)
  define n' where "n' = vm_tick toy ?e d' [docker_forward]"
  have s: "daemon_tick toy demo_cli ?e (d, [docker_forward]) = Some (d', n')" using d' by (simp add: daemon_tick_parts n'_def)
  have l: "nf_list toy [docker_forward] = Some (print_ruleset [docker_forward])" using docker_forward_ok by (simp add: toy_def)
  have b: "''virbr0'' \<in> set (vm_bridges (tk_host ?e))"
    by (simp add: vm_bridges_def virt_bridges_def is_virt_bridge_def starts_with_def)
  have w: "list_all clean_line (h_net_dir (tk_host ?e))" by simp
  have "c_keep_vm_forwarding (dm_cfg d')" "dm_tick d' mod 20 = 1" using c k t by simp_all
  with daemon_heals_vms [OF s _ toy_law l w] obtain t' where t': "nf_list toy n' = Some t'"
    "\<forall>b \<in> set (vm_bridges (tk_host ?e)). blocking_forward_chains (parse_ruleset t') b = []" by auto
  then have "blocking_forward_chains (parse_ruleset t') ''virbr0'' = []" using b by (intro bspec [OF t'(2)])
  with d(1) s t'(1) show ?thesis by blast
qed

text \<open>When the daemon stops, nothing of the filter is taken down: the rules, the bans and the pinned programs stay as they are, and what
  was known of the bans is stored for the next start.\<close>

lemma shutdown_keeps_filtering:
  "w_maps (dm_world (shutdown su h d)) = w_maps (dm_world d) \<and> w_settings (dm_world (shutdown su h d)) = w_settings (dm_world d)
   \<and> sh_blocklist (w_shared (dm_world (shutdown su h d))) = sh_blocklist (w_shared (dm_world d)) \<and> dm_links (shutdown su h d) = dm_links d"
  by (simp add: shutdown_def save_state_def on_world_shared_def case_prod_unfold Let_def split: sum.split)

end
