(* ===== verification/Scoring.thy ===== *)
theory Scoring
  imports Detector
begin

text \<open>
  What the threat score means: how far the \<open>f32\<close> score can be from the exact one, what the counters of a
  track count, and when a source is banned. The reference is the score in rational arithmetic.
\<close>

section \<open>The exact score\<close>

definition exact_score :: "detector_config \<Rightarrow> track \<Rightarrow> rat" where
  "exact_score cfg t =
     of_nat (unat (tr_syn t)) / of_nat (unat (d_syn_limit cfg))
     + of_nat (length (tr_ports t)) / of_nat (unat (d_port_limit cfg))
     + of_nat (unat (tr_udp t)) / of_nat (unat (d_udp_limit cfg))
     + of_nat (unat (tr_drops t)) / of_nat (unat (d_drop_limit cfg))
     + of_nat (unat (tr_odd t)) / 3
     - 1 / of_nat (unat (d_port_limit cfg))"

section \<open>Rounding errors\<close>

lemma round_between: "0 \<le> x \<Longrightarrow> x - x / 16777216 \<le> f32_round x \<and> f32_round x \<le> x + x / 16777216"
proof -
  assume "0 \<le> x"
  then have "\<bar>f32_round x - x\<bar> \<le> x / 16777216" using f32_round_err [of x] by simp
  then show ?thesis by linarith
qed

lemma quotient_between:
  assumes "0 < b"
  shows "(of_nat a / of_nat b) * (16777211 / 16777216) \<le> f32_round (f32_of_nat a / f32_of_nat b)
    \<and> f32_round (f32_of_nat a / f32_of_nat b) \<le> (of_nat a / of_nat b) * (16777221 / 16777216) \<and> 0 < f32_of_nat b"
proof -
  define q :: rat where "q = of_nat a / of_nat b"
  define A where "A = f32_of_nat a"
  define B where "B = f32_of_nat b"
  have b1: "(1::rat) \<le> of_nat b" using assms by simp
  have q: "0 \<le> q" "of_nat a = q * of_nat b" using assms by (simp_all add: q_def)
  have A: "of_nat a - of_nat a / 16777216 \<le> A" "A \<le> of_nat a + of_nat a / 16777216"
    using round_between [of "of_nat a"] by (simp_all add: A_def f32_of_nat_def)
  have B: "of_nat b - of_nat b / 16777216 \<le> B" "B \<le> of_nat b + of_nat b / 16777216"
    using round_between [of "of_nat b"] by (simp_all add: B_def f32_of_nat_def)
  have Bpos: "0 < B" using B(1) b1 by linarith
  have "q * (16777219 / 16777216) * (of_nat b - of_nat b / 16777216) \<le> q * (16777219 / 16777216) * B"
    using B(1) q(1) by (intro mult_left_mono) simp_all
  moreover have "q * (16777219 / 16777216) * (of_nat b - of_nat b / 16777216) = (q * of_nat b) * ((16777219 / 16777216) * (16777215 / 16777216))"
    by (simp add: algebra_simps)
  moreover have "(q * of_nat b) * (16777217 / 16777216) \<le> (q * of_nat b) * ((16777219 / 16777216) * (16777215 / 16777216))"
    using q(1) by (intro mult_left_mono) simp_all
  ultimately have "A \<le> q * (16777219 / 16777216) * B" using A(2) unfolding q(2) by (simp add: algebra_simps)
  then have up: "A / B \<le> q * (16777219 / 16777216)" using Bpos by (simp add: divide_le_eq)
  have "q * (16777213 / 16777216) * B \<le> q * (16777213 / 16777216) * (of_nat b + of_nat b / 16777216)"
    using B(2) q(1) by (intro mult_left_mono) simp_all
  moreover have "q * (16777213 / 16777216) * (of_nat b + of_nat b / 16777216) = (q * of_nat b) * ((16777213 / 16777216) * (16777217 / 16777216))"
    by (simp add: algebra_simps)
  moreover have "(q * of_nat b) * ((16777213 / 16777216) * (16777217 / 16777216)) \<le> (q * of_nat b) * (16777215 / 16777216)"
    using q(1) by (intro mult_left_mono) simp_all
  ultimately have "q * (16777213 / 16777216) * B \<le> A" using A(1) unfolding q(2) by (simp add: algebra_simps)
  then have lo: "q * (16777213 / 16777216) \<le> A / B" using Bpos by (simp add: le_divide_eq)
  define z where "z = A / B"
  have "0 \<le> z" using lo [folded z_def] q(1) by linarith
  from round_between [OF this] have r: "z - z / 16777216 \<le> f32_round z" "f32_round z \<le> z + z / 16777216"
    by auto
  have "f32_round z \<le> q * (16777221 / 16777216)" using r(2) up [folded z_def] q(1) by linarith
  moreover have "q * (16777211 / 16777216) \<le> f32_round z" using r(1) lo [folded z_def] q(1) by linarith
  ultimately show ?thesis using Bpos by (simp add: q_def A_def B_def z_def)
qed

lemma limit_of_nat: "ODD_LIMIT = f32_of_nat 3"
  using f32_round_nat [of 3] by (simp add: ODD_LIMIT_def f32_of_nat_def)

lemma one_of_nat: "f32_of_nat 1 = 1" "f32_of_nat (Suc 0) = 1"
  using f32_round_nat [of 1] by (simp_all add: f32_of_nat_def)



text \<open>A running sum of five quotients.\<close>

lemma add_between:
  assumes "0 \<le> a" "0 \<le> r"
  shows "a * (16777215 / 16777216) + r * (16777215 / 16777216) \<le> f32_round (a + r)"
    "f32_round (a + r) \<le> a * (16777217 / 16777216) + r * (16777217 / 16777216)"
    "0 \<le> f32_round (a + r)"
proof -
  define z where "z = a + r"
  have z: "0 \<le> z" using assms by (simp add: z_def)
  from round_between [OF z] have b: "z - z / 16777216 \<le> f32_round z" "f32_round z \<le> z + z / 16777216" by auto
  have zz: "z = a + r" by (simp add: z_def)
  have lo: "a * (16777215 / 16777216) + r * (16777215 / 16777216) \<le> f32_round z" using b(1) zz by linarith
  have hi: "f32_round z \<le> a * (16777217 / 16777216) + r * (16777217 / 16777216)" using b(2) zz by linarith
  from lo show "a * (16777215 / 16777216) + r * (16777215 / 16777216) \<le> f32_round (a + r)" by (simp only: zz)
  from hi show "f32_round (a + r) \<le> a * (16777217 / 16777216) + r * (16777217 / 16777216)" by (simp only: zz)
  show "0 \<le> f32_round (a + r)" unfolding z_def [symmetric] by (rule f32_round_nonneg) (rule z)
qed

lemma sum5_between:
  assumes lo: "q1 * (16777211 / 16777216) \<le> r1" "q2 * (16777211 / 16777216) \<le> r2" "q3 * (16777211 / 16777216) \<le> r3"
      "q4 * (16777211 / 16777216) \<le> r4" "q5 * (16777211 / 16777216) \<le> r5"
    and hi: "r1 \<le> q1 * (16777221 / 16777216)" "r2 \<le> q2 * (16777221 / 16777216)" "r3 \<le> q3 * (16777221 / 16777216)"
      "r4 \<le> q4 * (16777221 / 16777216)" "r5 \<le> q5 * (16777221 / 16777216)"
    and q: "0 \<le> q1" "0 \<le> q2" "0 \<le> q3" "0 \<le> q4" "0 \<le> (q5 :: rat)"
    and s_def: "s = f32_round (f32_round (f32_round (f32_round (f32_round r1 + r2) + r3) + r4) + r5)"
    and S: "S = q1 + q2 + q3 + q4 + q5"
  shows "S * (16777204 / 16777216) \<le> s \<and> s \<le> S * (16777228 / 16777216)"
proof -
  have pos: "0 \<le> r" if "x * (16777211 / 16777216) \<le> r" "0 \<le> x" for x r :: rat
    using that by linarith
  note p = pos [OF lo(1) q(1)] pos [OF lo(2) q(2)] pos [OF lo(3) q(3)] pos [OF lo(4) q(4)] pos [OF lo(5) q(5)]
  define s1 where "s1 = f32_round r1"
  define s2 where "s2 = f32_round (s1 + r2)"
  define s3 where "s3 = f32_round (s2 + r3)"
  define s4 where "s4 = f32_round (s3 + r4)"
  have s: "s = f32_round (s4 + r5)" by (simp add: s_def s4_def s3_def s2_def s1_def)
  have b1: "r1 * (16777215 / 16777216) \<le> s1" "s1 \<le> r1 * (16777217 / 16777216)" "0 \<le> s1"
    using add_between [of 0 r1] p(1) by (simp_all add: s1_def)
  note b2 = add_between [OF b1(3) p(2), folded s2_def]
  note b3 = add_between [OF b2(3) p(3), folded s3_def]
  note b4 = add_between [OF b3(3) p(4), folded s4_def]
  note b5 = add_between [OF b4(3) p(5), folded s]
  have u1: "s1 \<le> q1 * (1677722201 / 1677721600)" using b1(2) hi(1) q by linarith
  have v1: "q1 * (1677720999 / 1677721600) \<le> s1" using b1(1) lo(1) q by linarith
  have u2: "s2 \<le> q1 * (1677722302 / 1677721600) + q2 * (1677722302 / 1677721600)" using b2(2) u1 hi(2) q by linarith
  have v2: "q1 * (1677720898 / 1677721600) + q2 * (1677720898 / 1677721600) \<le> s2" using b2(1) v1 lo(2) q by linarith
  have u3: "s3 \<le> q1 * (1677722403 / 1677721600) + q2 * (1677722403 / 1677721600) + q3 * (1677722403 / 1677721600)" using b3(2) u2 hi(3) q by linarith
  have v3: "q1 * (1677720797 / 1677721600) + q2 * (1677720797 / 1677721600) + q3 * (1677720797 / 1677721600) \<le> s3" using b3(1) v2 lo(3) q by linarith
  have u4: "s4 \<le> q1 * (1677722504 / 1677721600) + q2 * (1677722504 / 1677721600) + q3 * (1677722504 / 1677721600) + q4 * (1677722504 / 1677721600)" using b4(2) u3 hi(4) q by linarith
  have v4: "q1 * (1677720696 / 1677721600) + q2 * (1677720696 / 1677721600) + q3 * (1677720696 / 1677721600) + q4 * (1677720696 / 1677721600) \<le> s4" using b4(1) v3 lo(4) q by linarith
  have "s \<le> S * (16777228 / 16777216)" using b5(2) u4 hi(5) q S by linarith
  moreover have "S * (16777204 / 16777216) \<le> s" using b5(1) v4 lo(5) q S by linarith
  ultimately show ?thesis by blast
qed

lemma score_value:
  assumes "detector_ok cfg"
    and P: "P = 1 / of_nat (unat (d_port_limit cfg))" and Sdef: "S = exact_score cfg t + P"
  shows "\<exists>s p. score_of cfg t = Fin (f32_round (s - p)) \<and> 0 \<le> S \<and> 0 < P \<and> P \<le> 1
    \<and> S * (16777204 / 16777216) \<le> s \<and> s \<le> S * (16777228 / 16777216)
    \<and> P * (16777211 / 16777216) \<le> p \<and> p \<le> P * (16777221 / 16777216)"
proof -
  have pos: "0 < unat (d_syn_limit cfg)" "0 < unat (d_port_limit cfg)" "0 < unat (d_udp_limit cfg)" "0 < unat (d_drop_limit cfg)"
    using assms by (simp_all add: detector_ok_def unat_gt_0)
  define r1 where "r1 = f32_round (f32_of_nat (unat (tr_syn t)) / f32_of_nat (unat (d_syn_limit cfg)))"
  define r2 where "r2 = f32_round (f32_of_nat (length (tr_ports t)) / f32_of_nat (unat (d_port_limit cfg)))"
  define r3 where "r3 = f32_round (f32_of_nat (unat (tr_udp t)) / f32_of_nat (unat (d_udp_limit cfg)))"
  define r4 where "r4 = f32_round (f32_of_nat (unat (tr_drops t)) / f32_of_nat (unat (d_drop_limit cfg)))"
  define r5 where "r5 = f32_round (f32_of_nat (unat (tr_odd t)) / f32_of_nat 3)"
  define p where "p = f32_round (f32_of_nat 1 / f32_of_nat (unat (d_port_limit cfg)))"
  define s where "s = f32_round (f32_round (f32_round (f32_round (f32_round r1 + r2) + r3) + r4) + r5)"
  note q1 = quotient_between [OF pos(1), of "unat (tr_syn t)"]
  note q2 = quotient_between [OF pos(2), of "length (tr_ports t)"]
  note q3 = quotient_between [OF pos(3), of "unat (tr_udp t)"]
  note q4 = quotient_between [OF pos(4), of "unat (tr_drops t)"]
  have "(0::nat) < 3" by simp
  note q5 = quotient_between [OF this, of "unat (tr_odd t)"]
  note qp = quotient_between [OF pos(2), of 1]
  have div: "f32_div (f32_of_nat a) (f32_of_nat b) = Fin (f32_round (f32_of_nat a / f32_of_nat b))" if "0 < b" for a b
    using quotient_between [OF that, of a] by (simp add: f32_div_def)
  have d: "f32_div (as_f32 (tr_syn t)) (as_f32 (d_syn_limit cfg)) = Fin r1"
    "f32_div (f32_of_nat (length (tr_ports t))) (as_f32 (d_port_limit cfg)) = Fin r2"
    "f32_div (as_f32 (tr_udp t)) (as_f32 (d_udp_limit cfg)) = Fin r3"
    "f32_div (as_f32 (tr_drops t)) (as_f32 (d_drop_limit cfg)) = Fin r4"
    "f32_div (as_f32 (tr_odd t)) ODD_LIMIT = Fin r5"
    "f32_div 1 (as_f32 (d_port_limit cfg)) = Fin p"
    using div [OF pos(1), of "unat (tr_syn t)"] div [OF pos(2), of "length (tr_ports t)"] div [OF pos(3), of "unat (tr_udp t)"]
      div [OF pos(4), of "unat (tr_drops t)"] div [of 3 "unat (tr_odd t)"] div [OF pos(2), of 1]
    by (simp_all only: as_f32_def limit_of_nat r1_def r2_def r3_def r4_def r5_def p_def one_of_nat zero_less_numeral)
  have nn: "0 \<le> (of_nat a / of_nat b :: rat)" for a b :: nat
    by (intro divide_nonneg_nonneg of_nat_0_le_iff)
  have S: "S = of_nat (unat (tr_syn t)) / of_nat (unat (d_syn_limit cfg))
        + of_nat (length (tr_ports t)) / of_nat (unat (d_port_limit cfg))
        + of_nat (unat (tr_udp t)) / of_nat (unat (d_udp_limit cfg))
        + of_nat (unat (tr_drops t)) / of_nat (unat (d_drop_limit cfg))
        + of_nat (unat (tr_odd t)) / of_nat 3"
    by (simp add: Sdef P exact_score_def)
  have rr: "f32_round (0 + x) = f32_round x" for x by simp
  have "score_of cfg t = Fin (f32_round (s - p))"
    by (simp only: score_of_def signals_def d list.map fst_conv foldl.simps f32_add.simps f32_sub_def f32_neg.simps s_def rr diff_conv_add_uminus)
  moreover have "S * (16777204 / 16777216) \<le> s \<and> s \<le> S * (16777228 / 16777216)"
      by (rule sum5_between [OF q1 [THEN conjunct1, folded r1_def] q2 [THEN conjunct1, folded r2_def]
            q3 [THEN conjunct1, folded r3_def] q4 [THEN conjunct1, folded r4_def] q5 [THEN conjunct1, folded r5_def]
            q1 [THEN conjunct2, THEN conjunct1, folded r1_def] q2 [THEN conjunct2, THEN conjunct1, folded r2_def]
            q3 [THEN conjunct2, THEN conjunct1, folded r3_def] q4 [THEN conjunct2, THEN conjunct1, folded r4_def]
            q5 [THEN conjunct2, THEN conjunct1, folded r5_def] nn nn nn nn nn s_def S])
  moreover have "P * (16777211 / 16777216) \<le> p \<and> p \<le> P * (16777221 / 16777216)"
      using qp by (simp add: p_def P)
  moreover have "0 \<le> S" unfolding S by (intro add_nonneg_nonneg divide_nonneg_nonneg of_nat_0_le_iff)
  moreover have "0 < P" "P \<le> 1"
  proof -
    have "1 \<le> unat (d_port_limit cfg)" using pos(2) by simp
    then have "(of_nat 1 :: rat) \<le> of_nat (unat (d_port_limit cfg))" by (rule of_nat_mono)
    then show "0 < P" "P \<le> 1" by (simp_all add: P divide_le_eq)
  qed
  ultimately show ?thesis by blast
qed

lemma score_far:
  assumes "detector_ok cfg"
  shows "(1 + 1 / 131072 \<le> exact_score cfg t \<longrightarrow> \<not> f32_less (score_of cfg t) (Fin 1))
    \<and> (exact_score cfg t \<le> 1 - 1 / 131072 \<longrightarrow> f32_less (score_of cfg t) (Fin 1))"
proof -
  define P :: rat where "P = 1 / of_nat (unat (d_port_limit cfg))"
  define S where "S = exact_score cfg t + P"
  obtain s p where sc: "score_of cfg t = Fin (f32_round (s - p))"
    and b: "0 \<le> S" "0 < P" "P \<le> 1" "S * (16777204 / 16777216) \<le> s" "s \<le> S * (16777228 / 16777216)"
      "P * (16777211 / 16777216) \<le> p" "p \<le> P * (16777221 / 16777216)"
    using score_value [OF assms P_def S_def] by blast
  have E: "exact_score cfg t = S - P" by (simp add: S_def)
  show ?thesis
  proof (intro conjI impI)
    assume "1 + 1 / 131072 \<le> exact_score cfg t"
    then have e: "1 + 1 / 131072 \<le> S - P" by (simp add: E)
    have "1 \<le> s - p"
    proof (cases "S \<le> 10")
      case True
      then show ?thesis using e b by linarith
    next
      case False
      then show ?thesis using b by linarith
    qed
    then have "1 \<le> f32_round (s - p)" by (rule f32_round_ge_1)
    then show "\<not> f32_less (score_of cfg t) (Fin 1)" by (simp add: sc)
  next
    assume "exact_score cfg t \<le> 1 - 1 / 131072"
    then have "S - P \<le> 1 - 1 / 131072" by (simp add: E)
    then have le: "s - p \<le> 1 - 1 / 16777216" using b by linarith
    have "f32_round (of_int 16777215 * 2 powi (- 24)) = of_int 16777215 * 2 powi (- 24)"
      by (rule f32_round_exact) simp
    moreover have "of_int 16777215 * 2 powi (- 24) = (1 - 1 / 16777216 :: rat)"
      by (simp add: power_int_minus)
    ultimately have "f32_round (16777215 / 16777216) = 1 - 1 / 16777216" by simp
    then have "f32_round (s - p) \<le> 1 - 1 / 16777216" using f32_round_mono [OF le] by simp
    then show "f32_less (score_of cfg t) (Fin 1)" by (simp add: sc)
  qed
qed

text \<open>C13: the threshold means what the config says. With every limit positive, a track whose exact score exceeds
  1 by 1/131072 is at or over the ban threshold of the \<open>f32\<close> score, and one below 1 by as much is under it.\<close>

theorem score_threshold:
  assumes "detector_ok cfg"
  shows "(1 + 1 / 131072 \<le> exact_score cfg t \<longrightarrow> \<not> f32_less (score_of cfg t) (Fin 1))
    \<and> (exact_score cfg t \<le> 1 - 1 / 131072 \<longrightarrow> f32_less (score_of cfg t) (Fin 1))"
  by (rule score_far [OF assms])

lemma score_threshold_witness:
  "\<not> f32_less (score_of detector_default (track_default\<lparr>tr_syn := 50\<rparr>)) (Fin 1)"
proof -
  have "1 + 1 / 131072 \<le> exact_score detector_default (track_default\<lparr>tr_syn := 50\<rparr>)"
    by (simp add: exact_score_def detector_default_def track_default_def)
  with score_threshold [of detector_default "track_default\<lparr>tr_syn := 50\<rparr>"] show ?thesis
    by (simp add: detector_ok_def detector_default_def)
qed

text \<open>One event of a source that is not protected and has room, in terms of the exact score.\<close>

definition next_track :: "packet_event \<Rightarrow> u64 \<Rightarrow> detector \<Rightarrow> track" where
  "next_track ev now d = count_event (dt_cfg d) ev (open_window (dt_cfg d) now
     (case hm_get (dt_tracks d) (src_of ev) of Some t \<Rightarrow> t | None \<Rightarrow> track_default))"

lemma observe_over:
  assumes "\<not> is_protected d (src_of ev)" "hm_has (dt_tracks d) (src_of ev) \<or> length (dt_tracks d) < MAX_TRACKED" "detector_ok (dt_cfg d)"
    and "1 + 1 / 131072 \<le> exact_score (dt_cfg d) (next_track ev now d)"
  shows "\<exists>d' b. observe ev now d = (d', Some b)"
proof -
  have "\<not> f32_less (score_of (dt_cfg d) (next_track ev now d)) (Fin 1)" using score_far [OF assms(3)] assms(4) by blast
  then show ?thesis using assms(1,2) by (auto simp: observe_def Let_def case_prod_unfold next_track_def)
qed

lemma observe_under:
  assumes "\<not> is_protected d (src_of ev)" "hm_has (dt_tracks d) (src_of ev) \<or> length (dt_tracks d) < MAX_TRACKED" "detector_ok (dt_cfg d)"
    and "exact_score (dt_cfg d) (next_track ev now d) \<le> 1 - 1 / 131072"
  shows "observe ev now d = (d\<lparr>dt_tracks := hm_put (src_of ev) (next_track ev now d) (dt_tracks d)\<rparr>, None)"
proof -
  have "f32_less (score_of (dt_cfg d) (next_track ev now d)) (Fin 1)" using score_far [OF assms(3)] assms(4) by blast
  then show ?thesis using assms(1,2) by (auto simp: observe_def Let_def next_track_def)
qed

lemmas track_eval = next_track_def open_window_def count_event_def exact_score_def track_default_def syn_event_def src_of_def sat_sub_def
  is_null_scan_def is_xmas_scan_def is_fin_scan_def is_fin_def is_syn_def is_rst_def family_defs proto_defs tcp_flag_defs verdict_defs Let_def

lemma default_detector: "detector_ok detector_default"
  by (simp add: detector_ok_def detector_default_def)

section \<open>What a track counts\<close>

definition is_udp :: "packet_event \<Rightarrow> bool" where
  "is_udp ev = (protocol ev = PROTO_UDP)"

definition is_odd :: "packet_event \<Rightarrow> bool" where
  "is_odd ev = (\<not> is_udp ev \<and> (is_null_scan ev \<or> is_xmas_scan ev \<or> is_fin_scan ev))"

definition opens_tcp :: "packet_event \<Rightarrow> bool" where
  "opens_tcp ev = (\<not> is_udp ev \<and> \<not> is_odd ev \<and> is_syn ev)"

definition is_drop :: "packet_event \<Rightarrow> bool" where
  "is_drop ev = (verdict ev = VERDICT_DROP_POLICY)"

definition many :: "('a \<Rightarrow> bool) \<Rightarrow> 'a list \<Rightarrow> nat" where
  "many p xs = length (filter p xs)"

text \<open>\<open>counts cfg evs t\<close>: the track says how many of the events were of each kind, and how many distinct ports
  they aimed at, up to one more than the limit.\<close>

definition counts :: "detector_config \<Rightarrow> packet_event list \<Rightarrow> track \<Rightarrow> bool" where
  "counts cfg evs t =
     (tr_syn t = of_nat (many opens_tcp evs) \<and> tr_udp t = of_nat (many is_udp evs)
      \<and> tr_drops t = of_nat (many is_drop evs) \<and> tr_odd t = of_nat (many is_odd evs)
      \<and> length (tr_ports t) = min (unat (d_port_limit cfg) + 1) (card (dst_port ` set evs))
      \<and> distinct (tr_ports t) \<and> set (tr_ports t) \<subseteq> dst_port ` set evs
      \<and> (tr_udp_seen t \<longleftrightarrow> many is_udp evs > 0) \<and> (tr_tcp_seen t \<longleftrightarrow> many (\<lambda>e. \<not> is_udp e) evs > 0))"

lemma count_event_fields:
  "tr_syn (count_event cfg ev t) = (if opens_tcp ev then tr_syn t + 1 else tr_syn t)"
  "tr_udp (count_event cfg ev t) = (if is_udp ev then tr_udp t + 1 else tr_udp t)"
  "tr_drops (count_event cfg ev t) = (if is_drop ev then tr_drops t + 1 else tr_drops t)"
  "tr_odd (count_event cfg ev t) = (if is_odd ev then tr_odd t + 1 else tr_odd t)"
  "tr_udp_seen (count_event cfg ev t) = (is_udp ev \<or> tr_udp_seen t)"
  "tr_tcp_seen (count_event cfg ev t) = (\<not> is_udp ev \<or> tr_tcp_seen t)"
  "tr_window_start (count_event cfg ev t) = tr_window_start t"
  "tr_ports (count_event cfg ev t) =
     (if length (tr_ports t) \<le> unat (d_port_limit cfg) \<and> dst_port ev \<notin> set (tr_ports t)
      then tr_ports t @ [dst_port ev] else tr_ports t)"
  by (simp_all add: count_event_def Let_def opens_tcp_def is_udp_def is_odd_def is_drop_def)

lemma many_snoc: "many p (xs @ [x]) = many p xs + (if p x then 1 else 0)"
  by (simp add: many_def)

lemma counts_ports_full:
  assumes "counts cfg evs t" "length (tr_ports t) \<le> unat (d_port_limit cfg)"
  shows "set (tr_ports t) = dst_port ` set evs"
proof (rule card_subset_eq)
  show "card (set (tr_ports t)) = card (dst_port ` set evs)"
    using assms by (simp add: counts_def distinct_card)
qed (use assms in \<open>auto simp: counts_def\<close>)

lemma counts_step:
  assumes "counts cfg evs t"
  shows "counts cfg (evs @ [ev]) (count_event cfg ev t)"
proof -
  have seen: "dst_port ` set (evs @ [ev]) = insert (dst_port ev) (dst_port ` set evs)" by simp
  have ports: "length (tr_ports (count_event cfg ev t)) = min (unat (d_port_limit cfg) + 1) (card (dst_port ` set (evs @ [ev])))"
  proof (cases "length (tr_ports t) \<le> unat (d_port_limit cfg)")
    case True
    then have eq: "set (tr_ports t) = dst_port ` set evs" by (rule counts_ports_full [OF assms])
    then have "length (tr_ports t) = card (dst_port ` set evs)"
      using assms by (metis counts_def distinct_card)
    with True eq show ?thesis
      unfolding seen by (auto simp: count_event_fields card_insert_if)
  next
    case False
    then have "unat (d_port_limit cfg) + 1 \<le> card (dst_port ` set evs)" "length (tr_ports t) = unat (d_port_limit cfg) + 1"
      using assms by (auto simp: counts_def)
    moreover have "card (dst_port ` set evs) \<le> card (dst_port ` set (evs @ [ev]))"
      by (rule card_mono) auto
    ultimately show ?thesis using False by (simp add: count_event_fields)
  qed
  show ?thesis
    using assms ports by (auto simp: counts_def count_event_fields many_snoc)
qed

lemma counts_default: "counts cfg [] (track_default\<lparr>tr_window_start := w\<rparr>)"
  by (simp add: counts_def track_default_def many_def)

lemma track_default_start: "track_default = track_default\<lparr>tr_window_start := 0\<rparr>"
  by (simp add: track_default_def)

lemma observe_known:
  assumes "\<not> is_protected d (src_of ev)" "hm_get (dt_tracks d) (src_of ev) = Some t"
    "sat_sub now (tr_window_start t) < d_window_secs (dt_cfg d)" "observe ev now d = (d', None)"
  shows "hm_get (dt_tracks d') (src_of ev) = Some (count_event (dt_cfg d) ev t)
    \<and> dt_cfg d' = dt_cfg d \<and> is_protected d' = is_protected d"
  using assms by (auto simp: observe_def Let_def hm_has_def open_window_def hm_get_put fun_eq_iff not_le split: if_splits prod.splits)

lemma observe_new:
  assumes "\<not> is_protected d (src_of ev)" "hm_get (dt_tracks d) (src_of ev) = None" "length (dt_tracks d) < MAX_TRACKED"
    "observe ev now d = (d', None)"
  shows "hm_get (dt_tracks d') (src_of ev) = Some (count_event (dt_cfg d) ev (open_window (dt_cfg d) now track_default))
    \<and> dt_cfg d' = dt_cfg d \<and> is_protected d' = is_protected d"
  using assms by (auto simp: observe_def Let_def hm_get_put fun_eq_iff split: if_splits prod.splits)

lemma observe_all_counts:
  assumes "\<not> is_protected d ip" "hm_get (dt_tracks d) ip = Some t" "counts (dt_cfg d) seen t"
    "\<forall>(ev, now) \<in> set es. src_of ev = ip \<and> sat_sub now (tr_window_start t) < d_window_secs (dt_cfg d)"
    "observe_all es d = (d', [])"
  shows "\<exists>t'. hm_get (dt_tracks d') ip = Some t' \<and> counts (dt_cfg d) (seen @ map fst es) t'"
  using assms
proof (induction es arbitrary: d t seen)
  case (Cons e es)
  obtain ev now where e: "e = (ev, now)" by (cases e)
  obtain d1 b where o1: "observe ev now d = (d1, b)" by (metis surj_pair)
  have b: "b = None" and rest: "observe_all es d1 = (d', [])"
    using Cons.prems(5) by (auto simp: e o1 Let_def split: prod.splits option.splits)
  have ip: "src_of ev = ip" "sat_sub now (tr_window_start t) < d_window_secs (dt_cfg d)" using Cons.prems(4) e by auto
  have n: "hm_get (dt_tracks d1) ip = Some (count_event (dt_cfg d) ev t)" "dt_cfg d1 = dt_cfg d" "is_protected d1 = is_protected d"
    using observe_known [of d ev t now d1] Cons.prems(1,2) ip o1 b by auto
  have "\<exists>t'. hm_get (dt_tracks d') ip = Some t' \<and> counts (dt_cfg d1) ((seen @ [ev]) @ map fst es) t'"
    using Cons.prems n rest counts_step [OF Cons.prems(3), of ev] by (intro Cons.IH) (auto simp: count_event_fields)
  then show ?case by (simp add: n(2) e)
qed auto

text \<open>While a source is under the threshold, its track counts exactly what it did: after the first event opens a
  window and the others fall into it, the counters are the numbers of connection openers, of UDP packets, of
  policy drops and of packets with scan flags, and the ports are the distinct ones it aimed at.\<close>

theorem track_counts:
  assumes "\<not> is_protected d ip" "hm_get (dt_tracks d) ip = None" "length (dt_tracks d) < MAX_TRACKED"
    "src_of ev = ip" "d_window_secs (dt_cfg d) \<le> now"
    "\<forall>(ev', now') \<in> set es. src_of ev' = ip \<and> sat_sub now' now < d_window_secs (dt_cfg d)"
    "observe_all ((ev, now) # es) d = (d', [])"
  shows "\<exists>t. hm_get (dt_tracks d') ip = Some t \<and> counts (dt_cfg d) (ev # map fst es) t"
proof -
  obtain d1 b where o1: "observe ev now d = (d1, b)" by (metis surj_pair)
  have b: "b = None" and rest: "observe_all es d1 = (d', [])"
    using assms(7) by (auto simp: o1 Let_def split: prod.splits option.splits)
  let ?t = "count_event (dt_cfg d) ev (track_default\<lparr>tr_window_start := now\<rparr>)"
  have "open_window (dt_cfg d) now track_default = track_default\<lparr>tr_window_start := now\<rparr>"
    using assms(5) by (simp add: open_window_def track_default_def sat_sub_def)
  then have n: "hm_get (dt_tracks d1) ip = Some ?t" "dt_cfg d1 = dt_cfg d" "is_protected d1 = is_protected d"
    using observe_new [of d ev now d1] assms(1-4) o1 b by auto
  have "counts (dt_cfg d) ([] @ [ev]) ?t" by (rule counts_step) (rule counts_default)
  then have c: "counts (dt_cfg d1) [ev] ?t" by (simp add: n(2))
  have "\<exists>t'. hm_get (dt_tracks d') ip = Some t' \<and> counts (dt_cfg d1) ([ev] @ map fst es) t'"
    by (rule observe_all_counts [OF _ n(1) c _ rest]) (use assms(1,6) n in \<open>auto simp: count_event_fields\<close>)
  then show ?thesis by (simp add: n(2))
qed

definition syn_track :: "u16 list \<Rightarrow> track" where
  "syn_track ps = track_default\<lparr>tr_window_start := 100, tr_syn := of_nat (length ps), tr_drops := of_nat (length ps), tr_ports := ps,
     tr_tcp_seen := True\<rparr>"

lemma two_syns: "snd (observe_all [(syn_event 22, 100), (syn_event 23, 101)] (detector_new detector_default ban_default)) = []"
proof -
  define d where "d = detector_new detector_default ban_default"
  define d1 where "d1 = d\<lparr>dt_tracks := hm_put (src_of (syn_event 22)) (syn_track [22]) (dt_tracks d)\<rparr>"
  have f: "dt_cfg d = detector_default" "dt_tracks d = []" "\<not> is_protected d (V4 x)" for x by (simp_all add: d_def detector_new_def)
  have f1: "dt_cfg d1 = detector_default" "dt_tracks d1 = [(V4 0x0a000005, syn_track [22])]" "\<not> is_protected d1 (V4 x)" for x
    using f by (simp_all add: d1_def syn_event_src)
  have t: "next_track (syn_event 22) 100 d = syn_track [22]"
    by (simp add: f track_eval syn_track_def detector_default_def)
  have t1: "next_track (syn_event 23) 101 d1 = syn_track [22, 23]"
    by (simp add: f1 track_eval syn_track_def detector_default_def word_le_nat_alt)
  have e: "exact_score detector_default (syn_track [22]) \<le> 1 - 1 / 131072" "exact_score detector_default (syn_track [22, 23]) \<le> 1 - 1 / 131072"
    by (simp_all add: exact_score_def detector_default_def syn_track_def track_default_def)
  have "observe (syn_event 22) 100 d = (d1, None)"
    unfolding d1_def t [symmetric]
  proof (rule observe_under)
    show "exact_score (dt_cfg d) (next_track (syn_event 22) 100 d) \<le> 1 - 1 / 131072" unfolding f t by (rule e)
    show "\<not> is_protected d (src_of (syn_event 22))" unfolding syn_event_src by (rule f)
  qed (simp_all add: f default_detector MAX_TRACKED_def)
  moreover have "observe (syn_event 23) 101 d1 = (d1\<lparr>dt_tracks := hm_put (src_of (syn_event 23)) (next_track (syn_event 23) 101 d1) (dt_tracks d1)\<rparr>, None)"
  proof (rule observe_under)
    show "exact_score (dt_cfg d1) (next_track (syn_event 23) 101 d1) \<le> 1 - 1 / 131072" unfolding f1 t1 by (rule e)
    show "\<not> is_protected d1 (src_of (syn_event 23))" unfolding syn_event_src by (rule f1)
  qed (simp_all add: f1 default_detector MAX_TRACKED_def)
  ultimately show ?thesis by (simp add: d_def [symmetric])
qed

lemma track_counts_witness:
  "\<exists>t. hm_get (dt_tracks (fst (observe_all [(syn_event 22, 100), (syn_event 23, 101)] (detector_new detector_default ban_default)))) (V4 0x0a000005) = Some t
     \<and> counts (dt_cfg (detector_new detector_default ban_default)) [syn_event 22, syn_event 23] t"
proof -
  let ?d = "detector_new detector_default ban_default"
  have "observe_all [(syn_event 22, 100), (syn_event 23, 101)] ?d = (fst (observe_all [(syn_event 22, 100), (syn_event 23, 101)] ?d), [])"
    using two_syns by (metis prod.collapse)
  from track_counts [OF _ _ _ _ _ _ this] show ?thesis
    by (simp add: detector_new_def MAX_TRACKED_def syn_event_src detector_default_def sat_sub_def)
qed

end
