(* ===== verification/Lifecycle.thy ===== *)
theory Lifecycle
  imports Scoring Bans
begin

text \<open>
  What happens to a ban from the packet that earns it to the reboot it survives: properties of the event reader, \<open>enact\<close>,
  \<open>capture\<close> and \<open>restore\<close> together (src/ai-firewall/src/daemon.rs, src/ai-firewall/src/state.rs).
\<close>

section \<open>Packets to bans\<close>

lemma observe_ban:
  assumes "observe ev now d = (d', Some b)"
  shows "ban_ip b = src_of ev" "\<not> is_protected d (src_of ev)" "ban_secs b \<le> b_max_secs (dt_bans d)"
proof -
  show "ban_ip b = src_of ev" "\<not> is_protected d (src_of ev)"
    using assms by (cases rule: observe_cases [of d ev now]; simp)+
  show "ban_secs b \<le> b_max_secs (dt_bans d)"
    using assms by (auto simp: observe_def escalate_def Let_def prune_def split: if_splits)
qed

lemma observe_frame:
  "is_protected (fst (observe ev now d)) x = is_protected d x" "dt_bans (fst (observe ev now d)) = dt_bans d"
  by (cases rule: observe_cases [of d ev now]; auto simp: prune_def Let_def)+

lemma enact_effect:
  "sh_detector (fst (enact h b s)) = sh_detector s" "sh_enforce (fst (enact h b s)) = sh_enforce s"
  "bl_get (sh_blocklist (fst (enact h b s))) x =
     (if sh_enforce s \<and> x = ban_ip b \<and> bl_insert x (expiry_for (boot_ns h) (ban_secs b)) (sh_blocklist s) \<noteq> None
      then Some (expiry_for (boot_ns h) (ban_secs b)) else bl_get (sh_blocklist s) x)"
  by (auto simp: enact_def Let_def bl_get_insert split: option.splits)

lemma handle_event_effect:
  "is_protected (sh_detector (fst (handle_event h ev st))) x = is_protected (sh_detector (fst st)) x"
  "dt_bans (sh_detector (fst (handle_event h ev st))) = dt_bans (sh_detector (fst st))"
  "sh_enforce (fst (handle_event h ev st)) = sh_enforce (fst st)"
  using observe_frame [of ev "boot_secs h" "sh_detector (fst st)"]
  by (auto simp: handle_event_def Let_def case_prod_unfold enact_effect split: option.split)

lemma handle_event_ban:
  "bl_get (sh_blocklist (fst (handle_event h ev st))) x =
     (case snd (observe ev (boot_secs h) (sh_detector (fst st))) of
        None \<Rightarrow> bl_get (sh_blocklist (fst st)) x
      | Some b \<Rightarrow>
          (if sh_enforce (fst st) \<and> x = ban_ip b \<and> bl_insert x (expiry_for (boot_ns h) (ban_secs b)) (sh_blocklist (fst st)) \<noteq> None
           then Some (expiry_for (boot_ns h) (ban_secs b)) else bl_get (sh_blocklist (fst st)) x))"
  by (auto simp: handle_event_def Let_def case_prod_unfold enact_effect split: option.split)

lemma batch_step:
  "bl_get (sh_blocklist (fst (handle_event h ev st))) x = bl_get (sh_blocklist (fst st)) x
   \<or> sh_enforce (fst st) \<and> x = src_of ev \<and> \<not> is_protected (sh_detector (fst st)) x
     \<and> (\<exists>secs \<le> b_max_secs (dt_bans (sh_detector (fst st))).
          bl_get (sh_blocklist (fst (handle_event h ev st))) x = Some (expiry_for (boot_ns h) secs))"
proof (cases "snd (observe ev (boot_secs h) (sh_detector (fst st)))")
  case (Some b)
  obtain d' where o: "observe ev (boot_secs h) (sh_detector (fst st)) = (d', Some b)" using Some by (metis prod.collapse)
  show ?thesis using observe_ban [OF o] by (auto simp: handle_event_ban Some)
qed (simp add: handle_event_ban)

lemma batch_effect:
  "bl_get (sh_blocklist (fst (fold (handle_event h) es st))) x = bl_get (sh_blocklist (fst st)) x
   \<or> sh_enforce (fst st) \<and> x \<in> src_of ` set es \<and> \<not> is_protected (sh_detector (fst st)) x
     \<and> (\<exists>secs \<le> b_max_secs (dt_bans (sh_detector (fst st))).
          bl_get (sh_blocklist (fst (fold (handle_event h) es st))) x = Some (expiry_for (boot_ns h) secs))"
proof (induction es arbitrary: st)
  case (Cons ev es)
  show ?case
    using Cons.IH [of "handle_event h ev st"] batch_step [of h ev st x] unfolding handle_event_effect by auto
qed simp

text \<open>The packets of a batch can change the ban of a source only when the daemon enforces, the source sent one of them, and it is not
  protected; the ban it then has is one from now on for at most \<open>max_secs\<close>. Every other ban, made by hand, by the config or earlier, stays as it is.\<close>

theorem batch_bans_only_senders:
  assumes "bl_get (sh_blocklist (fst (handle_batch h es s))) x \<noteq> bl_get (sh_blocklist s) x"
  shows "sh_enforce s \<and> x \<in> src_of ` set es \<and> \<not> is_protected (sh_detector s) x
    \<and> (\<exists>secs. secs \<le> b_max_secs (dt_bans (sh_detector s))
        \<and> bl_get (sh_blocklist (fst (handle_batch h es s))) x = Some (expiry_for (boot_ns h) secs))"
  using batch_effect [of h es "(s, [])" x] assms by (auto simp: handle_batch_def)

section \<open>Over a reboot\<close>

fun is_v4 :: "src \<Rightarrow> bool" where
  "is_v4 (V4 _) = True"
| "is_v4 (V6 _) = False"

definition room_for :: "src list \<Rightarrow> blocklist \<Rightarrow> bool" where
  "room_for ips b =
     (length (bl_v4 b) + length (filter is_v4 ips) \<le> BLOCKLIST_ENTRIES
      \<and> (\<exists>m. bl_v6 b = Some m \<and> length m + length (filter (\<lambda>x. \<not> is_v4 x) ips) \<le> BLOCKLIST6_ENTRIES))"

lemma room_insert: "room_for (ip # ips) b \<Longrightarrow> \<exists>b'. bl_insert ip e b = Some b' \<and> room_for ips b'"
  by (cases ip) (auto simp: room_for_def hash_insert_def hm_length_put)

lemma room_skip: "room_for (ip # ips) b \<Longrightarrow> room_for ips b"
  by (cases ip) (auto simp: room_for_def)

lemma restore_ban_get:
  assumes "bl_get (sh_blocklist s) (sb_ip b) = None" "room_for (sb_ip b # ips) (sh_blocklist s)"
  shows "bl_get (sh_blocklist (restore_ban h b s)) x =
      (if x = sb_ip b then map_option (expiry_for (boot_ns h)) (restore_secs (unix_secs h) b) else bl_get (sh_blocklist s) x)
    \<and> room_for ips (sh_blocklist (restore_ban h b s))"
proof (cases "restore_secs (unix_secs h) b")
  case None
  then show ?thesis using assms(1) room_skip [OF assms(2)] by (simp add: restore_ban_def)
next
  case (Some secs)
  obtain bl where bl: "bl_insert (sb_ip b) (expiry_for (boot_ns h) secs) (sh_blocklist s) = Some bl" "room_for ips bl"
    using room_insert [OF assms(2)] by blast
  then have "sh_blocklist (restore_ban h b s) = bl"
    using assms(1) Some by (simp add: restore_ban_def bl_contains_get Let_def)
  then show ?thesis using bl Some bl_get_insert [OF bl(1), of x] by simp
qed

lemma restore_bans_get:
  "distinct (map sb_ip bans) \<Longrightarrow> \<forall>b \<in> set bans. bl_get (sh_blocklist s) (sb_ip b) = None \<Longrightarrow> room_for (map sb_ip bans) (sh_blocklist s) \<Longrightarrow>
    bl_get (sh_blocklist (fold (restore_ban h) bans s)) x =
      (case find (\<lambda>b. sb_ip b = x) bans of
         None \<Rightarrow> bl_get (sh_blocklist s) x
       | Some b \<Rightarrow> map_option (expiry_for (boot_ns h)) (restore_secs (unix_secs h) b))"
proof (induction bans arbitrary: s)
  case (Cons b bans)
  have "bl_get (sh_blocklist s) (sb_ip b) = None" "room_for (sb_ip b # map sb_ip bans) (sh_blocklist s)" using Cons.prems by simp_all
  note one = restore_ban_get [OF this, of h]
  have "sb_ip b \<notin> sb_ip ` set bans" using Cons.prems(1) by simp
  then have ne: "sb_ip c \<noteq> sb_ip b" if "c \<in> set bans" for c using that by (metis imageI)
  have "bl_get (sh_blocklist (fold (restore_ban h) bans (restore_ban h b s))) x =
      (case find (\<lambda>b. sb_ip b = x) bans of
         None \<Rightarrow> bl_get (sh_blocklist (restore_ban h b s)) x
       | Some b \<Rightarrow> map_option (expiry_for (boot_ns h)) (restore_secs (unix_secs h) b))"
    by (rule Cons.IH) (use Cons.prems one ne in \<open>auto\<close>)
  moreover have "find (\<lambda>c. sb_ip c = sb_ip b) bans = None" using ne by (auto simp: find_None_iff)
  ultimately show ?case using one [of x] by (auto split: option.split)
qed simp

lemma restore_offs_get: "sh_blocklist (fold (restore_off h) offs s) = sh_blocklist s"
  by (induction offs arbitrary: s) (simp_all add: restore_off_def)

lemma save_ban_ip: "save_ban u n recs e = Some b \<Longrightarrow> sb_ip b = fst e"
  by (auto simp: save_ban_def bind_eq_Some_conv Let_def)

lemma captured_find:
  "hm_ok es \<Longrightarrow> find (\<lambda>b. sb_ip b = x) (List.map_filter (save_ban u n recs) es)
    = (case map_of es x of None \<Rightarrow> None | Some e \<Rightarrow> save_ban u n recs (x, e))"
proof (induction es)
  case (Cons e es)
  obtain ip y where e: "e = (ip, y)" by (cases e)
  have fresh: "map_of es ip = None" using Cons.prems e by (simp add: map_of_eq_None_iff)
  show ?case
    using Cons e fresh save_ban_ip [of u n recs "(ip, y)"]
    by (cases "save_ban u n recs (ip, y)") (auto simp: map_filter_simps)
qed (simp add: map_filter_simps)

lemma captured_ips:
  "hm_ok es \<Longrightarrow> distinct (map sb_ip (List.map_filter (save_ban u n recs) es))
    \<and> sb_ip ` set (List.map_filter (save_ban u n recs) es) \<subseteq> fst ` set es
    \<and> length (filter is_v4 (map sb_ip (List.map_filter (save_ban u n recs) es))) \<le> length (filter is_v4 (map fst es))
    \<and> length (filter (\<lambda>x. \<not> is_v4 x) (map sb_ip (List.map_filter (save_ban u n recs) es))) \<le> length (filter (\<lambda>x. \<not> is_v4 x) (map fst es))"
proof (induction es)
  case (Cons e es)
  then show ?case
    using save_ban_ip [of u n recs e] by (cases "save_ban u n recs e") (auto simp: map_filter_simps)
qed (simp add: map_filter_simps)

lemma entries_count:
  assumes "bl_ok bl"
  shows "length (filter is_v4 (map fst (bl_entries bl))) \<le> BLOCKLIST_ENTRIES"
    "length (filter (\<lambda>x. \<not> is_v4 x) (map fst (bl_entries bl))) \<le> BLOCKLIST6_ENTRIES"
proof -
  have v4: "filter is_v4 (map fst (map (\<lambda>(ip, e). (V4 ip, e)) m)) = map fst (map (\<lambda>(ip, e). (V4 ip, e)) m)"
    "filter (\<lambda>x. \<not> is_v4 x) (map fst (map (\<lambda>(ip, e). (V4 ip, e)) m)) = []" for m :: "(u32 \<times> u64) list"
    by (induction m) auto
  have v6: "filter is_v4 (map fst (map (\<lambda>(ip, e). (V6 ip, e)) m)) = []"
    "filter (\<lambda>x. \<not> is_v4 x) (map fst (map (\<lambda>(ip, e). (V6 ip, e)) m)) = map fst (map (\<lambda>(ip, e). (V6 ip, e)) m)" for m :: "(u64 \<times> u64) list"
    by (induction m) auto
  show "length (filter is_v4 (map fst (bl_entries bl))) \<le> BLOCKLIST_ENTRIES"
    "length (filter (\<lambda>x. \<not> is_v4 x) (map fst (bl_entries bl))) \<le> BLOCKLIST6_ENTRIES"
    using assms by (cases "bl_v6 bl"; simp add: bl_entries_def v4 v6 bl_ok_def del: map_map)+
qed

lemma remaining_bound:
  assumes "remaining now e = Some left"
  shows "unat left \<le> 18446744074"
proof (cases "e = BAN_FOREVER")
  case True
  then show ?thesis using assms by (simp add: remaining_def)
next
  case False
  then have "now < e" using assms by (auto simp: remaining_def split: if_splits)
  from remaining_value [OF this] assms have l: "unat left = (unat e - unat now + 999999999) div 1000000000" by auto
  have "(unat e - unat now + 999999999) div 1000000000 \<le> (18446744073709551615 + 999999999) div 1000000000"
    using unat_lt2p64 [of e] by (intro div_le_mono) simp
  then show ?thesis unfolding l by simp
qed

lemma remaining_zero: "remaining now e = Some 0 \<longleftrightarrow> e = BAN_FOREVER"
proof
  assume a: "remaining now e = Some 0"
  show "e = BAN_FOREVER"
  proof (rule ccontr)
    assume "e \<noteq> BAN_FOREVER"
    then have "now < e" using a by (auto simp: remaining_def split: if_splits)
    from remaining_value [OF this] a show False by simp
  qed
qed (simp add: remaining_def)

text \<open>What the maps must hold after a reboot \<open>gone\<close> seconds later.\<close>

definition after_reboot :: "host \<Rightarrow> nat \<Rightarrow> u64 \<Rightarrow> u64 option" where
  "after_reboot h gone left =
     (if left = 0 then Some BAN_FOREVER
      else if unat left \<le> gone then None
      else Some (expiry_for (boot_ns h) (left - of_nat gone)))"

lemma restored_secs:
  assumes "save_ban u1 n recs (x, e) = Some b" "u1 \<le> u2" "unat u2 < 2 ^ 63" "remaining n e = Some left" "unix_secs h = u2"
  shows "map_option (expiry_for (boot_ns h)) (restore_secs (unix_secs h) b) = after_reboot h (unat u2 - unat u1) left"
proof -
  have b: "sb_expires_unix b = (if left = 0 then 0 else u1 + left)"
    using assms(1,4) by (auto simp: save_ban_def Let_def)
  show ?thesis
  proof (cases "left = 0")
    case True
    then show ?thesis using b by (simp add: restore_secs_def after_reboot_def expiry_for_def)
  next
    case False
    have le: "unat u1 \<le> unat u2" using assms(2) by (simp add: word_le_nat_alt)
    have sum: "unat (u1 + left) = unat u1 + unat left"
      using le assms(3) remaining_bound [OF assms(4)] by (intro unat_add_no_wrap) simp
    have pos: "0 < unat left" using False by (simp add: unat_gt_0)
    then have nz: "u1 + left \<noteq> 0" using sum by (metis add_is_0 less_not_refl unat_0)
    have gt: "u1 + left > u2 \<longleftrightarrow> unat u2 - unat u1 < unat left" using le by (auto simp: word_less_nat_alt sum)
    have "of_nat (unat u2 - unat u1) = u2 - u1" using le by (simp add: of_nat_diff)
    then have sub: "u1 + left - u2 = left - of_nat (unat u2 - unat u1)" by simp
    have "restore_secs (unix_secs h) b = (if unat u2 - unat u1 < unat left then Some (u1 + left - u2) else None)"
      using nz gt assms(5) b False by (simp add: restore_secs_def)
    then show ?thesis unfolding sub after_reboot_def using False by (cases "unat u2 - unat u1 < unat left") simp_all
  qed
qed

text \<open>C26: bans survive a reboot: what the daemon saved, restored into empty maps later, is every ban that was in force, a permanent one
  permanent, the others with what is left of them after the time that passed, and those that ran out meanwhile are gone. Nothing else is banned.\<close>

theorem bans_survive_reboot:
  assumes "bl_ok bl" "sh_blocklist s = \<lparr>bl_v4 = [], bl_v6 = Some []\<rparr>" "unix_secs h1 \<le> unix_secs h2" "unat (unix_secs h2) < 2 ^ 63"
  shows "bl_get (sh_blocklist (restore (capture h1 bl recs offs) h2 s)) x =
    Option.bind (Option.bind (bl_get bl x) (remaining (boot_ns h1))) (after_reboot h2 (unat (unix_secs h2) - unat (unix_secs h1)))"
proof -
  define bans where "bans = List.map_filter (save_ban (unix_secs h1) (boot_ns h1) recs) (bl_entries bl)"
  have es: "hm_ok (bl_entries bl)" by (rule entries_distinct [OF assms(1)])
  note ips = captured_ips [OF es, of "unix_secs h1" "boot_ns h1" recs, folded bans_def]
  have none: "\<forall>b \<in> set bans. bl_get (sh_blocklist s) (sb_ip b) = None"
  proof
    fix b
    show "bl_get (sh_blocklist s) (sb_ip b) = None" by (cases "sb_ip b") (simp_all add: assms(2))
  qed
  have room: "room_for (map sb_ip bans) (sh_blocklist s)"
    using ips entries_count [OF assms(1)] by (simp add: room_for_def assms(2))
  have get0: "bl_get (sh_blocklist s) x = None" by (cases x) (simp_all add: assms(2))
  have eq: "bl_get (sh_blocklist (restore (capture h1 bl recs offs) h2 s)) x =
      (case find (\<lambda>b. sb_ip b = x) bans of None \<Rightarrow> None | Some b \<Rightarrow> map_option (expiry_for (boot_ns h2)) (restore_secs (unix_secs h2) b))"
    using restore_bans_get [OF _ none room, of h2 x] ips get0 
    by (simp add: restore_def restore_offs_get capture_def bans_def split: option.split)
  show ?thesis
  proof (cases "bl_get bl x")
    case None
    then show ?thesis by (simp add: eq bans_def captured_find [OF es] entries_get)
  next
    case (Some e)
    have f: "find (\<lambda>b. sb_ip b = x) bans = save_ban (unix_secs h1) (boot_ns h1) recs (x, e)"
      by (simp add: bans_def captured_find [OF es] entries_get Some)
    show ?thesis
    proof (cases "remaining (boot_ns h1) e")
      case None
      then have "save_ban (unix_secs h1) (boot_ns h1) recs (x, e) = None" by (simp add: save_ban_def)
      then show ?thesis using None Some eq f by simp
    next
      case (Some left)
      then obtain b where b: "save_ban (unix_secs h1) (boot_ns h1) recs (x, e) = Some b" by (simp add: save_ban_def Let_def)
      from restored_secs [OF b assms(3,4) Some refl] show ?thesis using Some \<open>bl_get bl x = Some e\<close> eq f b by simp
    qed
  qed
qed

definition noisy :: shared where
  "noisy = shared0\<lparr>sh_detector := (sh_detector shared0)\<lparr>dt_tracks := [(V4 0x0a000005, track_default\<lparr>tr_window_start := 1000, tr_syn := 60\<rparr>)]\<rparr>\<rparr>"

lemma noisy_banned: "\<exists>d' b. observe (syn_event 22) 1000 (sh_detector noisy) = (d', Some b)"
  by (rule observe_over)
    (simp_all add: noisy_def shared0_def shared_init_def detector_new_def shipped_config_def config_default_def default_detector
      hm_has_def syn_event_src, simp add: track_eval detector_default_def)

lemma batch_bans_only_senders_witness:
  "\<exists>secs. bl_get (sh_blocklist (fst (handle_batch demo_host [syn_event 22] noisy))) (V4 0x0a000005)
     = Some (expiry_for (boot_ns demo_host) secs) \<and> secs \<le> 86400"
proof -
  obtain d' b where o: "observe (syn_event 22) 1000 (sh_detector noisy) = (d', Some b)" using noisy_banned by blast
  have boot: "boot_secs demo_host = 1000" by (simp add: boot_secs_def boot_ns_def demo_host_def)
  have ip: "ban_ip b = V4 0x0a000005" using observe_ban(1) [OF o] syn_event_src by simp
  have n: "sh_enforce noisy" "sh_blocklist noisy = \<lparr>bl_v4 = [], bl_v6 = Some []\<rparr>" "b_max_secs (dt_bans (sh_detector noisy)) = 86400"
    by (simp_all add: noisy_def shared0_def shared_init_def enforce_def shipped_config_def config_default_def default_mode_def
        detector_new_def ban_default_def)
  have "bl_get (sh_blocklist (fst (handle_batch demo_host [syn_event 22] noisy))) (V4 0x0a000005)
      = Some (expiry_for (boot_ns demo_host) (ban_secs b))"
    by (simp only: handle_batch_def fold.simps comp_apply id_apply handle_event_ban fst_conv boot o snd_conv option.case ip n(1,2))
      (simp add: hash_insert_def BLOCKLIST_ENTRIES_def)
  moreover have "bl_get (sh_blocklist noisy) (V4 0x0a000005) = None" by (simp add: n)
  ultimately have "bl_get (sh_blocklist (fst (handle_batch demo_host [syn_event 22] noisy))) (V4 0x0a000005) \<noteq> bl_get (sh_blocklist noisy) (V4 0x0a000005)"
    by simp
  from batch_bans_only_senders [OF this] show ?thesis unfolding n(3) by blast
qed

definition early_host :: host where
  "early_host = demo_host\<lparr>h_boot := (50, 0), h_unix := Some 1700000600\<rparr>"

lemma bans_survive_reboot_witness:
  "let bl = \<lparr>bl_v4 = [(1, 0), (2, 1000000000000 + 700000000000), (3, 1000000000000 + 500000000000)], bl_v6 = None\<rparr>;
       s = sh_blocklist (restore (capture demo_host bl [] []) early_host shared0)
   in bl_get s (V4 1) = Some BAN_FOREVER \<and> bl_get s (V4 2) = Some (expiry_for 50000000000 100) \<and> bl_get s (V4 3) = None"
proof -
  let ?bl = "\<lparr>bl_v4 = [(1, 0), (2, 1000000000000 + 700000000000), (3, 1000000000000 + 500000000000)], bl_v6 = None\<rparr> :: blocklist"
  have bl: "bl_ok ?bl" by (simp add: bl_ok_def BLOCKLIST_ENTRIES_def)
  have s0: "sh_blocklist shared0 = \<lparr>bl_v4 = [], bl_v6 = Some []\<rparr>" by (simp add: shared0_def shared_init_def)
  have u: "unix_secs demo_host = 1700000000" "unix_secs early_host = 1700000600" "boot_ns demo_host = 1000000000000" "boot_ns early_host = 50000000000"
    by (simp_all add: unix_secs_def boot_ns_def demo_host_def early_host_def)
  define s where "s = sh_blocklist (restore (capture demo_host ?bl [] []) early_host shared0)"
  have s: "bl_get s x = Option.bind (Option.bind (bl_get ?bl x) (remaining 1000000000000)) (after_reboot early_host 600)" for x
    using bans_survive_reboot [OF bl s0, of demo_host early_host "[]" "[]" x] by (simp add: u s_def)
  have "bl_get s (V4 1) = Some BAN_FOREVER" "bl_get s (V4 2) = Some (expiry_for 50000000000 100)" "bl_get s (V4 3) = None"
    unfolding s by (simp_all add: u remaining_def after_reboot_def BAN_FOREVER_def Let_def)
  then show ?thesis by (simp add: s_def Let_def)
qed

end
