(* ===== verification/Doctor.thy ===== *)
theory Doctor
  imports Nft Links Bans
begin

text \<open>
  The doctor (src/ai-firewall/src/doctor.rs) and the status file as the other commands read it (\<open>StatusView\<close> in
  src/ai-firewall/src/tui.rs). The checks are functions of what the system answers, the record \<open>sys\<close>; the fixes change a
  \<open>machine\<close>: the commands run on it, its files, the nftables rules and the pinned bans.
\<close>

section \<open>The status as it is read\<close>

record feed_view =
  fv_name :: string
  fv_entries :: nat
  fv_updated :: u64
  fv_error :: "string option"

record ban_view =
  bv_ip :: string
  bv_remaining :: u64
  bv_reason :: string
  bv_source :: string
  bv_strikes :: u32

record status_view =
  vw_pid :: u32
  vw_mode :: string
  vw_interface :: "string option"
  vw_xdp_mode :: "string option"
  vw_udp_strict :: bool
  vw_started :: u64
  vw_updated :: u64
  vw_attaches :: u64
  vw_passed :: u64
  vw_dropped_blocklist :: u64
  vw_dropped_policy :: u64
  vw_dropped_feed :: u64
  vw_events_lost :: u64
  vw_tracked :: nat
  vw_allow_tcp :: "string list"
  vw_allow_udp :: "string list"
  vw_profile :: "string option"
  vw_rules :: "string list"
  vw_feeds :: "feed_view list"
  vw_feed_networks :: nat
  vw_config_error :: "string option"
  vw_posture :: "string option"
  vw_bans :: "ban_view list"

text \<open>\<open>exists\<close> says which paths exist.\<close>

definition daemon_alive :: "(string \<Rightarrow> bool) \<Rightarrow> u32 \<Rightarrow> u64 \<Rightarrow> u64 \<Rightarrow> bool" where
  "daemon_alive exists pid updated now =
     (let proc_visible = exists ''/proc/1''; pid_ok = (\<not> proc_visible \<or> exists (''/proc/'' @ show_word pid))
      in pid_ok \<and> sat_sub now updated < 30)"

section \<open>What the system answers\<close>

record sys =
  sy_host :: host
  sy_root :: bool
  sy_status :: "status_view option"
  sy_exists :: "string \<Rightarrow> bool"
  sy_links :: links
  sy_run :: "string \<Rightarrow> string list \<Rightarrow> string option"
  sy_reach :: "string \<Rightarrow> bool"
  sy_bans :: "blocklist option"

definition alive :: "sys \<Rightarrow> status_view \<Rightarrow> bool" where
  "alive s v = daemon_alive (sy_exists s) (vw_pid v) (vw_updated v) (unix_secs (sy_host s))"

definition unit_active :: "sys \<Rightarrow> string \<Rightarrow> bool" where
  "unit_active s u = (sy_run s ''systemctl'' [''is-active'', ''--quiet'', u] \<noteq> None)"

section \<open>Findings\<close>

datatype severity = Ok | Info | Warn | Fail

fun severity_rank :: "severity \<Rightarrow> nat" where
  "severity_rank Ok = 0"
| "severity_rank Info = 1"
| "severity_rank Warn = 2"
| "severity_rank Fail = 3"

lemma severity_rank_inj: "severity_rank a = severity_rank b \<Longrightarrow> a = b"
  by (cases a; cases b) simp_all

instantiation severity :: linorder
begin

definition less_eq_severity :: "severity \<Rightarrow> severity \<Rightarrow> bool" where
  "less_eq_severity a b = (severity_rank a \<le> severity_rank b)"

definition less_severity :: "severity \<Rightarrow> severity \<Rightarrow> bool" where
  "less_severity a b = (severity_rank a < severity_rank b)"

instance
  by standard (auto simp: less_eq_severity_def less_severity_def dest: severity_rank_inj)

end

record finding =
  fi_area :: string
  fi_severity :: severity
  fi_title :: string
  fi_detail :: string
  fi_fix :: "string option"

definition new_finding :: "string \<Rightarrow> severity \<Rightarrow> string \<Rightarrow> string \<Rightarrow> string option \<Rightarrow> finding" where
  "new_finding area sev title detail fix' =
     \<lparr>fi_area = area, fi_severity = sev, fi_title = title, fi_detail = detail, fi_fix = fix'\<rparr>"

record fix_info =
  fx_id :: string
  fx_summary :: string

definition FIXES :: "fix_info list" where
  "FIXES =
    [\<lparr>fx_id = ''start-firewall'', fx_summary = ''restart the ai-firewall service''\<rparr>,
     \<lparr>fx_id = ''disable-ufw'', fx_summary = ''turn ufw off and disable it (ai-firewall replaces it)''\<rparr>,
     \<lparr>fx_id = ''disable-firewalld'', fx_summary = ''turn firewalld off and disable it''\<rparr>,
     \<lparr>fx_id = ''enable-forwarding'', fx_summary = ''turn on IPv4 forwarding now and at boot (VMs and containers need it)''\<rparr>,
     \<lparr>fx_id = ''allow-vm-forwarding'', fx_summary = ''let VM bridges through the FORWARD drop policy (out: all, in: replies only)''\<rparr>,
     \<lparr>fx_id = ''restart-libvirt-network'', fx_summary = ''restart libvirt's networking so it re-adds its NAT rules''\<rparr>,
     \<lparr>fx_id = ''restart-resolved'', fx_summary = ''restart systemd-resolved (DNS)''\<rparr>,
     \<lparr>fx_id = ''unban-protected'', fx_summary = ''lift bans on your router, DNS servers, own addresses and VM networks''\<rparr>]"

definition fix_summary :: "string \<Rightarrow> string option" where
  "fix_summary i = map_option fx_summary (find (\<lambda>f. fx_id f = i) FIXES)"

definition if_empty :: "string \<Rightarrow> string \<Rightarrow> string" where
  "if_empty s fallback = (if s = [] then fallback else s)"

section \<open>Checks\<close>

definition check_daemon :: "sys \<Rightarrow> finding list" where
  "check_daemon s =
     (case sy_status s of
        Some v \<Rightarrow>
          if alive s v then
            (case vw_config_error v of
               Some err \<Rightarrow> [new_finding ''firewall'' Fail ''The config file has an error''
                 (''the last config that worked is in force until it is fixed (`ai-firewall check` shows it again): '' @ err) None]
             | None \<Rightarrow> [])
            @ (if vw_mode v = ''enforce''
               then [new_finding ''firewall'' Ok ''ai-firewall is protecting'' (''guarding '' @ opt_or (vw_interface v) ''nothing'') None]
               else [new_finding ''firewall'' Info ''ai-firewall is in monitor mode''
                 (''it logs but drops nothing; set mode = '' @ quoted ''enforce'' @ '' in the config'') None])
            @ (if vw_interface v = None
               then [new_finding ''firewall'' Warn ''Not attached to any interface'' ''there's no default route yet, so there's nothing to guard'' None]
               else [])
          else [new_finding ''firewall'' Fail ''ai-firewall stopped responding'' ''its status file is stale'' (Some ''start-firewall'')]
      | None \<Rightarrow>
          if pinned_ifaces (sy_links s) \<noteq> [] then
            [new_finding ''firewall'' Warn ''The filter is running without its daemon''
              ''the last rules still apply, but nothing bans attackers or follows network changes; `sudo ai-firewall off` stops it entirely''
              (Some ''start-firewall'')]
          else if sy_exists s ''/etc/systemd/system/ai-firewall.service'' then
            [new_finding ''firewall'' Fail ''ai-firewall is not running'' ''the service is installed but not running'' (Some ''start-firewall'')]
          else [new_finding ''firewall'' Info ''ai-firewall is not installed as a service'' ''run ./packaging/install.sh'' None])"

definition check_firewall :: "sys \<Rightarrow> finding list" where
  "check_firewall s =
     check_daemon s
     @ (if unit_active s ''ufw'' then
          [new_finding ''firewall'' Warn ''ufw is still running''
            ''two firewalls stack their rules; ufw's FORWARD drop policy also cuts off VMs'' (Some ''disable-ufw'')] else [])
     @ (if unit_active s ''firewalld'' then
          [new_finding ''firewall'' Warn ''firewalld is still running'' ''two firewalls stack their rules'' (Some ''disable-firewalld'')] else [])"

definition check_dns :: "sys \<Rightarrow> bool \<Rightarrow> finding list" where
  "check_dns s internet =
     (let dns_ok = (sy_run s ''timeout'' [''4'', ''getent'', ''hosts'', ''archlinux.org''] \<noteq> None);
          servers = join '' '' (map show_ipv4 (nameservers (sy_host s)))
      in if dns_ok then [new_finding ''dns'' Ok ''DNS works'' (''servers: '' @ if_empty servers ''none listed'') None]
         else if internet then
           [new_finding ''dns'' Fail ''Internet works but names don't resolve''
             (''DNS servers '' @ if_empty servers ''(none in /etc/resolv.conf)'' @ '' don't answer'')
             (if unit_active s ''systemd-resolved'' then Some ''restart-resolved'' else None)]
         else [])"

text \<open>\<open>None\<close> is the panic of \<open>default_route\<close>.\<close>

definition check_connectivity :: "sys \<Rightarrow> finding list option" where
  "check_connectivity s =
     map_option (\<lambda>route. case route of
       None \<Rightarrow>
         [new_finding ''network'' Fail ''Not connected''
           (''no default route (NetworkManager: ''
             @ if_empty (trim (opt_or (sy_run s ''nmcli'' [''-t'', ''-f'', ''STATE'', ''general'']) [])) ''unknown''
             @ ''); connect to wifi or plug in a cable'') None]
     | Some (iface, gw) \<Rightarrow>
         (let internet = (sy_reach s ''1.1.1.1:443'' \<or> sy_reach s ''8.8.8.8:53'')
          in (if internet then [new_finding ''network'' Ok ''Internet works'' (''via '' @ iface @ '', router '' @ show_ipv4 gw) None]
              else [new_finding ''network'' Fail ''Connected, but no internet''
                (iface @ '' has router '' @ show_ipv4 gw
                  @ '', yet nothing outside answers: a captive portal, or the router itself is offline'') None])
             @ check_dns s internet))
       (default_route (sy_host s))"

definition ruleset :: "sys \<Rightarrow> chain list option" where
  "ruleset s = map_option parse_ruleset (sy_run s ''nft'' [''list'', ''ruleset''])"

definition culprit :: "chain list \<Rightarrow> string" where
  "culprit cs =
     (if list_ex (\<lambda>c. starts_with ''ufw-'' (ch_name c)) cs then ''ufw''
      else if list_ex (\<lambda>c. starts_with ''DOCKER'' (ch_name c)) cs then ''Docker'' else ''a firewall rule'')"

definition has_nat :: "host \<Rightarrow> chain list \<Rightarrow> string \<Rightarrow> bool" where
  "has_nat h cs bridge =
     (case find (\<lambda>n. in_iface n = bridge) (interface_networks h) of
        Some n \<Rightarrow>
          (let p = show_ipv4 (ci_net (in_net n)); prefix = (case rsplit_once (CHR ''.'') p of Some (a, _) \<Rightarrow> a | None \<Rightarrow> p)
           in list_ex (\<lambda>c. contains_str ''masquerade'' (ch_body c) \<and> contains_str prefix (ch_body c)) cs)
      | None \<Rightarrow> True)"

definition check_bridge :: "host \<Rightarrow> chain list \<Rightarrow> string \<Rightarrow> finding list" where
  "check_bridge h cs bridge =
     (let blocking = blocking_forward_chains cs bridge;
          who = map (\<lambda>c. ch_family c @ '' '' @ ch_table c @ '' '' @ ch_name c) blocking
      in (if blocking \<noteq> [] then
            [new_finding ''vm'' Fail (''VMs on '' @ bridge @ '' are cut off'')
              (culprit cs @ '' set a drop-by-default FORWARD policy ('' @ join '', '' who @ '') with no exception for '' @ bridge)
              (Some ''allow-vm-forwarding'')] else [])
         @ (if starts_with ''virbr'' bridge \<and> ifindex h bridge \<noteq> None \<and> \<not> has_nat h cs bridge then
              [new_finding ''vm'' Warn (''No NAT for '' @ bridge)
                ''libvirt's masquerade rule is missing (something flushed the ruleset), so VM traffic leaves with an address nobody can answer''
                (Some ''restart-libvirt-network'')] else []))"

definition check_vms :: "sys \<Rightarrow> finding list" where
  "check_vms s =
     (let h = sy_host s; bridges = virt_bridges h; names = join '' '' bridges;
          forwarding = (case h_files h ''/proc/sys/net/ipv4/ip_forward'' of Some t \<Rightarrow> trim t = ''1'' | None \<Rightarrow> False);
          off = (if forwarding then [] else
            [new_finding ''vm'' Fail ''IP forwarding is off''
              (''VMs and containers on '' @ names @ '' can't reach the internet without it'') (Some ''enable-forwarding'')])
      in if bridges = [] then []
         else if \<not> sy_root s then off
         else (case ruleset s of
                 None \<Rightarrow> off
               | Some cs \<Rightarrow>
                   let found = concat (map (check_bridge h cs) (vm_bridges h))
                   in off @ found
                      @ (if forwarding \<and> found = [] then
                           [new_finding ''vm'' Ok ''VM and container networking looks right'' (''bridges: '' @ names) None] else [])))"

section \<open>Bans on what the machine depends on\<close>

definition protection :: "host \<Rightarrow> detector option" where
  "protection h =
     map_option (\<lambda>own. set_protected own (own_v6_prefixes h) (detector_new detector_default ban_default)) (auto_protected h)"

definition protected_hits :: "detector \<Rightarrow> blocklist \<Rightarrow> src list" where
  "protected_hits guard bl = filter (is_protected guard) (map fst (bl_entries bl))"

definition check_bans :: "sys \<Rightarrow> finding list option" where
  "check_bans s =
     (if \<not> sy_root s then Some []
      else (case sy_bans s of
              None \<Rightarrow> Some []
            | Some bl \<Rightarrow>
                map_option (\<lambda>guard.
                  let hits = map show_src (protected_hits guard bl) in
                  if hits \<noteq> [] then
                    [new_finding ''firewall'' Fail ''An address you depend on is banned''
                      (join '' '' hits @ '' (router, DNS, this machine or a VM network)'') (Some ''unban-protected'')]
                  else []) (protection (sy_host s))))"

definition diagnose :: "sys \<Rightarrow> finding list option" where
  "diagnose s = do {
     net \<leftarrow> check_connectivity s;
     bans \<leftarrow> check_bans s;
     Some (check_firewall s @ net @ check_vms s @ bans
       @ (if sy_root s then [] else
            [new_finding ''doctor'' Info ''Partial check'' ''run `sudo ai-firewall doctor` to also inspect firewall rules and bans'' None]))
   }"

section \<open>Fixes\<close>

record 'n machine =
  mc_cmds :: "(string \<times> string list) list"
  mc_fs :: fsys
  mc_nft :: 'n
  mc_bans :: "blocklist option"

record 'n tools =
  tl_nft :: "'n nft"
  tl_sh :: "string \<Rightarrow> string list \<Rightarrow> bool option"

type_synonym 'n action = "'n machine \<Rightarrow> ('n machine \<times> (error + string)) option"

definition sh :: "'n tools \<Rightarrow> string \<Rightarrow> string list \<Rightarrow> 'n machine \<Rightarrow> 'n machine \<times> (error + unit)" where
  "sh t cmd args m =
     (m\<lparr>mc_cmds := mc_cmds m @ [(cmd, args)]\<rparr>,
      case tl_sh t cmd args of
        None \<Rightarrow> Inl (Bad ''could not run'' cmd)
      | Some ok \<Rightarrow> if ok then Inr () else Inl (Msg (''`'' @ cmd @ '' '' @ join '' '' args @ ''` failed'')))"

definition sh_then :: "'n tools \<Rightarrow> string \<Rightarrow> string list \<Rightarrow> string \<Rightarrow> 'n action" where
  "sh_then t cmd args msg m = (case sh t cmd args m of (m', Inl e) \<Rightarrow> Some (m', Inl e) | (m', Inr _) \<Rightarrow> Some (m', Inr msg))"

definition sysctl_path :: string where "sysctl_path = ''/etc/sysctl.d/90-ai-firewall.conf''"

definition sysctl_text :: string where
  "sysctl_text = ''# written by `ai-firewall fix enable-forwarding`: VMs and containers need it'' @ newline @ ''net.ipv4.ip_forward = 1'' @ newline"

definition enable_forwarding :: "'n tools \<Rightarrow> 'n action" where
  "enable_forwarding t m =
     (case sh t ''sysctl'' [''-qw'', ''net.ipv4.ip_forward=1''] m of
        (m1, Inl e) \<Rightarrow> Some (m1, Inl e)
      | (m1, Inr _) \<Rightarrow>
          (case write_atomic sysctl_path sysctl_text (mc_fs m1) of
             (fs, Inl e) \<Rightarrow> Some (m1\<lparr>mc_fs := fs\<rparr>, Inl e)
           | (fs, Inr _) \<Rightarrow> Some (m1\<lparr>mc_fs := fs\<rparr>, Inr ''forwarding is on, and stays on after reboot'')))"

definition allow_vm_forwarding :: "sys \<Rightarrow> 'n tools \<Rightarrow> 'n action" where
  "allow_vm_forwarding s t m =
     (case ensure_vm_forwarding (tl_nft t) (sy_host s) (mc_nft m) of
        (n, Inl e) \<Rightarrow> Some (m\<lparr>mc_nft := n\<rparr>, Inl e)
      | (n, Inr changed) \<Rightarrow>
          Some (m\<lparr>mc_nft := n\<rparr>, Inr (if changed = [] then ''nothing was blocking VM bridges''
            else ''let '' @ join '', '' changed @ ''; ai-firewall keeps these in place'')))"

fun remove_all :: "src list \<Rightarrow> blocklist \<Rightarrow> blocklist \<times> (error + unit)" where
  "remove_all [] bl = (bl, Inr ())"
| "remove_all (ip # ips) bl =
     (case bl_remove ip bl of None \<Rightarrow> (bl, Inl (Bad ''remove'' (show_src ip))) | Some bl' \<Rightarrow> remove_all ips bl')"

definition unban_protected :: "sys \<Rightarrow> 'n action" where
  "unban_protected s m =
     (case mc_bans m of
        None \<Rightarrow> Some (m, Inl (Msg ''no pinned blocklist''))
      | Some bl \<Rightarrow> do {
          guard \<leftarrow> protection (sy_host s);
          let hits = protected_hits guard bl;
          (case remove_all hits bl of
             (bl', Inl e) \<Rightarrow> Some (m\<lparr>mc_bans := Some bl'\<rparr>, Inl e)
           | (bl', Inr _) \<Rightarrow> Some (m\<lparr>mc_bans := Some bl'\<rparr>, Inr (''lifted '' @ show_nat (length hits) @ '' bans'')))
        })"

definition fix_action :: "sys \<Rightarrow> 'n tools \<Rightarrow> string \<Rightarrow> 'n action option" where
  "fix_action s t i =
     (if i = ''start-firewall'' then Some (sh_then t ''systemctl'' [''restart'', ''ai-firewall''] ''ai-firewall restarted'')
      else if i = ''disable-ufw'' then
        Some (\<lambda>m. sh_then t ''systemctl'' [''disable'', ''--now'', ''ufw''] ''ufw is off and won't start at boot''
          (fst (sh t ''ufw'' [''--force'', ''disable''] m)))
      else if i = ''disable-firewalld'' then
        Some (sh_then t ''systemctl'' [''disable'', ''--now'', ''firewalld''] ''firewalld is off'')
      else if i = ''enable-forwarding'' then Some (enable_forwarding t)
      else if i = ''allow-vm-forwarding'' then Some (allow_vm_forwarding s t)
      else if i = ''restart-libvirt-network'' then
        (let unit = (if unit_active s ''virtnetworkd'' then ''virtnetworkd'' else ''libvirtd'')
         in Some (sh_then t ''systemctl'' [''restart'', unit] (unit @ '' restarted; it re-adds its NAT rules'')))
      else if i = ''restart-resolved'' then
        Some (sh_then t ''systemctl'' [''restart'', ''systemd-resolved''] ''systemd-resolved restarted'')
      else if i = ''unban-protected'' then Some (unban_protected s)
      else None)"

definition apply_fix :: "sys \<Rightarrow> 'n tools \<Rightarrow> string \<Rightarrow> 'n action" where
  "apply_fix s t i m =
     (case fix_action s t i of
        None \<Rightarrow> Some (m, Inl (Msg (''unknown fix '' @ quoted i @ ''; known fixes: '' @ join '', '' (map fx_id FIXES))))
      | Some act \<Rightarrow> if sy_root s then act m else Some (m, Inl (Msg ''fixes need root: run it with sudo'')))"

section \<open>The allowlist\<close>

definition fix_ids :: "string list" where
  "fix_ids = map fx_id FIXES"

lemma fix_ids_eq: "fix_ids = [''start-firewall'', ''disable-ufw'', ''disable-firewalld'', ''enable-forwarding'', ''allow-vm-forwarding'',
    ''restart-libvirt-network'', ''restart-resolved'', ''unban-protected'']"
  by (simp add: fix_ids_def FIXES_def)

lemma fix_handled: "fix_action s t i = None \<longleftrightarrow> i \<notin> set fix_ids"
  unfolding fix_action_def fix_ids_eq Let_def by auto

lemma fix_summary_known: "fix_summary i = None \<longleftrightarrow> i \<notin> set fix_ids"
  by (auto simp: fix_summary_def fix_ids_def find_None_iff)

text \<open>Every fix on the list is handled and nothing else is: an identifier off the list, or a caller who is not root, is answered with an
  error, runs no command and changes nothing.\<close>

theorem fixes_are_listed:
  assumes "i \<notin> set (map fx_id FIXES) \<or> \<not> sy_root s"
  shows "(\<exists>e. apply_fix s t i m = Some (m, Inl e)) \<and> (fix_action s t i \<noteq> None \<longleftrightarrow> i \<in> set (map fx_id FIXES))"
  using assms fix_handled [of s t i] by (auto simp: apply_fix_def fix_ids_def [symmetric] split: option.split)

definition no_sys :: sys where
  "no_sys = \<lparr>sy_host = vm_host, sy_root = True, sy_status = None, sy_exists = (\<lambda>_. False), sy_links = \<lparr>lk_dir = [], lk_meta = Map.empty\<rparr>,
     sy_run = (\<lambda>_ _. None), sy_reach = (\<lambda>_. False), sy_bans = None\<rparr>"

definition no_machine :: "unit machine" where
  "no_machine = \<lparr>mc_cmds = [], mc_fs = \<lparr>files = Map.empty, writable = (\<lambda>_. True), renamable = (\<lambda>_. True)\<rparr>, mc_nft = (), mc_bans = None\<rparr>"

definition no_tools :: "unit tools" where
  "no_tools = \<lparr>tl_nft = \<lparr>nf_list = (\<lambda>_. None), nf_run = (\<lambda>_ n. (n, None))\<rparr>, tl_sh = (\<lambda>_ _. Some True)\<rparr>"

lemma fixes_are_listed_witness: "\<exists>e. apply_fix no_sys no_tools ''rm -rf /'' no_machine = Some (no_machine, Inl e)"
  using fixes_are_listed [of "''rm -rf /''" no_sys no_tools no_machine] by (simp add: FIXES_def)

section \<open>What the doctor offers can be applied\<close>

definition fixable :: "finding \<Rightarrow> bool" where
  "fixable f = (case fi_fix f of None \<Rightarrow> True | Some i \<Rightarrow> Warn \<le> fi_severity f \<and> i \<in> set fix_ids)"

lemma fixable_finding [simp]:
  "fixable (new_finding area sev title detail None)"
  "fixable (new_finding area sev title detail (Some i)) \<longleftrightarrow> Warn \<le> sev \<and> i \<in> set fix_ids"
  by (simp_all add: fixable_def new_finding_def)

lemma severity_simps [simp]: "Warn \<le> Warn" "Warn \<le> Fail" "\<not> Warn \<le> Info" "\<not> Warn \<le> Ok"
  by (simp_all add: less_eq_severity_def)

lemma check_fixable:
  "list_all fixable (check_daemon s)" "list_all fixable (check_firewall s)" "list_all fixable (check_dns s net)"
  "list_all fixable (check_bridge h cs b)"
proof -
  show d: "list_all fixable (check_daemon s)" by (auto simp: check_daemon_def fix_ids_eq split: option.split)
  then show "list_all fixable (check_firewall s)" by (simp add: check_firewall_def fix_ids_eq)
  show "list_all fixable (check_dns s net)" by (simp add: check_dns_def fix_ids_eq Let_def)
  show "list_all fixable (check_bridge h cs b)" by (simp add: check_bridge_def fix_ids_eq Let_def)
qed

lemma check_fixable2: "check_connectivity s = Some fs \<Longrightarrow> list_all fixable fs" "list_all fixable (check_vms s)"
  "check_bans s = Some fs \<Longrightarrow> list_all fixable fs"
proof -
  show "check_connectivity s = Some fs \<Longrightarrow> list_all fixable fs"
    by (auto simp: check_connectivity_def Let_def check_fixable split: option.splits)
  have "list_all fixable (concat (map (check_bridge h cs) bs))" for h cs bs
    by (induction bs) (simp_all add: check_fixable)
  then show "list_all fixable (check_vms s)" by (auto simp: check_vms_def Let_def fix_ids_eq split: option.split)
  show "check_bans s = Some fs \<Longrightarrow> list_all fixable fs"
    by (auto simp: check_bans_def Let_def fix_ids_eq split: if_splits option.splits)
qed

lemma diagnose_fixable: "diagnose s = Some fs \<Longrightarrow> list_all fixable fs"
proof -
  assume "diagnose s = Some fs"
  then obtain ns bs where "check_connectivity s = Some ns" "check_bans s = Some bs"
    "fs = check_firewall s @ ns @ check_vms s @ bs @ (if sy_root s then [] else
      [new_finding ''doctor'' Info ''Partial check'' ''run `sudo ai-firewall doctor` to also inspect firewall rules and bans'' None])"
    by (auto simp: diagnose_def bind_eq_Some_conv)
  then show ?thesis by (simp add: check_fixable check_fixable2)
qed

text \<open>C29: whatever the state of the machine, every fix the doctor offers is one it can apply, and comes with a finding that is at least a warning.\<close>

theorem findings_fixable:
  assumes "diagnose s = Some fs" "f \<in> set fs" "fi_fix f = Some i"
  shows "Warn \<le> fi_severity f \<and> fix_action s t i \<noteq> None \<and> fix_summary i \<noteq> None"
  using diagnose_fixable [OF assms(1)] assms(2,3) by (auto simp: list_all_iff fixable_def fix_handled fix_summary_known)

lemma vm_host_route: "default_route vm_host = Some None"
  by (simp add: default_route_def vm_host_def)

lemma findings_fixable_witness:
  "\<exists>fs f. diagnose no_sys = Some fs \<and> f \<in> set fs \<and> fi_fix f = Some ''enable-forwarding'' \<and> Warn \<le> fi_severity f
     \<and> fix_action no_sys no_tools ''enable-forwarding'' \<noteq> None"
proof -
  obtain fs where fs: "diagnose no_sys = Some fs" "set (check_vms no_sys) \<subseteq> set fs"
    by (auto simp: diagnose_def check_connectivity_def check_bans_def no_sys_def vm_host_route)
  let ?f = "new_finding ''vm'' Fail ''IP forwarding is off''
     (''VMs and containers on '' @ join '' '' (virt_bridges vm_host) @ '' can't reach the internet without it'') (Some ''enable-forwarding'')"
  have "virt_bridges vm_host \<noteq> []" using vm_host_bridges by (auto simp: vm_bridges_def)
  moreover have "h_files vm_host ''/proc/sys/net/ipv4/ip_forward'' = None" by (simp add: vm_host_def)
  ultimately have "?f \<in> set (check_vms no_sys)" by (simp add: check_vms_def no_sys_def ruleset_def Let_def)
  with fs have f: "?f \<in> set fs" by blast
  have "fi_fix ?f = Some ''enable-forwarding''" by (simp add: new_finding_def)
  from findings_fixable [OF fs(1) f this, of no_tools] fs(1) f show ?thesis by (fastforce simp: new_finding_def)
qed

section \<open>Lifting bans on what the machine depends on\<close>

lemma remove_all_present:
  "distinct ips \<Longrightarrow> \<forall>ip \<in> set ips. bl_get bl ip \<noteq> None \<Longrightarrow>
   \<exists>bl'. remove_all ips bl = (bl', Inr ()) \<and> (\<forall>x. bl_get bl' x = (if x \<in> set ips then None else bl_get bl x))"
proof (induction ips arbitrary: bl)
  case (Cons ip ips)
  obtain bl1 where r: "bl_remove ip bl = Some bl1" using Cons.prems(2) bl_remove_None [of ip bl] by auto
  have "\<forall>x \<in> set ips. bl_get bl1 x \<noteq> None" using Cons.prems bl_get_remove [OF r] by auto
  with Cons.IH [of bl1] Cons.prems(1) obtain bl' where
    "remove_all ips bl1 = (bl', Inr ())" "\<forall>x. bl_get bl' x = (if x \<in> set ips then None else bl_get bl1 x)" by auto
  then show ?case using r bl_get_remove [OF r] by auto
qed simp

lemma hits_set: "x \<in> set (protected_hits guard bl) \<longleftrightarrow> is_protected guard x \<and> bl_get bl x \<noteq> None"
  by (auto simp: protected_hits_def entries_get [symmetric] map_of_eq_None_iff)

text \<open>The fix \<open>unban-protected\<close> does what the finding asks for: bans on protected sources are lifted, all others are kept, and the check
  then finds nothing.\<close>

theorem unban_protected_clears:
  assumes "sy_root s" "mc_bans m = Some bl" "bl_ok bl" "protection (sy_host s) = Some guard"
  shows "\<exists>bl' msg. apply_fix s t ''unban-protected'' m = Some (m\<lparr>mc_bans := Some bl'\<rparr>, Inr msg)
    \<and> (\<forall>x. bl_get bl' x = (if is_protected guard x then None else bl_get bl x))
    \<and> check_bans (s\<lparr>sy_bans := Some bl'\<rparr>) = Some []"
proof -
  let ?hits = "protected_hits guard bl"
  have "distinct ?hits" using entries_distinct [OF assms(3)] by (simp add: protected_hits_def)
  then obtain bl' where r: "remove_all ?hits bl = (bl', Inr ())" "\<forall>x. bl_get bl' x = (if x \<in> set ?hits then None else bl_get bl x)"
    using remove_all_present [of ?hits bl] hits_set by blast
  have g: "bl_get bl' x = (if is_protected guard x then None else bl_get bl x)" for x
    using r(2) by (auto simp: hits_set)
  have "protected_hits guard bl' = []" using hits_set [of _ guard bl'] g by (metis all_not_in_conv set_empty)
  then have "check_bans (s\<lparr>sy_bans := Some bl'\<rparr>) = Some []" using assms(1,4) by (simp add: check_bans_def)
  moreover have "apply_fix s t ''unban-protected'' m = Some (m\<lparr>mc_bans := Some bl'\<rparr>, Inr (''lifted '' @ show_nat (length ?hits) @ '' bans''))"
    using assms r(1) by (simp add: apply_fix_def fix_action_def unban_protected_def Let_def)
  ultimately show ?thesis using g by blast
qed

lemma unban_protected_clears_witness:
  "\<exists>bl' msg. apply_fix (no_sys\<lparr>sy_host := demo_host\<rparr>) no_tools ''unban-protected''
      (no_machine\<lparr>mc_bans := Some \<lparr>bl_v4 = [(0x09090909, 0), (0x01010101, 0)], bl_v6 = None\<rparr>\<rparr>)
    = Some (no_machine\<lparr>mc_bans := Some bl'\<rparr>, Inr msg) \<and> bl_get bl' (V4 0x09090909) = None"
proof -
  let ?bl = "\<lparr>bl_v4 = [(0x09090909, 0), (0x01010101, 0)], bl_v6 = None\<rparr> :: blocklist"
  obtain own where own: "auto_protected demo_host = Some own" using demo_host_facts(1) by (simp add: auto_protected_def)
  then obtain guard where g: "protection demo_host = Some guard" by (simp add: protection_def)
  have "dt_protected guard = own" using g own by (auto simp: protection_def set_protected_def Let_def)
  then have p: "is_protected guard (V4 0x09090909)" using auto_protected_covers [OF own demo_host_facts(3)] by (auto simp: list_ex_iff)
  have bl: "bl_ok ?bl" by (simp add: bl_ok_def BLOCKLIST_ENTRIES_def)
  have pre: "sy_root (no_sys\<lparr>sy_host := demo_host\<rparr>)" "mc_bans (no_machine\<lparr>mc_bans := Some ?bl\<rparr>) = Some ?bl"
    "protection (sy_host (no_sys\<lparr>sy_host := demo_host\<rparr>)) = Some guard"
    using g by (simp_all add: no_sys_def)
  obtain bl' msg where r: "apply_fix (no_sys\<lparr>sy_host := demo_host\<rparr>) no_tools ''unban-protected'' (no_machine\<lparr>mc_bans := Some ?bl\<rparr>)
      = Some (no_machine\<lparr>mc_bans := Some ?bl, mc_bans := Some bl'\<rparr>, Inr msg)"
    "\<forall>x. bl_get bl' x = (if is_protected guard x then None else bl_get ?bl x)"
    using unban_protected_clears [OF pre(1,2) bl pre(3), of no_tools] by blast
  have "bl_get bl' (V4 0x09090909) = None" using r(2) [rule_format, of "V4 0x09090909"] p by (simp only: if_True)
  with r(1) show ?thesis by auto
qed

end
