(* ===== verification/Selftest.thy ===== *)
theory Selftest
  imports Doctor
begin

text \<open>
  The live tests (src/ai-firewall/src/selftest.rs). A test is a function from what it is given, the config, the status, the
  sockets of \<open>/proc/net\<close>, the answers of local connections, to a report; \<open>services\<close> also yields the connections it made.
\<close>

section \<open>Tests and reports\<close>

definition MAX_PROBE_PORTS :: nat where "MAX_PROBE_PORTS = 16"
definition DEFAULT_TRAFFIC_SECS :: u64 where "DEFAULT_TRAFFIC_SECS = 5"
definition MAX_TRAFFIC_SECS :: u64 where "MAX_TRAFFIC_SECS = 30"
definition MAX_SIM_EVENTS :: nat where "MAX_SIM_EVENTS = 2000"

definition TESTS :: "(string \<times> string) list" where
  "TESTS =
    [(''health'', ''daemon alive, status fresh, filter attached, events lost''),
     (''ports'', ''open ports versus what is listening on this machine''),
     (''detector'', ''simulated scans and floods against the detector with your thresholds''),
     (''traffic'', ''packets passed and dropped per second, sampled from the status file''),
     (''services'', ''local services on open ports answer on 127.0.0.1'')]"

definition is_test :: "string \<Rightarrow> bool" where
  "is_test name = (name = ''all'' \<or> list_ex (\<lambda>t. fst t = name) TESTS)"

record report =
  rp_test :: string
  rp_ok :: bool
  rp_summary :: string
  rp_stats :: "(string \<times> string) list"

definition new_report :: "string \<Rightarrow> report" where
  "new_report test = \<lparr>rp_test = test, rp_ok = True, rp_summary = [], rp_stats = []\<rparr>"

definition stat :: "string \<Rightarrow> string \<Rightarrow> report \<Rightarrow> report" where
  "stat label value r = r\<lparr>rp_stats := rp_stats r @ [(label, value)]\<rparr>"

definition pad :: "nat \<Rightarrow> string \<Rightarrow> string" where
  "pad w s = s @ replicate (w - length s) (CHR '' '')"

text \<open>The separator is a middle dot, U+00B7, here as its two UTF-8 bytes.\<close>

definition mid_dot :: string where
  "mid_dot = '' '' @ [char_of (0xC2 :: nat), char_of (0xB7 :: nat)] @ '' ''"

definition report_text :: "report \<Rightarrow> string" where
  "report_text r =
     (let w = foldl max 0 (map (\<lambda>s. length (fst s)) (rp_stats r)) in
      rp_test r @ mid_dot @ (if rp_ok r then ''pass'' else ''FAIL'') @ mid_dot @ rp_summary r @ newline
      @ concat (map (\<lambda>(k, v). ''  '' @ pad w k @ ''  '' @ v @ newline) (rp_stats r)))"

definition failed :: "string \<Rightarrow> report \<Rightarrow> report" where
  "failed why r = r\<lparr>rp_ok := False, rp_summary := why\<rparr>"

section \<open>Health\<close>

definition health_summary :: "bool \<Rightarrow> status_view \<Rightarrow> string" where
  "health_summary is_alive v =
     (if \<not> is_alive then ''daemon not responding''
      else if vw_interface v = None then ''no uplink: the filter is not attached''
      else if vw_config_error v \<noteq> None then ''config error, last good config in force''
      else vw_mode v @ '' on '' @ opt_or (vw_interface v) ''-'')"

definition health :: "sys \<Rightarrow> status_view option \<Rightarrow> report" where
  "health s st =
     (case st of
        None \<Rightarrow> failed ''daemon not running (no status file)'' (new_report ''health'')
      | Some v \<Rightarrow>
          let age = sat_sub (unix_secs (sy_host s)) (vw_updated v);
              r0 = (new_report ''health'')\<lparr>rp_ok := alive s v \<and> vw_config_error v = None \<and> vw_interface v \<noteq> None,
                rp_summary := health_summary (alive s v) v\<rparr>;
              r1 = stat ''status age'' (show_word age @ ''s'') r0;
              r2 = stat ''uptime'' (duration (max (sat_sub (vw_updated v) (vw_started v)) 1)) r1;
              r3 = stat ''xdp mode'' (opt_or (vw_xdp_mode v) ''-'') r2;
              r4 = stat ''re-attaches'' (show_word (sat_sub (vw_attaches v) 1)) r3;
              r5 = stat ''events lost'' (show_word (vw_events_lost v)) r4;
              r6 = stat ''tracked sources'' (show_nat (vw_tracked v)) r5;
              r7 = stat ''active bans'' (show_nat (length (vw_bans v))) r6
          in (case vw_config_error v of Some e \<Rightarrow> stat ''config error'' e r7 | None \<Rightarrow> r7))"

section \<open>Ports\<close>

definition parse_hex16 :: "string \<Rightarrow> u16 option" where
  "parse_hex16 s =
     (let ds = (case s of c # r \<Rightarrow> if c = CHR ''+'' then r else s | [] \<Rightarrow> [])
      in if ds \<noteq> [] \<and> list_all (\<lambda>c. to_digit 16 c \<noteq> None) ds \<and> radix_val 16 ds \<le> 65535
         then Some (of_nat (radix_val 16 ds)) else None)"

definition proc_net_line :: "string \<Rightarrow> string \<Rightarrow> (string \<times> u16) option" where
  "proc_net_line proto line =
     (let f = split_whitespace line; wanted = (if proto = ''tcp'' then ''0A'' else ''07'') in
      if length f \<le> 3 then None
      else if f ! 3 \<noteq> wanted then None
      else do {
        (addr, port) \<leftarrow> split_once (CHR '':'') (f ! 1);
        let loopback = (addr = ''0100007F'' \<or> addr = ''00000000000000000000000001000000'');
        p \<leftarrow> (if loopback then None else parse_hex16 port);
        Some (proto, p)
      })"

definition parse_proc_net :: "string \<Rightarrow> string \<Rightarrow> (string \<times> u16) list" where
  "parse_proc_net text proto = List.map_filter (proc_net_line proto) (drop 1 (str_lines text))"

definition listening :: "host \<Rightarrow> (string \<times> u16) list" where
  "listening h =
     remdups_adj (sort (concat (map (\<lambda>(file, proto). parse_proc_net (opt_or (h_files h file) []) proto)
       [(''/proc/net/tcp'', ''tcp''), (''/proc/net/tcp6'', ''tcp''), (''/proc/net/udp'', ''udp''), (''/proc/net/udp6'', ''udp'')])))"

definition spec_covers :: "port_spec list \<Rightarrow> u16 \<Rightarrow> bool" where
  "spec_covers specs port = list_ex (\<lambda>s. case ports s of Inr (a, b) \<Rightarrow> a \<le> port \<and> port \<le> b | Inl _ \<Rightarrow> False) specs"

definition singles :: "port_spec list \<Rightarrow> u16 list" where
  "singles specs = List.map_filter (\<lambda>s. case ports s of Inr (a, b) \<Rightarrow> if a = b then Some a else None | Inl _ \<Rightarrow> None) specs"

definition label :: "string \<Rightarrow> u16 \<Rightarrow> string" where
  "label proto port = proto @ '' '' @ show_word port"

definition idle_ports :: "config \<Rightarrow> (string \<times> u16) list \<Rightarrow> (string \<times> u16) list" where
  "idle_ports cfg listen =
     concat (map (\<lambda>(proto, specs). map (Pair proto) (filter (\<lambda>p. (proto, p) \<notin> set listen) (singles specs)))
       [(''tcp'', c_allow_tcp cfg), (''udp'', c_allow_udp cfg)])"

definition unreachable_ports :: "config \<Rightarrow> (string \<times> u16) list \<Rightarrow> (string \<times> u16) list" where
  "unreachable_ports cfg listen =
     filter (\<lambda>(p, port).
       let specs = (if p = ''tcp'' then c_allow_tcp cfg else c_allow_udp cfg)
       in \<not> spec_covers specs port \<and> \<not> (p = ''udp'' \<and> 32768 \<le> port)) listen"

definition none_or :: "string list \<Rightarrow> string" where
  "none_or v = (if v = [] then ''none'' else join '', '' v)"

definition ports_report :: "config \<Rightarrow> (string \<times> u16) list \<Rightarrow> report" where
  "ports_report cfg listen =
     (let idle = map (\<lambda>(p, n). label p n) (idle_ports cfg listen);
          blocked = map (\<lambda>(p, n). label p n) (unreachable_ports cfg listen);
          r1 = stat ''open in config''
            (''tcp '' @ show_nat (length (c_allow_tcp cfg)) @ mid_dot @ ''udp '' @ show_nat (length (c_allow_udp cfg))) (new_report ''ports'');
          r2 = stat ''listening'' (show_nat (length listen)) r1;
          r3 = stat ''open, nothing listening'' (none_or idle) r2;
          r4 = stat ''listening, not reachable'' (none_or blocked) r3
      in r4\<lparr>rp_ok := idle = [],
            rp_summary := if idle = [] then ''every open port has a service''
              else show_nat (length idle) @ '' open port(s) with nothing behind them''\<rparr>)"

section \<open>The detector on simulated packets\<close>

definition sim_event :: "u32 \<Rightarrow> u8 \<Rightarrow> u8 \<Rightarrow> u16 \<Rightarrow> u8 \<Rightarrow> packet_event" where
  "sim_event src proto flags port v =
     \<lparr>src6 = 0, src_ip = src, dst_port = port, src_port = 40000, protocol = proto, tcp_flags = flags, payload_len = 0,
      verdict = v, family = FAMILY_V4\<rparr>"

record scenario =
  sc_name :: string
  sc_expect_ban :: bool
  sc_protected :: bool
  sc_events :: "(packet_event \<times> u64) list"

text \<open>198.51.100.7, a documentation address.\<close>

definition SIM_SOURCE :: u32 where "SIM_SOURCE = 0xC6336407"

definition per_sec :: "nat \<Rightarrow> nat \<Rightarrow> u64" where
  "per_sec n i = of_nat (i div max n 1)"

definition attack :: "string \<Rightarrow> bool \<Rightarrow> nat \<Rightarrow> (nat \<Rightarrow> packet_event) \<Rightarrow> (nat \<Rightarrow> u64) \<Rightarrow> scenario" where
  "attack name expect n ev sec =
     \<lparr>sc_name = name, sc_expect_ban = expect, sc_protected = False, sc_events = map (\<lambda>i. (ev i, sec i)) [0..<n]\<rparr>"

definition scenarios :: "config \<Rightarrow> scenario list" where
  "scenarios cfg =
     (let opn = (case singles (c_allow_tcp cfg) of p # _ \<Rightarrow> p | [] \<Rightarrow> 22);
          xmas = TCP_FLAG_FIN OR TCP_FLAG_PSH OR TCP_FLAG_URG;
          scan = attack ''port scan'' True 200
            (\<lambda>i. sim_event SIM_SOURCE PROTO_TCP TCP_FLAG_SYN (1000 + of_nat i) VERDICT_DROP_POLICY) (per_sec 20);
          v = [scan,
            attack ''connection flood'' True 400
              (\<lambda>i. sim_event SIM_SOURCE PROTO_TCP TCP_FLAG_SYN opn VERDICT_PASS) (per_sec 200),
            attack ''udp flood'' True 1000
              (\<lambda>i. sim_event SIM_SOURCE PROTO_UDP 0 40000 VERDICT_DROP_POLICY) (per_sec 500),
            attack ''stealth scan'' True 10
              (\<lambda>i. sim_event SIM_SOURCE PROTO_TCP xmas (80 + of_nat i) VERDICT_DROP_POLICY) (\<lambda>_. 0),
            attack ''normal use'' False 180
              (\<lambda>i. sim_event SIM_SOURCE PROTO_TCP TCP_FLAG_SYN opn VERDICT_PASS) (per_sec 3),
            \<lparr>sc_name = ''trusted source scans'', sc_expect_ban = False, sc_protected = True, sc_events = sc_events scan\<rparr>]
      in map (\<lambda>s. s\<lparr>sc_events := take MAX_SIM_EVENTS (sc_events s)\<rparr>) v)"

text \<open>The loop over a scenario: how many packets until the ban, at which second, and the ban.\<close>

fun sim_run :: "nat \<Rightarrow> (packet_event \<times> u64) list \<Rightarrow> detector \<Rightarrow> (nat \<times> u64 \<times> ban) option" where
  "sim_run i [] d = None"
| "sim_run i ((ev, t) # evs) d =
     (case observe ev (1000000 + t) d of
        (d', Some b) \<Rightarrow> Some (i + 1, t, b)
      | (d', None) \<Rightarrow> sim_run (i + 1) evs d')"

definition sim_detector :: "config \<Rightarrow> scenario \<Rightarrow> detector" where
  "sim_detector cfg sc =
     (let d = detector_new (c_detector cfg) (c_bans cfg)
      in if sc_protected sc then set_protected [cidr_single SIM_SOURCE] [] d else d)"

definition sim_value :: "scenario \<Rightarrow> (nat \<times> u64 \<times> ban) option \<Rightarrow> string" where
  "sim_value sc hit =
     (case hit of
        Some (n, t, b) \<Rightarrow>
          ''banned after '' @ show_nat n @ '' packets / '' @ show_word t @ ''s'' @ mid_dot @ ban_reason b @ mid_dot @ duration (ban_secs b)
      | None \<Rightarrow> ''not banned ('' @ show_nat (length (sc_events sc)) @ '' packets)'')"

definition sim_packets :: "scenario \<Rightarrow> (nat \<times> u64 \<times> ban) option \<Rightarrow> nat" where
  "sim_packets sc hit = (case hit of Some (n, _) \<Rightarrow> n | None \<Rightarrow> length (sc_events sc))"

text \<open>\<open>elapsed\<close> is what the clock measured, in nanoseconds.\<close>

definition detector_report :: "config \<Rightarrow> u64 \<Rightarrow> report" where
  "detector_report cfg elapsed =
     (let hits = map (\<lambda>sc. (sc, sim_run 0 (sc_events sc) (sim_detector cfg sc))) (scenarios cfg);
          total = sum_list (map (\<lambda>(sc, hit). sim_packets sc hit) hits);
          failures = map (\<lambda>(sc, _). sc_name sc) (filter (\<lambda>(sc, hit). (hit \<noteq> None) \<noteq> sc_expect_ban sc) hits);
          r1 = fold (\<lambda>(sc, hit). stat (sc_name sc) (sim_value sc hit)) hits (new_report ''detector'');
          dc = c_detector cfg;
          r2 = stat ''cost per packet'' (show_word (elapsed div of_nat (max total 1)) @ '' ns'') r1;
          r3 = stat ''thresholds''
            (''window '' @ show_word (d_window_secs dc) @ ''s'' @ mid_dot @ ''syn '' @ show_word (d_syn_limit dc) @ mid_dot
             @ ''ports '' @ show_word (d_port_limit dc) @ mid_dot @ ''udp '' @ show_word (d_udp_limit dc) @ mid_dot
             @ ''drops '' @ show_word (d_drop_limit dc)) r2
      in r3\<lparr>rp_ok := failures = [],
            rp_summary := if failures = [] then ''attacks banned, normal use and trusted sources left alone''
              else ''unexpected result: '' @ join '', '' failures\<rparr>)"

section \<open>Traffic and services\<close>

text \<open>\<open>first\<close> is the status when the test starts, \<open>later\<close> the readings made every quarter of a second until the deadline,
  \<open>waited\<close> the seconds waited, printed.\<close>

definition traffic_secs :: "u64 \<Rightarrow> u64" where
  "traffic_secs secs = min (max secs 1) MAX_TRAFFIC_SECS"

definition rate_text :: "u64 \<Rightarrow> u64 \<Rightarrow> string" where
  "rate_text n secs = show_word n @ '' ('' @ show_word (n div secs) @ ''/s)''"

definition sample :: "status_view \<Rightarrow> status_view \<Rightarrow> string \<Rightarrow> report" where
  "sample a b waited =
     (let span = max (sat_sub (vw_updated b) (vw_updated a)) 1;
          d = (\<lambda>f. sat_sub (f b) (f a));
          passed = d vw_passed; pol = d vw_dropped_policy; banned = d vw_dropped_blocklist; feed = d vw_dropped_feed;
          new_bans = length (filter (\<lambda>x. bv_ip x \<notin> bv_ip ` set (vw_bans a)) (vw_bans b));
          r1 = stat ''sampled'' (show_word span @ ''s (waited '' @ waited @ ''s)'') (new_report ''traffic'');
          r2 = stat ''passed'' (rate_text passed span) r1;
          r3 = stat ''dropped, closed ports'' (rate_text pol span) r2;
          r4 = stat ''dropped, banned'' (rate_text banned span) r3;
          r5 = stat ''dropped, blocklists'' (rate_text feed span) r4;
          r6 = stat ''new bans'' (show_nat new_bans) r5;
          r7 = stat ''events lost'' (show_word (d vw_events_lost)) r6
      in r7\<lparr>rp_ok := d vw_events_lost = 0,
            rp_summary := show_word ((passed + pol + banned + feed) div span) @ '' packets/s in, ''
              @ show_word ((pol + banned + feed) div span) @ '' dropped/s''\<rparr>)"

definition traffic :: "u64 \<Rightarrow> status_view option \<Rightarrow> status_view option list \<Rightarrow> string \<Rightarrow> report" where
  "traffic secs first later waited =
     (case first of
        None \<Rightarrow> failed ''daemon not running (no status file)'' (new_report ''traffic'')
      | Some a \<Rightarrow>
          (case find (\<lambda>r. case r of Some b \<Rightarrow> vw_updated a + traffic_secs secs \<le> vw_updated b | None \<Rightarrow> False) later of
             Some (Some b) \<Rightarrow> sample a b waited
           | _ \<Rightarrow> failed ''the status file did not update'' (new_report ''traffic'')))"

text \<open>\<open>conn\<close> is what the n-th connection attempt to an address gives: the milliseconds it took, or the kind of error. The
  second component is the addresses connected to, in order.\<close>

definition LOCALHOST :: u32 where "LOCALHOST = 0x7F000001"

definition probe_ports :: "config \<Rightarrow> u16 list" where
  "probe_ports cfg = take MAX_PROBE_PORTS (singles (c_allow_tcp cfg))"

definition probe_value :: "string + nat \<Rightarrow> string" where
  "probe_value r = (case r of Inr ms \<Rightarrow> ''answers ('' @ show_nat ms @ '' ms)'' | Inl kind \<Rightarrow> ''no answer ('' @ kind @ '')'')"

definition services :: "config \<Rightarrow> (nat \<Rightarrow> u32 \<times> u16 \<Rightarrow> string + nat) \<Rightarrow> report \<times> (u32 \<times> u16) list" where
  "services cfg conn =
     (let prts = probe_ports cfg in
      if prts = [] then ((new_report ''services'')\<lparr>rp_summary := ''no single tcp ports are open, nothing to check''\<rparr>, [])
      else
        let answers = map (\<lambda>(i, p). (p, conn i (LOCALHOST, p))) (List.enumerate 0 prts);
            down = map (\<lambda>(p, _). show_word p) (filter (\<lambda>(_, a). isl a) answers);
            r = fold (\<lambda>(p, a). stat (label ''tcp'' p) (probe_value a)) answers (new_report ''services'')
        in (r\<lparr>rp_ok := down = [],
              rp_summary := if down = [] then show_nat (length prts) @ '' service(s) answer locally''
                else ''nothing answers on tcp '' @ join '', '' down\<rparr>,
            map (Pair LOCALHOST) prts))"

section \<open>Running tests\<close>

record test_env =
  te_sys :: sys
  te_elapsed :: u64
  te_first :: "status_view option"
  te_later :: "status_view option list"
  te_waited :: string
  te_conn :: "nat \<Rightarrow> u32 \<times> u16 \<Rightarrow> string + nat"

definition run_one :: "test_env \<Rightarrow> config \<Rightarrow> u64 \<Rightarrow> string \<Rightarrow> report" where
  "run_one e cfg secs n =
     (if n = ''health'' then health (te_sys e) (sy_status (te_sys e))
      else if n = ''ports'' then ports_report cfg (listening (sy_host (te_sys e)))
      else if n = ''detector'' then detector_report cfg (te_elapsed e)
      else if n = ''traffic'' then traffic secs (te_first e) (te_later e) (te_waited e)
      else if n = ''services'' then fst (services cfg (te_conn e))
      else failed (''unknown test; known: '' @ join '', '' (map fst TESTS)) (new_report n))"

definition run_tests :: "test_env \<Rightarrow> config \<Rightarrow> string \<Rightarrow> u64 \<Rightarrow> report list" where
  "run_tests e cfg name secs =
     (if name = ''all'' then map (\<lambda>t. run_one e cfg secs (fst t)) TESTS else [run_one e cfg secs name])"

text \<open>The config the tests use: the file when it can be used, otherwise the built-in defaults (\<open>None\<close> is the panic of \<open>expect\<close>).\<close>

definition test_config :: "(string \<Rightarrow> error + config) \<Rightarrow> fsys \<Rightarrow> config option" where
  "test_config toml fs =
     (let fallback = (case parse_config toml [] of Inr c \<Rightarrow> Some c | Inl _ \<Rightarrow> None) in
      case files fs DEFAULT_PATH of
        None \<Rightarrow> fallback
      | Some t \<Rightarrow> (case parse_config toml t of Inr c \<Rightarrow> Some c | Inl _ \<Rightarrow> fallback))"

section \<open>Nothing leaves the machine\<close>

lemma singles_covered: "p \<in> set (singles specs) \<Longrightarrow> spec_covers specs p"
  by (force simp: singles_def spec_covers_def map_filter_def list_ex_iff split: sum.splits if_splits)

text \<open>The services test connects to this machine only, to ports the config opens only, and to sixteen of them at most, whatever is in the
  config.\<close>

theorem probes_stay_local:
  "length (snd (services cfg conn)) \<le> 16
   \<and> snd (services cfg conn) = map (Pair LOCALHOST) (filter (spec_covers (c_allow_tcp cfg)) (map snd (snd (services cfg conn))))"
proof -
  have "filter (spec_covers (c_allow_tcp cfg)) (probe_ports cfg) = probe_ports cfg"
    by (auto simp: filter_id_conv probe_ports_def dest: in_set_takeD singles_covered)
  moreover have "snd (services cfg conn) = map (Pair LOCALHOST) (probe_ports cfg)" by (simp add: services_def Let_def)
  moreover have "length (probe_ports cfg) \<le> 16" by (simp add: probe_ports_def MAX_PROBE_PORTS_def)
  ultimately show ?thesis by (simp add: comp_def)
qed

section \<open>What the ports test says\<close>

text \<open>The ports test passes exactly when every single port the config opens has a listener of its protocol.\<close>

lemma ports_report_ok: "rp_ok (ports_report cfg listen) \<longleftrightarrow> idle_ports cfg listen = []"
  by (simp add: ports_report_def Let_def)

theorem ports_test_exact:
  "rp_ok (ports_report cfg listen) \<longleftrightarrow>
    {p. p \<in> set (singles (c_allow_tcp cfg)) \<and> (''tcp'', p) \<notin> set listen} = {}
    \<and> {p. p \<in> set (singles (c_allow_udp cfg)) \<and> (''udp'', p) \<notin> set listen} = {}"
  by (auto simp: ports_report_ok idle_ports_def filter_empty_conv)

section \<open>A trusted source is left alone\<close>

lemma sim_run_none:
  "list_all (\<lambda>(ev, t). is_protected d (src_of ev)) evs \<Longrightarrow> sim_run i evs d = None"
  by (induction i evs d rule: sim_run.induct) (auto simp: observe_def)

lemma fold_stat: "rp_stats (fold (\<lambda>(sc, hit). stat (n sc) (v sc hit)) hits r) = rp_stats r @ map (\<lambda>(sc, hit). (n sc, v sc hit)) hits"
  by (induction hits arbitrary: r) (auto simp: stat_def)

lemma sim_event_src: "src_of (sim_event ip proto fl port v) = V4 ip"
  by (simp add: src_of_def sim_event_def family_defs)

lemma trusted_scenario:
  "\<lparr>sc_name = ''trusted source scans'', sc_expect_ban = False, sc_protected = True,
     sc_events = map (\<lambda>i. (sim_event SIM_SOURCE PROTO_TCP TCP_FLAG_SYN (1000 + of_nat i) VERDICT_DROP_POLICY, per_sec 20 i)) [0..<200]\<rparr>
   \<in> set (scenarios cfg)"
  by (simp add: scenarios_def attack_def MAX_SIM_EVENTS_def Let_def)

text \<open>Whatever the thresholds, the detector test finds that a protected source that scans two hundred ports is not banned.\<close>

theorem trusted_never_flagged:
  "(''trusted source scans'', ''not banned (200 packets)'') \<in> set (rp_stats (detector_report cfg elapsed))"
proof -
  let ?evs = "map (\<lambda>i. (sim_event SIM_SOURCE PROTO_TCP TCP_FLAG_SYN (1000 + of_nat i) VERDICT_DROP_POLICY, per_sec 20 i)) [0..<200]"
  let ?sc = "\<lparr>sc_name = ''trusted source scans'', sc_expect_ban = False, sc_protected = True, sc_events = ?evs\<rparr>"
  have "is_protected (sim_detector cfg ?sc) (V4 SIM_SOURCE)"
    by (simp add: sim_detector_def set_protected_def cidr_single_def cidr_contains_def Let_def)
  then have "sim_run 0 ?evs (sim_detector cfg ?sc) = None"
    by (intro sim_run_none) (simp add: list_all_iff sim_event_src)
  moreover have "sim_value ?sc None = ''not banned (200 packets)''"
  proof -
    have "show_nat 200 = ''200''" by code_simp
    then show ?thesis by (simp add: sim_value_def)
  qed
  ultimately have "(''trusted source scans'', ''not banned (200 packets)'')
      \<in> set (map (\<lambda>(sc, hit). (sc_name sc, sim_value sc hit)) (map (\<lambda>sc. (sc, sim_run 0 (sc_events sc) (sim_detector cfg sc))) (scenarios cfg)))"
    using trusted_scenario [of cfg] by (force simp: image_iff)
  moreover have "set (rp_stats r) \<subseteq> set (rp_stats (stat k v r))" for r k v by (auto simp: stat_def)
  ultimately show ?thesis by (auto simp: detector_report_def Let_def fold_stat stat_def)
qed

end
