(* ===== verification/Selftest_Facts.thy ===== *)
theory Selftest_Facts
  imports Selftest Scoring
begin

text \<open>
  The detector test passes on the default thresholds: each simulated attack is banned, normal use and the trusted source are not.
  An attack is followed through the counters of its track up to the packet whose exact score is over the threshold; normal use
  through its windows of ten seconds.
\<close>

section \<open>Attacks are found\<close>

definition shifted :: "(packet_event \<times> u64) list \<Rightarrow> (packet_event \<times> u64) list" where
  "shifted evs = map (\<lambda>(ev, t). (ev, 1000000 + t)) evs"

lemma sim_run_quiet: "sim_run i (evs @ rest) d = None \<Longrightarrow> \<exists>d'. observe_all (shifted evs) d = (d', []) \<and> sim_run (i + length evs) rest d' = None"
proof (induction evs arbitrary: i d)
  case (Cons e evs)
  obtain ev t where e: "e = (ev, t)" by (cases e)
  obtain d1 b where o: "observe ev (1000000 + t) d = (d1, b)" by (metis surj_pair)
  have b: "b = None" "sim_run (i + 1) (evs @ rest) d1 = None" using Cons.prems by (auto simp: e o split: option.splits)
  then show ?case using Cons.IH [OF b(2)] by (auto simp: shifted_def e o)
qed (simp add: shifted_def)

lemma observe_quiet_score:
  assumes "observe ev now d = (d', None)" "\<not> is_protected d (src_of ev)" "hm_get (dt_tracks d) (src_of ev) = Some t"
    "sat_sub now (tr_window_start t) < d_window_secs (dt_cfg d)"
  shows "f32_less (score_of (dt_cfg d) (count_event (dt_cfg d) ev t)) (Fin 1)"
  using assms by (auto simp: observe_def Let_def hm_has_def open_window_def not_le split: if_splits prod.splits)

lemma observe_all_snoc:
  "observe_all (es @ [(ev, now)]) d = (let (d1, bs) = observe_all es d; (d2, b) = observe ev now d1
     in (d2, bs @ (case b of Some x \<Rightarrow> [x] | None \<Rightarrow> [])))"
  by (induction es arbitrary: d) (auto simp: Let_def case_prod_unfold split: option.splits)

lemma no_wrap_secs: "unat t < 1000 \<Longrightarrow> sat_sub (1000000 + t) 1000000 = (t::u64)"
  by (simp add: sat_sub_def word_less_nat_alt unat_add_no_wrap)

text \<open>The track of a source that starts afresh and is not banned, its packets within the first window.\<close>

definition in_window :: "detector_config \<Rightarrow> src \<Rightarrow> packet_event \<times> u64 \<Rightarrow> bool" where
  "in_window cfg ip = (\<lambda>(ev, t). src_of ev = ip \<and> t < d_window_secs cfg \<and> unat t < 1000)"

lemma quiet_counts:
  assumes "\<not> is_protected d ip" "dt_tracks d = []" "list_all (in_window (dt_cfg d) ip) ((ev0, 0) # evs)" "d_window_secs (dt_cfg d) \<le> 1000000"
    "observe_all (shifted ((ev0, 0) # evs)) d = (d', [])"
  shows "\<exists>t. hm_get (dt_tracks d') ip = Some t \<and> counts (dt_cfg d) (ev0 # map fst evs) t \<and> tr_window_start t = 1000000
    \<and> dt_cfg d' = dt_cfg d \<and> is_protected d' = is_protected d"
  using assms(3,5)
proof (induction evs arbitrary: d' rule: rev_induct)
  case Nil
  have o: "observe ev0 1000000 d = (d', None)" using Nil.prems(2) by (auto simp: shifted_def Let_def split: prod.splits option.splits)
  have ip: "src_of ev0 = ip" using Nil.prems(1) by (simp add: in_window_def)
  have n: "hm_get (dt_tracks d') ip = Some (count_event (dt_cfg d) ev0 (open_window (dt_cfg d) 1000000 track_default))"
    "dt_cfg d' = dt_cfg d" "is_protected d' = is_protected d"
    using observe_new [OF _ _ _ o] assms(1,2) ip by (simp_all add: MAX_TRACKED_def)
  have "open_window (dt_cfg d) 1000000 track_default = track_default\<lparr>tr_window_start := 1000000\<rparr>"
    using assms(4) by (simp add: open_window_def track_default_def sat_sub_def)
  with n counts_step [OF counts_default [of "dt_cfg d" 1000000], of ev0] show ?case by (simp add: count_event_fields)
next
  case (snoc e evs)
  obtain ev t where e: "e = (ev, t)" by (cases e)
  obtain d1 bs where o1: "observe_all (shifted ((ev0, 0) # evs)) d = (d1, bs)" by (metis surj_pair)
  have "shifted ((ev0, 0) # evs @ [e]) = shifted ((ev0, 0) # evs) @ [(ev, 1000000 + t)]" by (simp add: shifted_def e)
  then have bs: "bs = []" "observe ev (1000000 + t) d1 = (d', None)"
    using snoc.prems(2) o1 by (auto simp: observe_all_snoc Let_def split: prod.splits option.splits)
  obtain tr where tr: "hm_get (dt_tracks d1) ip = Some tr" "counts (dt_cfg d) (ev0 # map fst evs) tr" "tr_window_start tr = 1000000"
    "dt_cfg d1 = dt_cfg d" "is_protected d1 = is_protected d"
    using snoc.IH [of d1] snoc.prems(1) o1 bs(1) by auto
  have w: "src_of ev = ip" "t < d_window_secs (dt_cfg d)" "unat t < 1000" using snoc.prems(1) by (simp_all add: e in_window_def)
  have "hm_get (dt_tracks d') ip = Some (count_event (dt_cfg d1) ev tr) \<and> dt_cfg d' = dt_cfg d1 \<and> is_protected d' = is_protected d1"
    using observe_known [of d1 ev tr "1000000 + t" d'] bs(2) tr w assms(1) no_wrap_secs [OF w(3)] by simp
  then show ?case using tr counts_step [OF tr(2), of ev] by (auto simp: e count_event_fields)
qed

text \<open>A source whose first packets add up to a score over the threshold within the first window is banned.\<close>

lemma attack_banned:
  assumes "\<not> is_protected d ip" "dt_tracks d = []" "detector_ok (dt_cfg d)" "d_window_secs (dt_cfg d) \<le> 1000000"
    "list_all (in_window (dt_cfg d) ip) ((ev0, 0) # evs @ [(ev, t)])"
    "\<And>tr. counts (dt_cfg d) (ev0 # map fst evs @ [ev]) tr \<Longrightarrow> 1 + 1 / 131072 \<le> exact_score (dt_cfg d) tr"
  shows "sim_run 0 ((ev0, 0) # evs @ (ev, t) # rest) d \<noteq> None"
proof
  assume n: "sim_run 0 ((ev0, 0) # evs @ (ev, t) # rest) d = None"
  obtain d1 where o1: "observe_all (shifted ((ev0, 0) # evs)) d = (d1, [])" "sim_run (Suc (length evs)) ((ev, t) # rest) d1 = None"
    using sim_run_quiet [of 0 "(ev0, 0) # evs" "(ev, t) # rest" d] n by auto
  obtain tr where tr: "hm_get (dt_tracks d1) ip = Some tr" "counts (dt_cfg d) (ev0 # map fst evs) tr" "tr_window_start tr = 1000000"
    "dt_cfg d1 = dt_cfg d" "is_protected d1 = is_protected d"
    using quiet_counts [OF assms(1,2) _ assms(4) o1(1)] assms(5) by auto
  have w: "src_of ev = ip" "t < d_window_secs (dt_cfg d)" "unat t < 1000" using assms(5) by (simp_all add: in_window_def)
  obtain d2 where o2: "observe ev (1000000 + t) d1 = (d2, None)" using o1(2) by (auto split: prod.splits option.splits)
  have "f32_less (score_of (dt_cfg d) (count_event (dt_cfg d) ev tr)) (Fin 1)"
    using observe_quiet_score [OF o2] tr w assms(1) no_wrap_secs [OF w(3)] by simp
  moreover have "1 + 1 / 131072 \<le> exact_score (dt_cfg d) (count_event (dt_cfg d) ev tr)"
    using assms(6) counts_step [OF tr(2), of ev] by simp
  ultimately show False using score_far [OF assms(3)] by blast
qed

section \<open>The four attacks\<close>

lemma many_all: "\<forall>x \<in> set xs. p x \<Longrightarrow> many p xs = length xs" "\<forall>x \<in> set xs. \<not> p x \<Longrightarrow> many p xs = 0"
  by (auto simp: many_def filter_empty_conv)

lemma exact_lower:
  assumes "counts detector_default evs t" "evs \<noteq> []" "length evs < 1000"
  shows "of_nat (many opens_tcp evs) / 40 + of_nat (many is_udp evs) / 150 + of_nat (many is_drop evs) / 30 + of_nat (many is_odd evs) / 3
    \<le> exact_score detector_default t"
proof -
  have m: "unat (of_nat (many p evs) :: u32) = many p evs" for p
  proof -
    have "many p evs < 1000" using le_less_trans [OF length_filter_le assms(3)] by (simp add: many_def)
    then show ?thesis by (simp add: unat_of_nat)
  qed
  have "1 \<le> card (dst_port ` set evs)" using assms(2) by (simp add: Suc_le_eq card_gt_0_iff)
  then have "1 \<le> length (tr_ports t)" using assms(1) by (simp add: counts_def)
  then have "(1::rat) / 12 \<le> of_nat (length (tr_ports t)) / 12" by simp
  moreover have "exact_score detector_default t = of_nat (many opens_tcp evs) / 40 + of_nat (length (tr_ports t)) / 12
      + of_nat (many is_udp evs) / 150 + of_nat (many is_drop evs) / 30 + of_nat (many is_odd evs) / 3 - 1 / 12"
    using assms(1) by (simp add: exact_score_def counts_def m detector_default_def)
  ultimately show ?thesis by linarith
qed

lemma upt_prefix: "0 # [1..<n + 1] @ [n + 1] = [0..<n + 2]"
  by (simp add: upt_conv_Cons)

lemma upt_parts: "n + 2 \<le> N \<Longrightarrow> [0..<N] = 0 # [1..<n + 1] @ (n + 1) # [n + 2..<N]"
proof -
  assume "n + 2 \<le> N"
  then obtain k where "N = n + 2 + k" by (metis le_Suc_ex)
  then have "[0..<N] = [0..<n + 2] @ [n + 2..<N]" using upt_add_eq_append [of 0 "n + 2" k] by simp
  then show ?thesis unfolding upt_prefix [symmetric] by simp
qed

lemma scenario_banned:
  assumes "c_detector cfg = detector_default" "\<not> sc_protected sc" "sc_events sc = map (\<lambda>i. (ev i, sec i)) [0..<N]" "n + 2 \<le> N" "n < 900"
    "\<And>i. src_of (ev i) = V4 SIM_SOURCE" "\<And>i. i < n + 2 \<Longrightarrow> sec i = 0"
    "1 + 1 / 131072 \<le> of_nat (many opens_tcp (map ev [0..<n + 2])) / 40 + of_nat (many is_udp (map ev [0..<n + 2])) / 150
      + of_nat (many is_drop (map ev [0..<n + 2])) / 30 + (of_nat (many is_odd (map ev [0..<n + 2])) / 3 :: rat)"
  shows "sim_run 0 (sc_events sc) (sim_detector cfg sc) \<noteq> None"
proof -
  let ?d = "sim_detector cfg sc"
  have d: "dt_cfg ?d = detector_default" "dt_tracks ?d = []" "\<not> is_protected ?d (V4 SIM_SOURCE)"
    using assms(1,2) by (simp_all add: sim_detector_def detector_new_def Let_def)
  have evs: "ev 0 # map fst (map (\<lambda>i. (ev i, sec i)) [1..<n + 1]) @ [ev (n + 1)] = map ev [0..<n + 2]"
    unfolding upt_prefix [symmetric] by (simp add: comp_def)
  have "sim_run 0 ((ev 0, 0) # map (\<lambda>i. (ev i, sec i)) [1..<n + 1] @ (ev (n + 1), 0) # map (\<lambda>i. (ev i, sec i)) [n + 2..<N]) ?d \<noteq> None"
  proof (rule attack_banned [OF d(3,2)])
    show "detector_ok (dt_cfg ?d)" "d_window_secs (dt_cfg ?d) \<le> 1000000"
      using default_detector by (simp_all add: d(1)) (simp add: detector_default_def)
    show "list_all (in_window (dt_cfg ?d) (V4 SIM_SOURCE)) ((ev 0, 0) # map (\<lambda>i. (ev i, sec i)) [1..<n + 1] @ [(ev (n + 1), 0)])"
      using assms(6,7) by (auto simp: d in_window_def list_all_iff detector_default_def simp del: upt_Suc)
    show "1 + 1 / 131072 \<le> exact_score (dt_cfg ?d) tr"
      if "counts (dt_cfg ?d) (ev 0 # map fst (map (\<lambda>i. (ev i, sec i)) [1..<n + 1]) @ [ev (n + 1)]) tr" for tr
    proof -
      have "counts detector_default (map ev [0..<n + 2]) tr" using that unfolding evs d(1) .
      from exact_lower [OF this] assms(5,8) show ?thesis unfolding d(1) by (fastforce intro: order_trans)
    qed
  qed
  moreover have "sec 0 = 0" "sec (n + 1) = 0" using assms(7) [of 0] assms(7) [of "n + 1"] by simp_all
  ultimately show ?thesis unfolding assms(3) upt_parts [OF assms(4)] by simp
qed

lemmas sim_kinds = sim_event_def opens_tcp_def is_udp_def is_odd_def is_drop_def is_null_scan_def is_xmas_scan_def is_fin_scan_def is_fin_def
  is_syn_def is_rst_def proto_defs tcp_flag_defs verdict_defs

lemma kinds_syn: "opens_tcp (sim_event a PROTO_TCP TCP_FLAG_SYN p v)" "\<not> is_udp (sim_event a PROTO_TCP TCP_FLAG_SYN p v)"
  "\<not> is_odd (sim_event a PROTO_TCP TCP_FLAG_SYN p v)"
  by (simp_all add: sim_kinds)

lemma kinds_other: "is_udp (sim_event a PROTO_UDP 0 p v)" "is_odd (sim_event a PROTO_TCP (TCP_FLAG_FIN OR TCP_FLAG_PSH OR TCP_FLAG_URG) p v)"
  "is_drop (sim_event a pr fl p VERDICT_DROP_POLICY)" "\<not> is_drop (sim_event a pr fl p VERDICT_PASS)"
  by (simp_all add: sim_kinds)

lemma kinds_rest: "\<not> opens_tcp (sim_event a PROTO_UDP 0 p v)" "\<not> is_odd (sim_event a PROTO_UDP 0 p v)"
  "\<not> is_udp (sim_event a PROTO_TCP fl p v)" "\<not> opens_tcp (sim_event a PROTO_TCP (TCP_FLAG_FIN OR TCP_FLAG_PSH OR TCP_FLAG_URG) p v)"
  by (simp_all add: sim_kinds)

section \<open>Normal use\<close>

text \<open>After \<open>k + 1\<close> connections, three a second to one port, the track is in its \<open>k div 30\<close>-th window and has counted \<open>k mod 30 + 1\<close>.\<close>

definition calm_track :: "u16 \<Rightarrow> nat \<Rightarrow> track" where
  "calm_track p k = track_default\<lparr>tr_window_start := 1000000 + of_nat (10 * (k div 30)), tr_tcp_seen := True, tr_syn := of_nat (k mod 30 + 1),
     tr_ports := [p]\<rparr>"

lemma unat_small: "n < 2 ^ LENGTH('a) \<Longrightarrow> unat (of_nat n :: 'a::len word) = n"
  by (simp add: unat_of_nat)

lemma sat_sub_nat: "i < 2 ^ 64 \<Longrightarrow> j < 2 ^ 64 \<Longrightarrow> sat_sub (of_nat i :: u64) (of_nat j) = of_nat (i - j)"
proof -
  assume "i < 2 ^ 64" "j < 2 ^ 64"
  then have "unat (sat_sub (of_nat i :: u64) (of_nat j)) = unat (of_nat (i - j) :: u64)" by (simp add: unat_sat_sub unat_small)
  then show ?thesis by (rule unsigned_word_eqI)
qed

lemma calm_step:
  assumes "c = detector_default" "k < 200"
  shows "count_event c (sim_event SIM_SOURCE PROTO_TCP TCP_FLAG_SYN p VERDICT_PASS) (open_window c (1000000 + per_sec 3 (k + 1)) (calm_track p k))
    = calm_track p (k + 1)"
    and "count_event c (sim_event SIM_SOURCE PROTO_TCP TCP_FLAG_SYN p VERDICT_PASS) (open_window c (1000000 + per_sec 3 0) track_default)
    = calm_track p 0"
proof -
  let ?now = "1000000 + per_sec 3 (k + 1)" and ?ev = "sim_event SIM_SOURCE PROTO_TCP TCP_FLAG_SYN p VERDICT_PASS"
  have now: "?now = of_nat (1000000 + (k + 1) div 3)" by (simp add: per_sec_def)
  have start: "tr_window_start (calm_track p k) = of_nat (1000000 + 10 * (k div 30))" by (simp add: calm_track_def)
  have age: "sat_sub ?now (tr_window_start (calm_track p k)) = of_nat ((k + 1) div 3 - 10 * (k div 30))"
    unfolding now start using assms(2) by (subst sat_sub_nat) simp_all
  have le: "d_window_secs c \<le> sat_sub ?now (tr_window_start (calm_track p k)) \<longleftrightarrow> 10 \<le> (k + 1) div 3 - 10 * (k div 30)"
  proof -
    have "unat (of_nat ((k + 1) div 3 - 10 * (k div 30)) :: u64) = (k + 1) div 3 - 10 * (k div 30)"
      by (rule unat_small) (use assms(2) in simp)
    then show ?thesis unfolding age by (simp add: word_le_nat_alt assms(1) detector_default_def)
  qed
  have count: "count_event c ?ev (t\<lparr>tr_tcp_seen := True, tr_syn := of_nat n, tr_ports := [p]\<rparr>)
      = t\<lparr>tr_tcp_seen := True, tr_syn := of_nat (n + 1), tr_ports := [p]\<rparr>"
    "count_event c ?ev (track_default\<lparr>tr_window_start := w\<rparr>)
      = track_default\<lparr>tr_window_start := w, tr_tcp_seen := True, tr_syn := 1, tr_ports := [p]\<rparr>" for t n w
    by (simp_all add: count_event_def sim_kinds track_default_def assms(1) detector_default_def)
  show "count_event c ?ev (open_window c ?now (calm_track p k)) = calm_track p (k + 1)"
  proof (cases "k mod 30 = 29")
    case True
    then have "k + 1 = 3 * (10 * (k div 30) + 10)" using div_mult_mod_eq [of k 30] by simp
    then have "(k + 1) div 3 = 10 * (k div 30) + 10" by (metis nonzero_mult_div_cancel_left zero_neq_numeral)
    with True have q: "(k + 1) mod 30 = 0" "(k + 1) div 30 = k div 30 + 1" "(k + 1) div 3 = 10 * (k div 30) + 10"
      by (simp_all add: mod_Suc div_Suc)
    have "?now = 1000000 + of_nat (10 * ((k + 1) div 30))" unfolding now q by simp
    then show ?thesis using q le by (simp add: open_window_def count(2) calm_track_def)
  next
    case False
    define q r where "q = k div 30" and "r = k mod 30"
    have "k = q * 30 + r" "r < 30" "r \<noteq> 29" using False by (simp_all add: q_def r_def)
    then have "k + 1 < (10 * q + 10) * 3" by arith
    then have "k + 1 < (10 * (k div 30) + 10) * 3" by (simp add: q_def)
    then have "(k + 1) div 3 < 10 * (k div 30) + 10" by (rule less_mult_imp_div_less)
    with False have q: "(k + 1) mod 30 = k mod 30 + 1" "(k + 1) div 30 = k div 30" "(k + 1) div 3 < 10 * (k div 30) + 10"
      by (simp_all add: mod_Suc div_Suc)
    then have "\<not> d_window_secs c \<le> sat_sub ?now (tr_window_start (calm_track p k))" unfolding le by linarith
    then show ?thesis using q count(1) [where t = "track_default\<lparr>tr_window_start := 1000000 + of_nat (10 * (k div 30))\<rparr>" and n = "k mod 30 + 1"]
      by (simp add: open_window_def calm_track_def)
  qed
  have "open_window c (1000000 + per_sec 3 0) track_default = track_default\<lparr>tr_window_start := 1000000\<rparr>"
    by (simp add: open_window_def per_sec_def track_default_def sat_sub_def assms(1) detector_default_def)
  then show "count_event c ?ev (open_window c (1000000 + per_sec 3 0) track_default) = calm_track p 0"
    by (simp add: count(2) calm_track_def)
qed

lemma calm_score: "exact_score detector_default (calm_track p k) \<le> 1 - 1 / 131072"
proof -
  have "k mod 30 + 1 \<le> 30" by simp
  moreover have "unat (of_nat (k mod 30 + 1) :: u32) = k mod 30 + 1" by (rule unat_small) simp
  ultimately have "(of_nat (unat (of_nat (k mod 30 + 1) :: u32)) :: rat) \<le> 30" by (metis of_nat_le_iff of_nat_numeral)
  then show ?thesis by (simp add: exact_score_def calm_track_def track_default_def detector_default_def del: of_nat_add)
qed

lemma calm_run:
  assumes "dt_cfg d = detector_default" "\<not> is_protected d (V4 SIM_SOURCE)" "dt_tracks d = [(V4 SIM_SOURCE, calm_track p k)]" "k + n < 200"
  shows "sim_run i (map (\<lambda>j. (sim_event SIM_SOURCE PROTO_TCP TCP_FLAG_SYN p VERDICT_PASS, per_sec 3 j)) [k + 1..<k + 1 + n]) d = None"
  using assms
proof (induction n arbitrary: i k d)
  case (Suc n)
  let ?ev = "sim_event SIM_SOURCE PROTO_TCP TCP_FLAG_SYN p VERDICT_PASS"
  have k: "k < 200" using Suc.prems(4) by simp
  have nt: "next_track ?ev (1000000 + per_sec 3 (k + 1)) d = calm_track p (k + 1)"
    using calm_step(1) [OF Suc.prems(1) k, of p] by (simp add: next_track_def sim_event_src Suc.prems(3))
  have o: "observe ?ev (1000000 + per_sec 3 (k + 1)) d = (d\<lparr>dt_tracks := hm_put (V4 SIM_SOURCE) (calm_track p (k + 1)) (dt_tracks d)\<rparr>, None)"
    using observe_under [of d ?ev "1000000 + per_sec 3 (k + 1)"] Suc.prems calm_score default_detector
    using nt by (simp add: sim_event_src hm_has_def)
  have "sim_run (i + 1) (map (\<lambda>j. (?ev, per_sec 3 j)) [k + 1 + 1..<k + 1 + 1 + n])
      (d\<lparr>dt_tracks := hm_put (V4 SIM_SOURCE) (calm_track p (k + 1)) (dt_tracks d)\<rparr>) = None"
  proof (rule Suc.IH)
    show "\<not> is_protected (d\<lparr>dt_tracks := hm_put (V4 SIM_SOURCE) (calm_track p (k + 1)) (dt_tracks d)\<rparr>) (V4 SIM_SOURCE)"
      using Suc.prems(2) by simp
  qed (use Suc.prems in simp_all)
  moreover have "[k + 1..<k + 1 + Suc n] = (k + 1) # [k + 1 + 1..<k + 1 + 1 + n]" by (simp add: upt_conv_Cons del: upt_Suc)
  ultimately show ?case using o by (simp del: upt_Suc)
qed simp

section \<open>The whole test\<close>

lemma normal_use_quiet:
  assumes "c_detector cfg = detector_default"
  shows "sim_run 0 (sc_events (attack n e 180 (\<lambda>i. sim_event SIM_SOURCE PROTO_TCP TCP_FLAG_SYN p VERDICT_PASS) (per_sec 3)))
    (sim_detector cfg (attack n e 180 ev sec)) = None"
proof -
  let ?d = "sim_detector cfg (attack n e 180 ev sec)" and ?ev = "sim_event SIM_SOURCE PROTO_TCP TCP_FLAG_SYN p VERDICT_PASS"
  have d: "dt_cfg ?d = detector_default" "dt_tracks ?d = []" "\<not> is_protected ?d (V4 SIM_SOURCE)"
    using assms by (simp_all add: sim_detector_def detector_new_def attack_def Let_def)
  have nt: "next_track ?ev (1000000 + per_sec 3 0) ?d = calm_track p 0"
    using calm_step(2) [OF d(1), of 0] by (simp add: next_track_def sim_event_src d)
  have o: "observe ?ev (1000000 + per_sec 3 0) ?d = (?d\<lparr>dt_tracks := hm_put (V4 SIM_SOURCE) (calm_track p 0) (dt_tracks ?d)\<rparr>, None)"
    using observe_under [of ?d ?ev "1000000 + per_sec 3 0"] d calm_score [of p 0] default_detector nt
    by (simp add: sim_event_src hm_has_def MAX_TRACKED_def)
  have "sim_run 1 (map (\<lambda>j. (?ev, per_sec 3 j)) [0 + 1..<0 + 1 + 179])
      (?d\<lparr>dt_tracks := hm_put (V4 SIM_SOURCE) (calm_track p 0) (dt_tracks ?d)\<rparr>) = None"
    by (rule calm_run) (use d in simp_all)
  moreover have "[0..<180] = 0 # [0 + 1..<0 + 1 + 179]" by (simp add: upt_conv_Cons del: upt_Suc)
  ultimately show ?thesis using o by (simp add: attack_def del: upt_Suc)
qed

lemma many_map: "\<forall>i < n. p (ev i) \<Longrightarrow> many p (map ev [0..<n]) = n" "\<forall>i < n. \<not> p (ev i) \<Longrightarrow> many p (map ev [0..<n]) = 0"
  using many_all [of "map ev [0..<n]" p] by (auto simp del: upt_Suc)

lemma attack_case:
  assumes "c_detector cfg = detector_default" "n + 2 \<le> N" "n < 900" "\<And>i. src_of (ev i) = V4 SIM_SOURCE" "\<And>i. i < n + 2 \<Longrightarrow> sec i = 0"
    "1 + 1 / 131072 \<le> of_nat (many opens_tcp (map ev [0..<n + 2])) / 40 + of_nat (many is_udp (map ev [0..<n + 2])) / 150
      + of_nat (many is_drop (map ev [0..<n + 2])) / 30 + (of_nat (many is_odd (map ev [0..<n + 2])) / 3 :: rat)"
  shows "sim_run 0 (sc_events (attack nm e N ev sec)) (sim_detector cfg (attack nm e N ev sec)) \<noteq> None"
  by (rule scenario_banned [OF assms(1) _ _ assms(2,3,4,5,6)]) (simp_all add: attack_def)

lemma attacks_banned:
  assumes "c_detector cfg = detector_default"
  shows "sim_run 0 (sc_events (attack n1 e1 200 (\<lambda>i. sim_event SIM_SOURCE PROTO_TCP TCP_FLAG_SYN (1000 + of_nat i) VERDICT_DROP_POLICY) (per_sec 20)))
      (sim_detector cfg (attack n1 e1 200 (\<lambda>i. sim_event SIM_SOURCE PROTO_TCP TCP_FLAG_SYN (1000 + of_nat i) VERDICT_DROP_POLICY) (per_sec 20))) \<noteq> None" (is ?scan)
    and "sim_run 0 (sc_events (attack n2 e2 400 (\<lambda>i. sim_event SIM_SOURCE PROTO_TCP TCP_FLAG_SYN p VERDICT_PASS) (per_sec 200)))
      (sim_detector cfg (attack n2 e2 400 (\<lambda>i. sim_event SIM_SOURCE PROTO_TCP TCP_FLAG_SYN p VERDICT_PASS) (per_sec 200))) \<noteq> None" (is ?flood)
    and "sim_run 0 (sc_events (attack n3 e3 1000 (\<lambda>i. sim_event SIM_SOURCE PROTO_UDP 0 40000 VERDICT_DROP_POLICY) (per_sec 500)))
      (sim_detector cfg (attack n3 e3 1000 (\<lambda>i. sim_event SIM_SOURCE PROTO_UDP 0 40000 VERDICT_DROP_POLICY) (per_sec 500))) \<noteq> None" (is ?udp)
    and "sim_run 0 (sc_events (attack n4 e4 10 (\<lambda>i. sim_event SIM_SOURCE PROTO_TCP (TCP_FLAG_FIN OR TCP_FLAG_PSH OR TCP_FLAG_URG) (80 + of_nat i)
        VERDICT_DROP_POLICY) (\<lambda>_. 0)))
      (sim_detector cfg (attack n4 e4 10 (\<lambda>i. sim_event SIM_SOURCE PROTO_TCP (TCP_FLAG_FIN OR TCP_FLAG_PSH OR TCP_FLAG_URG) (80 + of_nat i)
        VERDICT_DROP_POLICY) (\<lambda>_. 0))) \<noteq> None" (is ?stealth)
proof -
  show ?scan
    by (rule attack_case [OF assms, where n = 16])
       (simp_all add: sim_event_src per_sec_def many_map kinds_syn kinds_other kinds_rest del: upt_Suc)
  show ?flood
    by (rule attack_case [OF assms, where n = 39])
       (simp_all add: sim_event_src per_sec_def many_map kinds_syn kinds_other kinds_rest del: upt_Suc)
  show ?udp
    by (rule attack_case [OF assms, where n = 24])
       (simp_all add: sim_event_src per_sec_def many_map kinds_syn kinds_other kinds_rest del: upt_Suc)
  show ?stealth
    by (rule attack_case [OF assms, where n = 2])
       (simp_all add: sim_event_src per_sec_def many_map kinds_syn kinds_other kinds_rest del: upt_Suc)
qed

lemma attack_taken: "N \<le> 2000 \<Longrightarrow> (attack nm e N ev sec)\<lparr>sc_events := take MAX_SIM_EVENTS (sc_events (attack nm e N ev sec))\<rparr> = attack nm e N ev sec"
  by (simp add: attack_def MAX_SIM_EVENTS_def)

definition scenario_shape :: "u16 \<Rightarrow> scenario list" where
  "scenario_shape p =
    [attack ''port scan'' True 200 (\<lambda>i. sim_event SIM_SOURCE PROTO_TCP TCP_FLAG_SYN (1000 + of_nat i) VERDICT_DROP_POLICY) (per_sec 20),
     attack ''connection flood'' True 400 (\<lambda>i. sim_event SIM_SOURCE PROTO_TCP TCP_FLAG_SYN p VERDICT_PASS) (per_sec 200),
     attack ''udp flood'' True 1000 (\<lambda>i. sim_event SIM_SOURCE PROTO_UDP 0 40000 VERDICT_DROP_POLICY) (per_sec 500),
     attack ''stealth scan'' True 10
       (\<lambda>i. sim_event SIM_SOURCE PROTO_TCP (TCP_FLAG_FIN OR TCP_FLAG_PSH OR TCP_FLAG_URG) (80 + of_nat i) VERDICT_DROP_POLICY) (\<lambda>_. 0),
     attack ''normal use'' False 180 (\<lambda>i. sim_event SIM_SOURCE PROTO_TCP TCP_FLAG_SYN p VERDICT_PASS) (per_sec 3),
     \<lparr>sc_name = ''trusted source scans'', sc_expect_ban = False, sc_protected = True,
       sc_events = map (\<lambda>i. (sim_event SIM_SOURCE PROTO_TCP TCP_FLAG_SYN (1000 + of_nat i) VERDICT_DROP_POLICY, per_sec 20 i)) [0..<200]\<rparr>]"

lemma scenario_list: "\<exists>p. scenarios cfg = scenario_shape p"
  by (rule exI [of _ "case singles (c_allow_tcp cfg) of p # _ \<Rightarrow> p | [] \<Rightarrow> 22"])
     (simp add: scenarios_def scenario_shape_def Let_def attack_taken del: upt_Suc, simp add: attack_def MAX_SIM_EVENTS_def del: upt_Suc)

lemma sim_protected: "sc_protected sc \<Longrightarrow> is_protected (sim_detector cfg sc) (V4 SIM_SOURCE)"
  by (simp add: sim_detector_def set_protected_def cidr_single_def cidr_contains_def Let_def)

lemma trusted_quiet:
  "sim_run 0 (map (\<lambda>i. (sim_event SIM_SOURCE pr fl (f i) v, sec i)) is)
     (sim_detector cfg \<lparr>sc_name = nm, sc_expect_ban = e, sc_protected = True, sc_events = evs\<rparr>) = None"
  by (rule sim_run_none) (use sim_protected [of "\<lparr>sc_name = nm, sc_expect_ban = e, sc_protected = True, sc_events = evs\<rparr>" cfg]
    in \<open>auto simp: list_all_iff sim_event_src\<close>)

definition as_expected :: "config \<Rightarrow> scenario \<Rightarrow> bool" where
  "as_expected cfg sc = ((sim_run 0 (sc_events sc) (sim_detector cfg sc) \<noteq> None) = sc_expect_ban sc)"

lemma report_ok: "rp_ok (detector_report cfg elapsed) \<longleftrightarrow> list_all (as_expected cfg) (scenarios cfg)"
  by (simp add: detector_report_def Let_def stat_def as_expected_def filter_empty_conv list_all_iff)

lemma attack_expects: "sc_expect_ban (attack nm e N ev sec) = e"
  by (simp add: attack_def)

text \<open>C35: with the default thresholds the detector test passes, whatever ports the config opens: the port scan, the connection flood, the
  UDP flood and the stealth scan are banned, a minute of normal use and a trusted source's scan are not.\<close>

theorem detector_test_passes:
  assumes "c_detector cfg = detector_default"
  shows "rp_ok (detector_report cfg elapsed)"
proof -
  obtain p where "scenarios cfg = scenario_shape p" using scenario_list by blast
  moreover have "list_all (as_expected cfg) (scenario_shape p)"
    unfolding scenario_shape_def list.pred_inject as_expected_def attack_expects scenario.simps
    by (simp only: attacks_banned [OF assms] normal_use_quiet [OF assms] trusted_quiet simp_thms list.pred_inject)
  ultimately show ?thesis by (simp only: report_ok)
qed

lemma detector_test_passes_witness: "rp_ok (detector_report shipped_config 1000000)"
  by (rule detector_test_passes) (simp add: shipped_config_def config_default_def)

end
