(* ===== verification/Assistant.thy ===== *)
theory Assistant
  imports Selftest
begin

text \<open>
  The assistant (src/ai-firewall/src/assistant.rs): the actions a model may propose and how they are read from its reply, which
  model server is asked, the facts it is given, and the stream of its answer. The server, JSON and LUNA's TOML file are parameters.
\<close>

section \<open>Actions\<close>

datatype ai_action = Fix string | Open string u16 | Close string u16 | Unban src | Test string

fun describe :: "ai_action \<Rightarrow> string" where
  "describe (Fix i) = opt_or (fix_summary i) i"
| "describe (Open p port) = ''open '' @ p @ '' port '' @ show_word port @ '' to everyone''"
| "describe (Close p port) = ''close '' @ p @ '' port '' @ show_word port"
| "describe (Unban ip) = ''lift the ban on '' @ show_src ip"
| "describe (Test name) = ''run the '' @ name @ '' test''"

fun args :: "ai_action \<Rightarrow> string list" where
  "args (Fix i) = [''fix'', i]"
| "args (Open p port) = [''open'', p, show_word port]"
| "args (Close p port) = [''close'', p, show_word port]"
| "args (Unban ip) = [''unban'', show_src ip]"
| "args (Test name) = [''test'', name]"

definition proto_word :: "string \<Rightarrow> string option" where
  "proto_word w =
     (let l = map lower w in if l = ''tcp'' then Some ''tcp'' else if l = ''udp'' then Some ''udp'' else None)"

definition parse_two :: "string \<Rightarrow> string \<Rightarrow> ai_action option" where
  "parse_two verb x =
     (if verb = ''fix'' then map_option (\<lambda>f. Fix (fx_id f)) (find (\<lambda>f. fx_id f = x) FIXES)
      else if verb = ''unban'' then map_option Unban (src_from_str x)
      else if verb = ''test'' then
        (if x = ''all'' then Some (Test ''all'') else map_option (\<lambda>t. Test (fst t)) (find (\<lambda>t. fst t = x) TESTS))
      else None)"

definition parse_three :: "string \<Rightarrow> string \<Rightarrow> string \<Rightarrow> ai_action option" where
  "parse_three verb p port =
     (if verb = ''open'' then do {
        p' \<leftarrow> proto_word p;
        n \<leftarrow> parse_u16 port;
        if 0 < n then Some (Open p' n) else None }
      else if verb = ''close'' then do {
        p' \<leftarrow> proto_word p;
        n \<leftarrow> parse_u16 port;
        Some (Close p' n) }
      else None)"

definition parse_action :: "string \<Rightarrow> ai_action option" where
  "parse_action text =
     (case split_whitespace text of
        [verb, x] \<Rightarrow> parse_two verb x
      | [verb, p, port] \<Rightarrow> parse_three verb p port
      | _ \<Rightarrow> None)"

definition is_markup :: "char \<Rightarrow> bool" where
  "is_markup c = (c = CHR ''*'' \<or> c = CHR ''`'' \<or> c = CHR ''-'')"

definition bare :: "string \<Rightarrow> string" where
  "bare line = trim (trim_by is_markup (trim line))"

definition action_line :: "string \<Rightarrow> ai_action option" where
  "action_line l =
     (let line = bare l in
      do {
        rest \<leftarrow> (case strip_prefix ''ACTION:'' line of Some r \<Rightarrow> Some r | None \<Rightarrow> strip_prefix ''Action:'' line);
        parse_action (trim_by (\<lambda>c. c = CHR ''`'') (trim rest))
      })"

definition parse_actions :: "string \<Rightarrow> ai_action list" where
  "parse_actions reply =
     fold (\<lambda>l out. case action_line l of Some a \<Rightarrow> if a \<in> set out then out else out @ [a] | None \<Rightarrow> out) (str_lines reply) []"

definition strip_actions :: "string \<Rightarrow> string" where
  "strip_actions reply =
     trim (join newline (filter (\<lambda>l. \<not> starts_with ''ACTION:'' (map upper (bare l))) (str_lines reply)))"

section \<open>Which model\<close>

definition PREFERRED :: "string list" where
  "PREFERRED =
    [''qwen3.5:4b'', ''qwen3.5:4b-q4_K_M'', ''qwen2.5:3b-instruct'', ''qwen2.5:3b'', ''llama3.2:3b'', ''qwen3:4b'',
     ''qwen2.5:7b-instruct'', ''qwen2.5:7b'', ''llama3.1:8b'', ''qwen3:8b'', ''llama3.2:1b'']"

record backend =
  be_host :: string
  be_model :: string
  be_via :: string

definition split_colons :: "string \<Rightarrow> string list" where
  "split_colons = split_on (\<lambda>c. c = CHR '':'')"

definition user_home :: "(string \<Rightarrow> string option) \<Rightarrow> bool \<Rightarrow> host \<Rightarrow> string option" where
  "user_home env as_root h =
     (case env ''SUDO_USER'' of
        Some user \<Rightarrow>
          if as_root then do {
            passwd \<leftarrow> h_files h ''/etc/passwd'';
            f \<leftarrow> find (\<lambda>f. 5 < length f \<and> f ! 0 = user) (map split_colons (str_lines passwd));
            Some (f ! 5)
          } else env ''HOME''
      | None \<Rightarrow> env ''HOME'')"

definition path_join :: "string \<Rightarrow> string \<Rightarrow> string" where
  "path_join a b = (if a = [] \<or> ends_with ''/'' a then a @ b else a @ ''/'' @ b)"

text \<open>\<open>toml\<close> reads the \<open>[llm]\<close> table of LUNA's file: its \<open>base_url\<close>, and its \<open>fast_model\<close> or \<open>model\<close>.\<close>

definition luna_settings ::
  "(string \<Rightarrow> (string \<times> string option) option) \<Rightarrow> (string \<Rightarrow> string option) \<Rightarrow> bool \<Rightarrow> host \<Rightarrow> (string \<times> string option) option" where
  "luna_settings toml env as_root h = do {
     home \<leftarrow> user_home env as_root h;
     text \<leftarrow> h_files h (path_join home ''.config/luna/luna.toml'');
     toml text
   }"

definition loopback_name :: "string \<Rightarrow> bool" where
  "loopback_name name = (name = ''localhost'' \<or> name = ''127.0.0.1'' \<or> name = ''::1'')"

definition host_name :: "string \<Rightarrow> string" where
  "host_name host =
     trim_by (\<lambda>c. c = CHR ''['' \<or> c = CHR '']'') (case rsplit_once (CHR '':'') host of Some (a, _) \<Rightarrow> a | None \<Rightarrow> host)"

text \<open>The host part of a URL.\<close>

definition url_host :: "string \<Rightarrow> string" where
  "url_host url = (case strip_prefix ''http://'' url of Some rest \<Rightarrow> takeWhile (\<lambda>c. c \<noteq> CHR ''/'') rest | None \<Rightarrow> [])"

definition local_host :: "string \<Rightarrow> string + string" where
  "local_host url =
     (case strip_prefix ''http://'' url of
        None \<Rightarrow> Inl ''only plain http:// to a local model is supported''
      | Some rest \<Rightarrow>
          let host = takeWhile (\<lambda>c. c \<noteq> CHR ''/'') rest in
          if \<not> loopback_name (host_name host) then
            Inl (url @ '' is not on this machine; the assistant only uses local models'')
          else Inr (if CHR '':'' \<in> set host \<and> \<not> ends_with '']'' host then host else host @ '':11434''))"

definition has_model :: "string list \<Rightarrow> string \<Rightarrow> bool" where
  "has_model installed m = list_ex (\<lambda>i. i = m \<or> strip_suffix '':latest'' i = Some m) installed"

definition pick_model :: "assistant_config \<Rightarrow> string option \<Rightarrow> string list \<Rightarrow> string + string" where
  "pick_model cfg luna_model installed =
     (if a_model cfg \<noteq> ''auto'' then Inr (a_model cfg)
      else case find (has_model installed) (take 2 PREFERRED) of Some m \<Rightarrow> Inr m
      | None \<Rightarrow> (case (case luna_model of Some m \<Rightarrow> if has_model installed m then Some m else None | None \<Rightarrow> None) of Some m \<Rightarrow> Inr m
      | None \<Rightarrow> (case find (has_model installed) PREFERRED of Some m \<Rightarrow> Inr m
      | None \<Rightarrow> (case find (\<lambda>m. \<not> contains_str ''vl'' m \<and> \<not> contains_str ''embed'' m \<and> \<not> contains_str ''llava'' m) installed of
            Some m \<Rightarrow> Inr m
          | None \<Rightarrow> Inl ''Ollama has no models; run `ollama pull qwen3.5:4b`''))))"

definition model_url :: "assistant_config \<Rightarrow> (string \<times> string option) option \<Rightarrow> string \<times> string" where
  "model_url cfg luna =
     (case (a_url cfg, luna) of
        (Some u, _) \<Rightarrow> (u, ''Ollama'')
      | (None, Some (u, _)) \<Rightarrow> (u, ''LUNA's model'')
      | (None, None) \<Rightarrow> (''http://localhost:11434'', ''Ollama''))"

text \<open>\<open>tags\<close> is what \<open>GET /api/tags\<close> at a host gives: nothing when it cannot be reached, or the names of the models.\<close>

definition detect ::
  "assistant_config \<Rightarrow> (string \<times> string option) option \<Rightarrow> (string \<Rightarrow> string list option) \<Rightarrow> string + backend" where
  "detect cfg luna tags =
     (if \<not> a_enabled cfg then Inl ''the assistant is turned off in the config ([assistant] enabled = false)''
      else
        let (url, via) = model_url cfg luna
        in case local_host url of
             Inl e \<Rightarrow> Inl e
           | Inr host \<Rightarrow>
               (case tags host of
                  None \<Rightarrow> Inl (''no model server at '' @ url @ ''; install Ollama and `ollama pull qwen3.5:4b`'')
                | Some installed \<Rightarrow>
                    (case pick_model cfg (Option.bind luna snd) installed of
                       Inl e \<Rightarrow> Inl e
                     | Inr model \<Rightarrow> Inr \<lparr>be_host = host, be_model = model, be_via = via\<rparr>)))"

section \<open>The facts the model gets\<close>

text \<open>\<open>{:?}\<close> of a list of strings.\<close>

definition dbg_char :: "char \<Rightarrow> string" where
  "dbg_char c =
     (let n = (of_char c :: nat); bs = char_of (92 :: nat) in
      if n = 34 \<or> n = 92 then [bs, c]
      else if n = 10 then [bs, CHR ''n''] else if n = 13 then [bs, CHR ''r''] else if n = 9 then [bs, CHR ''t''] else if n = 0 then [bs, CHR ''0'']
      else if n < 32 \<or> n = 127 then [bs] @ ''u{'' @ show_hex n @ ''}'' else [c])"

definition dbg_list :: "string list \<Rightarrow> string" where
  "dbg_list xs = ''['' @ join '', '' (map (\<lambda>x. quoted (concat (map dbg_char x))) xs) @ '']''"

fun severity_word :: "severity \<Rightarrow> string" where
  "severity_word Ok = ''ok''"
| "severity_word Info = ''info''"
| "severity_word Warn = ''WARN''"
| "severity_word Fail = ''FAIL''"

definition finding_line :: "finding \<Rightarrow> string" where
  "finding_line f =
     ''- ['' @ severity_word (fi_severity f) @ ''] '' @ fi_area f @ '': '' @ fi_title f @ '' ('' @ fi_detail f @ '')''
     @ (case fi_fix f of Some i \<Rightarrow> '' -> available: ACTION: fix '' @ i | None \<Rightarrow> []) @ newline"

definition status_text :: "status_view option \<Rightarrow> string" where
  "status_text st =
     (case st of
        Some v \<Rightarrow>
          ''mode '' @ vw_mode v @ '', guarding '' @ opt_or (vw_interface v) ''nothing'' @ '', UDP ''
          @ (if vw_udp_strict v then ''replies tracked (strict)'' else ''high ports open'') @ newline
          @ ''open tcp ports: '' @ dbg_list (vw_allow_tcp v) @ '', open udp ports: '' @ dbg_list (vw_allow_udp v) @ newline
          @ ''packets passed '' @ show_word (vw_passed v) @ '', dropped by policy '' @ show_word (vw_dropped_policy v)
          @ '', dropped from banned sources '' @ show_word (vw_dropped_blocklist v) @ newline
          @ show_nat (length (vw_bans v)) @ '' active bans:'' @ newline
          @ concat (map (\<lambda>b. ''- '' @ bv_ip b @ '' ('' @ bv_reason b @ '', '' @ duration (bv_remaining b) @ '' left, by '' @ bv_source b @ '')''
              @ newline) (take 15 (vw_bans v)))
      | None \<Rightarrow>
          ''the firewall daemon is not running, so ai-firewall blocks NOTHING right now: if traffic is blocked, ''
          @ ''the cause is elsewhere (another firewall such as ufw, nothing listening on the port, or the network)'' @ newline)"

definition WATCHED_UNITS :: "string list" where
  "WATCHED_UNITS =
    [''docker'', ''libvirtd'', ''virtnetworkd'', ''podman'', ''ufw'', ''firewalld'', ''NetworkManager'', ''systemd-resolved'']"

definition host_text :: "sys \<Rightarrow> string" where
  "host_text s =
     (let bridges = virt_bridges (sy_host s);
          forward = opt_or (h_files (sy_host s) ''/proc/sys/net/ipv4/ip_forward'') [];
          services = filter (unit_active s) WATCHED_UNITS
      in newline @ ''## Host'' @ newline
         @ ''VM / container bridges: '' @ (if bridges = [] then ''none'' else join '' '' bridges) @ newline
         @ ''IPv4 forwarding: '' @ (if trim forward = ''1'' then ''on'' else ''OFF'') @ newline
         @ ''running services: '' @ join '' '' services @ newline
         @ (if sy_root s then [] else
              ''NOTE: not running as root, so nftables rules and bans were NOT inspected. ''
              @ ''If the problem could be a firewall rule, tell the user to run `sudo ai-firewall top` (or `sudo ai-firewall ask ...`) ''
              @ ''so you can see them.'' @ newline)
         @ (if list_ex (starts_with ''virbr'') bridges \<and> ''docker'' \<in> set services then
              ''Known issue on this setup: Docker sets the FORWARD chain policy to drop, which cuts libvirt VMs off ''
              @ ''unless an exception exists. Whether it exists right now is unknown from here; applying the fix is harmless ''
              @ ''if it does -> available: ACTION: fix allow-vm-forwarding'' @ newline else []))"

definition log_text :: "sys \<Rightarrow> string" where
  "log_text s =
     (case sy_run s ''journalctl'' [''-u'', ''ai-firewall'', ''-n'', ''25'', ''--no-pager'', ''-o'', ''cat''] of
        Some l \<Rightarrow> if trim l = [] then [] else newline @ ''## Recent firewall log'' @ newline @ l
      | None \<Rightarrow> [])"

definition context_text :: "sys \<Rightarrow> string option" where
  "context_text s =
     map_option (\<lambda>fs.
       ''## Doctor findings'' @ newline @ concat (map finding_line fs)
       @ newline @ ''## Firewall status'' @ newline @ status_text (sy_status s)
       @ log_text s @ host_text s
       @ newline @ ''## Interfaces'' @ newline @ opt_or (sy_run s ''ip'' [''-brief'', ''address'']) [])
     (diagnose s)"

definition system_prompt :: "sys \<Rightarrow> string option" where
  "system_prompt s =
     map_option (\<lambda>facts.
       ''You are the help assistant built into ai-firewall, the firewall on this Arch Linux desktop. ''
       @ ''It replaced ufw. Inbound is denied unless a port is open; outbound is always allowed; sources that scan or ''
       @ ''flood get banned automatically for a while. You answer the user's questions about their network, VMs, ''
       @ ''containers and the firewall, using ONLY the facts below, which were collected just now.'' @ newline @ newline
       @ ''Rules:'' @ newline
       @ ''- Be short and concrete: what is wrong, why, and what to do. Plain text, no markdown headings.'' @ newline
       @ ''- If the facts don't explain the problem, say so and say what to check next.'' @ newline
       @ ''- You can propose actions, which the user confirms with one key. Put each on its own line, exactly like:'' @ newline
       @ ''ACTION: fix <id>            (one of: '' @ join '', '' (map fx_id FIXES) @ '')'' @ newline
       @ ''ACTION: open tcp <port>     (or udp) to accept incoming connections on a port'' @ newline
       @ ''ACTION: close tcp <port>'' @ newline
       @ ''ACTION: unban <address>'' @ newline
       @ ''ACTION: test <name>         (live test, read-only, runs at once; one of: all, ''
       @ join ''; '' (map (\<lambda>t. fst t @ '' = '' @ snd t) TESTS) @ '')'' @ newline
       @ ''- Propose only actions that the facts support. Never propose opening a port unless the user wants ''
       @ ''something on this machine to be reachable from outside.'' @ newline
       @ ''- Never tell the user to disable the firewall, and never invent other commands to run as root.'' @ newline
       @ ''- When the user asks to test, check or measure the firewall, or when live numbers would settle the question, ''
       @ ''propose a test instead of guessing. Test results come back to you as a message starting with '' @ quoted ''Live test results'' @ ''; ''
       @ ''then explain what they show in two or three sentences and propose actions only if a result failed.'' @ newline @ newline
       @ ''Example answer:'' @ newline
       @ ''Your VM is cut off because Docker sets the forward policy to drop, so traffic from virbr0 never leaves the machine. ''
       @ ''The fix adds an exception for virbr0 only: VMs can go out, and only replies come back in.'' @ newline
       @ ''ACTION: fix allow-vm-forwarding'' @ newline @ newline @ facts)
     (context_text s)"

section \<open>The stream of the answer\<close>

datatype think_state = Start | Thinking | Answer

record think_filter =
  tf_held :: string
  tf_state :: think_state

definition think_default :: think_filter where
  "think_default = \<lparr>tf_held = [], tf_state = Start\<rparr>"

abbreviation trim_start :: "string \<Rightarrow> string" where
  "trim_start \<equiv> trim_start_by is_ws"

abbreviation trim_end :: "string \<Rightarrow> string" where
  "trim_end \<equiv> trim_end_by is_ws"

definition think_close :: "think_filter \<Rightarrow> think_filter \<times> string" where
  "think_close f =
     (case split_str_once ''</think>'' (tf_held f) of
        Some (_, after) \<Rightarrow> (\<lparr>tf_held = [], tf_state = Answer\<rparr>, trim_start after)
      | None \<Rightarrow> (f\<lparr>tf_state := Thinking\<rparr>, []))"

definition think_push :: "string \<Rightarrow> think_filter \<Rightarrow> think_filter \<times> string" where
  "think_push piece f0 =
     (if tf_state f0 = Answer then (f0, piece)
      else
        let f = f0\<lparr>tf_held := tf_held f0 @ piece\<rparr>; t = trim_start (tf_held f) in
        if tf_state f = Start then
          if t = [] \<or> (length t < 7 \<and> starts_with t ''<think>'') then (f, [])
          else if \<not> starts_with ''<think>'' t then (\<lparr>tf_held = [], tf_state = Answer\<rparr>, t)
          else think_close f
        else think_close f)"

definition think_finish :: "think_filter \<Rightarrow> think_filter \<times> string" where
  "think_finish f = (if tf_state f = Answer then (f, []) else (f\<lparr>tf_held := []\<rparr>, trim (tf_held f)))"

text \<open>A line of the reply, as its JSON says: an error, a piece of the answer, whether it is the last.\<close>

record reply_line =
  rl_error :: "string option"
  rl_content :: "string option"
  rl_done :: bool

text \<open>The loop over the lines: what went through \<open>on_chunk\<close> so far, the filter, and how it ended. A line is what reading it gave.\<close>

fun ask_loop :: "(string \<Rightarrow> reply_line option) \<Rightarrow> (string + string) list \<Rightarrow> think_filter \<Rightarrow> think_filter \<times> string list \<times> (string + unit)" where
  "ask_loop json [] f = (f, [], Inr ())"
| "ask_loop json (Inl e # ls) f = (f, [], Inl e)"
| "ask_loop json (Inr l # ls) f =
     (case json l of
        None \<Rightarrow> ask_loop json ls f
      | Some v \<Rightarrow>
          (case rl_error v of
             Some e \<Rightarrow> (f, [], Inl e)
           | None \<Rightarrow>
               let (f1, shown) = (case rl_content v of Some piece \<Rightarrow> think_push piece f | None \<Rightarrow> (f, []));
                   chunk = (if shown = [] then [] else [shown])
               in if rl_done v then (f1, chunk, Inr ())
                  else (case ask_loop json ls f1 of (f2, chunks, r) \<Rightarrow> (f2, chunk @ chunks, r))))"

definition ask_stream :: "(string \<Rightarrow> reply_line option) \<Rightarrow> (string + string) list \<Rightarrow> string list \<times> (string + string)" where
  "ask_stream json ls =
     (case ask_loop json ls think_default of
        (_, chunks, Inl e) \<Rightarrow> (chunks, Inl e)
      | (f, chunks, Inr _) \<Rightarrow>
          let rest = snd (think_finish f); all = chunks @ (if rest = [] then [] else [rest]) in (all, Inr (concat all)))"

text \<open>The request: to which host, which model, the messages. \<open>server\<close> answers it with the lines of the reply or an error.\<close>

record request =
  rq_host :: string
  rq_model :: string
  rq_messages :: "(string \<times> string) list"

definition ask ::
  "(string \<Rightarrow> reply_line option) \<Rightarrow> (request \<Rightarrow> string + (string + string) list) \<Rightarrow> sys \<Rightarrow> backend \<Rightarrow> (string \<times> string) list
   \<Rightarrow> (string list \<times> (string + string)) option" where
  "ask json server s b history =
     map_option (\<lambda>prompt.
       case server \<lparr>rq_host = be_host b, rq_model = be_model b, rq_messages = (''system'', prompt) # history\<rparr> of
         Inl e \<Rightarrow> ([], Inl (be_model b @ '' ('' @ be_host b @ ''): '' @ e))
       | Inr ls \<Rightarrow> ask_stream json ls)
     (system_prompt s)"

section \<open>Without a model\<close>

text \<open>The bullet is U+2022, as UTF-8.\<close>

definition bullet :: string where
  "bullet = [char_of (0xE2 :: nat), char_of (0x80 :: nat), char_of (0xA2 :: nat)] @ '' ''"

definition offline_answer :: "sys \<Rightarrow> (string \<times> ai_action list) option" where
  "offline_answer s =
     map_option (\<lambda>findings.
       let fs = filter (\<lambda>f. Warn \<le> fi_severity f) findings;
           t = concat (map (\<lambda>f. bullet @ fi_title f @ '': '' @ fi_detail f @ newline) fs);
           t' = (if t = [] then ''The doctor found nothing wrong.'' else t)
       in (trim_end t', List.map_filter (\<lambda>f. map_option Fix (fi_fix f)) fs))
     (diagnose s)"

definition load_assistant :: "(string \<Rightarrow> error + config) \<Rightarrow> fsys \<Rightarrow> assistant_config" where
  "load_assistant toml fs =
     (case files fs DEFAULT_PATH of
        None \<Rightarrow> assistant_default
      | Some t \<Rightarrow> (case parse_config toml t of Inl _ \<Rightarrow> assistant_default | Inr c \<Rightarrow> c_assistant c))"

section \<open>Only what is on the list\<close>

text \<open>What may be proposed: a fix of the doctor, a tcp or udp port, opened only when it is a port, a ban, a live test.\<close>

fun allowed :: "ai_action \<Rightarrow> bool" where
  "allowed (Fix i) = (i \<in> set fix_ids)"
| "allowed (Open p port) = ((p = ''tcp'' \<or> p = ''udp'') \<and> 0 < port)"
| "allowed (Close p port) = (p = ''tcp'' \<or> p = ''udp'')"
| "allowed (Unban ip) = True"
| "allowed (Test name) = is_test name"

lemma proto_word_Some: "proto_word w = Some p \<Longrightarrow> p = ''tcp'' \<or> p = ''udp''"
  by (auto simp: proto_word_def Let_def split: if_splits)

lemma find_SomeD: "find p xs = Some x \<Longrightarrow> x \<in> set xs \<and> p x"
  by (auto simp: find_Some_iff)

lemma test_listed: "(n, what) \<in> set TESTS \<Longrightarrow> is_test n"
  unfolding is_test_def list_ex_iff by (metis fst_conv)

lemma fix_listed: "f \<in> set FIXES \<Longrightarrow> fx_id f \<in> set fix_ids"
  by (simp add: fix_ids_def)

lemma parse_two_allowed: "parse_two verb x = Some a \<Longrightarrow> allowed a"
  by (auto simp: parse_two_def is_test_def [of "''all''"] simp del: split_paired_Ex split: if_splits
    dest!: find_SomeD intro: test_listed fix_listed)

lemma parse_three_allowed: "parse_three verb p port = Some a \<Longrightarrow> allowed a"
  by (auto simp: parse_three_def bind_eq_Some_conv dest!: proto_word_Some split: if_splits)

lemma parse_action_allowed: "parse_action t = Some a \<Longrightarrow> allowed a"
  by (auto simp: parse_action_def dest: parse_two_allowed parse_three_allowed split: list.splits)

lemma action_line_allowed: "action_line l = Some a \<Longrightarrow> allowed a"
  by (auto simp: action_line_def Let_def bind_eq_Some_conv dest: parse_action_allowed split: option.splits)

lemma collect_actions:
  assumes "distinct out"
  shows "distinct (fold (\<lambda>l out. case action_line l of Some a \<Rightarrow> if a \<in> set out then out else out @ [a] | None \<Rightarrow> out) ls out)
    \<and> set (fold (\<lambda>l out. case action_line l of Some a \<Rightarrow> if a \<in> set out then out else out @ [a] | None \<Rightarrow> out) ls out)
      = set out \<union> {a. \<exists>l \<in> set ls. action_line l = Some a}"
  using assms
proof (induction ls arbitrary: out)
  case (Cons l ls)
  then show ?case by (cases "action_line l") (auto split: if_splits)
qed simp

lemma parse_actions_set: "set (parse_actions reply) = {a. \<exists>l \<in> set (str_lines reply). action_line l = Some a}"
  and parse_actions_distinct: "distinct (parse_actions reply)"
  using collect_actions [of "[]" "str_lines reply"] by (simp_all add: parse_actions_def)

lemma parse_actions_allowed: "list_all allowed (parse_actions reply)"
  by (auto simp: list_all_iff parse_actions_set dest: action_line_allowed)

lemma offline_allowed: "offline_answer s = Some (t, acts) \<Longrightarrow> list_all allowed acts"
proof -
  assume "offline_answer s = Some (t, acts)"
  then obtain fs where fs: "diagnose s = Some fs" "set acts \<subseteq> {Fix i | i f. f \<in> set fs \<and> fi_fix f = Some i}"
    by (fastforce simp: offline_answer_def Let_def set_map_filter)
  have "list_all fixable fs" by (rule diagnose_fixable [OF fs(1)])
  then have "i \<in> set fix_ids" if "f \<in> set fs" "fi_fix f = Some i" for i f
    using that by (auto simp: list_all_iff fixable_def dest!: bspec)
  then show ?thesis using fs(2) by (auto simp: list_all_iff)
qed

text \<open>C30: whatever a model replies, only actions on the list come out of it, each once. Every action offered without a model, for what the
  doctor found, is on the list too; there the same fix can come up more than once, once for each finding.\<close>

theorem only_allowed_actions:
  "list_all allowed (parse_actions reply) \<and> distinct (parse_actions reply)
   \<and> pred_option (\<lambda>(_, acts). list_all allowed acts) (offline_answer s)"
  using parse_actions_allowed parse_actions_distinct offline_allowed [of s]
  by (auto simp: option.pred_set)

section \<open>An action survives its arguments\<close>

lemma is_word_tests: "list_all (\<lambda>t. is_word (fst t)) TESTS" "list_all is_word fix_ids"
  by (simp_all add: TESTS_def fix_ids_eq is_word_def is_ws_def)

lemma word_of_show: "is_word (show_word w)"
  using show_nat_digits [of "unat w"] digit_not_ws by (auto simp: is_word_def show_word_def list_all_iff)

lemma src_word: "is_word (show_src a)"
proof (cases a)
  case (V4 ip)
  have "c \<noteq> CHR ''/'' \<and> \<not> is_ws c" if "c \<in> set (show_ipv4 ip)" for c
  proof -
    from that obtain n where "c = CHR ''.'' \<or> c \<in> set (show_nat n)" by (auto simp: show_ipv4_def ip_octets_eq)
    then show ?thesis using show_nat_chars [of c n] by (auto simp: is_ws_def)
  qed
  moreover have "show_ipv4 ip \<noteq> []" by (simp add: show_ipv4_def ip_octets_eq)
  ultimately show ?thesis by (auto simp: V4 is_word_def list_all_iff)
next
  case (V6 p)
  obtain gs where "show_ipv6 (prefix_segments p) = show_groups gs @ ''::''" by (rule show_prefix)
  moreover have "\<not> is_ws c" if "c \<in> set (show_groups gs)" for c using that groups_chars(2) [of c gs] by (auto simp: is_ws_def)
  ultimately show ?thesis by (auto simp: V6 is_word_def list_all_iff is_ws_def)
qed

lemma allowed_words: "allowed a \<Longrightarrow> list_all is_word (args a)"
  using is_word_tests word_of_show src_word
  by (cases a) (auto simp: list_all_iff is_test_def list_ex_iff, auto simp: is_word_def is_ws_def)

lemma find_fix:
  assumes "i \<in> set fix_ids" shows "\<exists>f. find (\<lambda>f. fx_id f = i) FIXES = Some f \<and> fx_id f = i"
proof (cases "find (\<lambda>f. fx_id f = i) FIXES")
  case None
  then show ?thesis using assms by (auto simp: find_None_iff fix_ids_def)
next
  case (Some f)
  have "fx_id f = i" using find_SomeD [OF Some] ..
  with Some show ?thesis by blast
qed

lemma find_test:
  assumes "is_test n" shows "n = ''all'' \<or> (\<exists>t. find (\<lambda>t. fst t = n) TESTS = Some t \<and> fst t = n)"
proof (cases "find (\<lambda>t. fst t = n) TESTS")
  case None
  then show ?thesis using assms by (auto simp: find_None_iff is_test_def list_ex_iff simp del: split_paired_Ex)
next
  case (Some t)
  have "fst t = n" using find_SomeD [OF Some] ..
  with Some show ?thesis by blast
qed

lemma proto_word_id: "p = ''tcp'' \<or> p = ''udp'' \<Longrightarrow> proto_word p = Some p"
  by (auto simp: proto_word_def lower_def)

lemma parse_action_args: "allowed a \<Longrightarrow> parse_action (join '' '' (args a)) = Some a"
proof -
  assume a: "allowed a"
  have w: "split_whitespace (join '' '' (args a)) = args a" by (rule split_whitespace_join [OF allowed_words [OF a]])
  show ?thesis
  proof (cases a)
    case (Fix i) then show ?thesis using a w find_fix [of i] by (auto simp: parse_action_def parse_two_def)
  next
    case (Test n) then show ?thesis using a w find_test [of n] by (auto simp: parse_action_def parse_two_def)
  next
    case (Unban ip) then show ?thesis using w src_of_show [of ip] by (simp add: parse_action_def parse_two_def)
  next
    case (Open p n) then show ?thesis using a w proto_word_id [of p] parse_u16_show [of n] by (simp add: parse_action_def parse_three_def)
  next
    case (Close p n) then show ?thesis using a w proto_word_id [of p] parse_u16_show [of n] by (simp add: parse_action_def parse_three_def)
  qed
qed

lemma join_ends:
  "xs \<noteq> [] \<Longrightarrow> hd xs \<noteq> [] \<Longrightarrow> join sep xs \<noteq> [] \<and> hd (join sep xs) = hd (hd xs)"
  "xs \<noteq> [] \<Longrightarrow> last xs \<noteq> [] \<Longrightarrow> last (join sep xs) = last (last xs)"
proof -
  show "xs \<noteq> [] \<Longrightarrow> hd xs \<noteq> [] \<Longrightarrow> join sep xs \<noteq> [] \<and> hd (join sep xs) = hd (hd xs)"
    by (cases xs; cases "tl xs") auto
  have "ys \<noteq> [] \<Longrightarrow> last ys \<noteq> [] \<Longrightarrow> join sep ys \<noteq> [] \<and> last (join sep ys) = last (last ys)" for ys
    by (induction sep ys rule: join.induct) auto
  then show "xs \<noteq> [] \<Longrightarrow> last xs \<noteq> [] \<Longrightarrow> last (join sep xs) = last (last xs)" by blast
qed

lemma clean_join: "clean_line sep \<Longrightarrow> list_all clean_line ws \<Longrightarrow> clean_line (join sep ws)"
  by (induction sep ws rule: join.induct) (simp_all add: clean_line_def)

lemma no_ws_clean: "(of_char c :: nat) = 10 \<Longrightarrow> is_ws c" "(of_char c :: nat) = 13 \<Longrightarrow> is_ws c"
  by (simp_all add: is_ws_def)

lemma word_clean: "is_word w \<Longrightarrow> clean_line w"
  unfolding clean_line_def is_word_def list_all_iff using no_ws_clean by blast

lemma is_markup_digit: "is_digit c \<Longrightarrow> \<not> is_markup c"
  by (auto simp: is_digit_def is_markup_def)

lemma show_word_last: "\<not> is_markup (last (show_word w))"
  using show_nat_digits [of "unat w"] last_in_set is_markup_digit by (metis list_all_iff show_word_def)

lemma show_src_last: "\<not> is_markup (last (show_src a))"
proof (cases a)
  case (V4 ip)
  have d: "\<not> is_markup (last (show_nat n))" "show_nat n \<noteq> []" for n
    using show_nat_digits [of n] last_in_set [of "show_nat n"] is_markup_digit by (auto simp: list_all_iff)
  show ?thesis using d by (simp add: V4 show_ipv4_def ip_octets_eq)
qed (simp add: is_markup_def)

lemma args_last: "allowed a \<Longrightarrow> \<not> is_markup (last (last (args a)))"
proof (induction a rule: allowed.induct)
  case (1 i)
  then show ?case by (auto simp: fix_ids_eq is_markup_def)
next
  case (5 name)
  then show ?case by (auto simp: is_test_def TESTS_def is_markup_def)
qed (simp_all add: show_word_last show_src_last)

lemma args_hd: "hd (args a) \<noteq> [] \<and> \<not> is_markup (hd (hd (args a)))"
  by (cases a) (simp_all add: is_markup_def)

lemma action_line_args:
  assumes "allowed a"
  shows "action_line (''ACTION: '' @ join '' '' (args a)) = Some a" "clean_line (''ACTION: '' @ join '' '' (args a))"
proof -
  let ?t = "join '' '' (args a)"
  have w: "list_all is_word (args a)" by (rule allowed_words [OF assms])
  have ne: "args a \<noteq> []" by (cases a) simp_all
  then have words: "is_word (hd (args a))" "is_word (last (args a))" using w by (simp_all add: list_all_iff)
  then have t: "?t \<noteq> []" "hd ?t = hd (hd (args a))" "last ?t = last (last (args a))"
    using join_ends [OF ne] by (auto simp: is_word_def)
  have ws: "\<not> is_ws (hd ?t)" "\<not> is_ws (last ?t)" using words by (auto simp: t is_word_def list_all_iff)
  have mk: "\<not> is_markup (hd ?t)" "\<not> is_markup (last ?t)" using args_hd [of a] args_last [OF assms] by (simp_all add: t)
  then have bt: "hd ?t \<noteq> CHR ''`''" "last ?t \<noteq> CHR ''`''" by (auto simp: is_markup_def)
  have "trimmed (''ACTION: '' @ ?t)" using t(1) ws by (simp add: trimmed_def is_ws_def)
  then have "trim (''ACTION: '' @ ?t) = ''ACTION: '' @ ?t" by (rule trim_trimmed)
  moreover have "trim_by is_markup (''ACTION: '' @ ?t) = ''ACTION: '' @ ?t" using t(1) mk by (intro trim_by_keep) (simp_all add: is_markup_def)
  ultimately have "bare (''ACTION: '' @ ?t) = ''ACTION: '' @ ?t" by (simp add: bare_def)
  moreover have "trim ('' '' @ ?t) = ?t" using t(1) ws by (intro trim_indent) (simp_all add: trimmed_def is_ws_def)
  moreover have "trim_by (\<lambda>c. c = CHR ''`'') ?t = ?t" using t(1) bt by (intro trim_by_keep) simp_all
  ultimately show "action_line (''ACTION: '' @ ?t) = Some a"
    using parse_action_args [OF assms] by (simp add: action_line_def strip_prefix_def starts_with_def)
  show "clean_line (''ACTION: '' @ ?t)" using clean_join [of "'' ''" "args a"] w word_clean
    by (auto simp: list_all_iff clean_line_def)
qed

text \<open>C34: an allowed action is read back from its own command line: the line \<open>ACTION:\<close> followed by the arguments that carry it out proposes
  exactly that action.\<close>

theorem action_round_trip:
  assumes "list_all allowed acts" "distinct acts"
  shows "parse_actions (unlines (map (\<lambda>a. ''ACTION: '' @ join '' '' (args a)) acts)) = acts"
proof -
  let ?ls = "map (\<lambda>a. ''ACTION: '' @ join '' '' (args a)) acts"
  have "list_all clean_line ?ls" using assms(1) action_line_args(2) by (auto simp: list_all_iff simp del: append.simps)
  then have lines: "str_lines (unlines ?ls) = ?ls" by (rule str_lines_unlines)
  have "fold (\<lambda>l out. case action_line l of Some a \<Rightarrow> if a \<in> set out then out else out @ [a] | None \<Rightarrow> out)
      (map (\<lambda>a. ''ACTION: '' @ join '' '' (args a)) bs) out = out @ bs"
    if "list_all allowed bs" "distinct (out @ bs)" for bs out
    using that
  proof (induction bs arbitrary: out)
    case (Cons b bs)
    then show ?case using action_line_args(1) [of b] by auto
  qed simp
  from this [of acts "[]"] assms show ?thesis unfolding parse_actions_def lines by simp
qed

lemma action_round_trip_witness:
  "parse_actions (unlines (map (\<lambda>a. ''ACTION: '' @ join '' '' (args a)) [Open ''tcp'' 22, Unban (V4 0x0a000001), Test ''all'']))
    = [Open ''tcp'' 22, Unban (V4 0x0a000001), Test ''all'']"
  by (rule action_round_trip) (simp_all add: is_test_def)

section \<open>The shown answer does not depend on how it was cut\<close>

text \<open>What is shown of a whole text: without a leading block of thought, or as it is when the block is not closed or only begun.\<close>

definition think_spec :: "string \<Rightarrow> string" where
  "think_spec answer =
     (let t = trim_start answer in
      if starts_with ''<think>'' t then
        (case split_str_once ''</think>'' answer of Some (_, after) \<Rightarrow> trim_start after | None \<Rightarrow> trim answer)
      else if length t < 7 \<and> starts_with t ''<think>'' then trim answer else t)"

lemma starts_with_append: "starts_with p s \<Longrightarrow> starts_with p (s @ r)"
proof -
  assume p: "starts_with p s"
  then have "length p \<le> length s" by (simp add: starts_with_def) (metis length_take min.cobounded2 min.commute)
  with p show ?thesis by (simp add: starts_with_def)
qed

lemma starts_with_long: "length p \<le> length s \<Longrightarrow> starts_with p (s @ r) \<longleftrightarrow> starts_with p s"
  by (simp add: starts_with_def)

lemma starts_with_short: "starts_with p (s @ r) \<Longrightarrow> length s \<le> length p \<Longrightarrow> starts_with s p"
proof -
  assume a: "starts_with p (s @ r)" "length s \<le> length p"
  then have "take (length s) p = take (length s) (take (length p) (s @ r))" by (simp add: starts_with_def)
  then show ?thesis using a(2) by (simp add: starts_with_def min_def)
qed

lemma starts_with_prefix: "starts_with (a @ b) s \<Longrightarrow> starts_with a s"
proof -
  assume "starts_with (a @ b) s"
  then have "take (length a) (take (length (a @ b)) s) = a" by (simp add: starts_with_def)
  then show ?thesis by (simp add: starts_with_def min_def)
qed

lemma split_str_once_length: "split_str_once p s = Some (a, b) \<Longrightarrow> length p \<le> length s"
  using split_str_once_Some [of p s a b] by simp

lemma split_str_once_more: "p \<noteq> [] \<Longrightarrow> split_str_once p s = Some (a, b) \<Longrightarrow> split_str_once p (s @ r) = Some (a, b @ r)"
proof (induction p s arbitrary: a b rule: split_str_once.induct)
  case (2 p c cs)
  show ?case
  proof (cases "starts_with p (c # cs)")
    case True
    then have "length p \<le> length (c # cs)" by (simp add: starts_with_def) (metis length_Cons length_take min.cobounded1)
    then have "drop (length p) (c # cs @ r) = drop (length p) (c # cs) @ r" using drop_append [of "length p" "c # cs" r] by simp
    then show ?thesis using True 2 starts_with_append [of p "c # cs" r] by auto
  next
    case False
    then obtain a' where r: "split_str_once p cs = Some (a', b)" "a = c # a'" using 2 by auto
    then have "\<not> starts_with p ((c # cs) @ r)" using split_str_once_length [OF r(1)] False starts_with_long [of p "c # cs" r] by simp
    then show ?thesis using 2(1) [OF False 2(2) r(1)] r(2) by simp
  qed
qed simp

lemma trim_start_more: "trim_start s \<noteq> [] \<Longrightarrow> trim_start (s @ r) = trim_start s @ r"
  by (induction s) (auto simp: trim_start_by_def)

lemma trim_start_idem: "trim_start (trim_start s @ r) = trim_start (s @ r)"
  by (induction s) (auto simp: trim_start_by_def)

lemma trim_start_trim: "trim_start (trim s) = trim s"
proof (cases "trim_start s")
  case (Cons c r)
  then have "\<not> is_ws c" by (simp add: trim_start_by_def dropWhile_eq_Cons_conv)
  then have "trim s \<noteq> [] \<and> hd (trim s) = c"
    unfolding trim_def trim_by_def Cons trim_end_by_def by (simp add: dropWhile_append)
  with \<open>\<not> is_ws c\<close> show ?thesis by (simp add: trim_start_by_def dropWhile_keeps)
next
  case Nil
  then show ?thesis by (simp add: trim_def trim_by_def trim_end_by_def) (simp add: trim_start_by_def)
qed

text \<open>The filter after the text \<open>T\<close>, of which \<open>out\<close> was shown.\<close>

fun filter_inv :: "string \<Rightarrow> think_filter \<Rightarrow> string \<Rightarrow> bool" where
  "filter_inv T f out =
     (case tf_state f of
        Start \<Rightarrow> out = [] \<and> tf_held f = T \<and> length (trim_start T) < 7 \<and> starts_with (trim_start T) ''<think>''
      | Thinking \<Rightarrow> out = [] \<and> tf_held f = T \<and> starts_with ''<think>'' (trim_start T) \<and> split_str_once ''</think>'' T = None
      | Answer \<Rightarrow> \<forall>rest. trim_start (out @ rest) = think_spec (T @ rest))"

lemma close_inv:
  assumes "tf_held f = T" "starts_with ''<think>'' (trim_start T)"
  shows "filter_inv T (fst (think_close f)) (snd (think_close f))"
proof (cases "split_str_once ''</think>'' T")
  case None
  then show ?thesis using assms by (simp add: think_close_def)
next
  case (Some ab)
  obtain a b where ab: "ab = (a, b)" by (cases ab)
  have "think_spec (T @ rest) = trim_start (b @ rest)" for rest
  proof -
    have "starts_with ''<think>'' (trim_start (T @ rest))"
      using assms(2) starts_with_append [of "''<think>''" "trim_start T" rest] trim_start_more [of T rest]
      by (cases "trim_start T = []") (simp_all add: starts_with_def)
    then show ?thesis using split_str_once_more [of "''</think>''" T a b rest] Some ab by (simp add: think_spec_def)
  qed
  then show ?thesis using Some ab assms(1) by (simp add: think_close_def trim_start_idem)
qed

lemma answer_inv:
  assumes "trim_start T \<noteq> []" "\<not> (length (trim_start T) < 7 \<and> starts_with (trim_start T) ''<think>'')" "\<not> starts_with ''<think>'' (trim_start T)"
  shows "trim_start (trim_start T @ rest) = think_spec (T @ rest)"
proof -
  let ?t = "trim_start T"
  have m: "trim_start (T @ rest) = ?t @ rest" by (rule trim_start_more [OF assms(1)])
  have n: "\<not> starts_with ''<think>'' (?t @ rest)"
    using assms(2,3) starts_with_long [of "''<think>''" ?t rest] starts_with_short [of "''<think>''" ?t rest] by (cases "length ?t < 7") auto
  have "\<not> (length (?t @ rest) < 7 \<and> starts_with (?t @ rest) ''<think>'')"
  proof
    assume s: "length (?t @ rest) < 7 \<and> starts_with (?t @ rest) ''<think>''"
    then have "starts_with ?t ''<think>''" by (auto intro: starts_with_prefix)
    then show False using assms(2) s by simp
  qed
  then show ?thesis using m n by (auto simp: think_spec_def trim_start_idem Let_def)
qed

lemma push_inv:
  assumes "filter_inv T f out"
  shows "filter_inv (T @ piece) (fst (think_push piece f)) (out @ snd (think_push piece f))"
proof (cases "tf_state f")
  case Answer
  then show ?thesis using assms by (simp add: think_push_def)
next
  case Thinking
  then have "starts_with ''<think>'' (trim_start (T @ piece))"
    using assms starts_with_append [of "''<think>''" "trim_start T" piece] trim_start_more [of T piece]
    by (cases "trim_start T = []") (simp_all add: starts_with_def)
  moreover have "out = []" "tf_held f = T" using Thinking assms by simp_all
  ultimately show ?thesis using close_inv [of "f\<lparr>tf_held := tf_held f @ piece\<rparr>" "T @ piece"] Thinking
    by (simp add: think_push_def del: filter_inv.simps)
next
  case Start
  let ?t = "trim_start (T @ piece)"
  consider "?t = [] \<or> (length ?t < 7 \<and> starts_with ?t ''<think>'')"
    | "?t \<noteq> []" "\<not> (length ?t < 7 \<and> starts_with ?t ''<think>'')" "\<not> starts_with ''<think>'' ?t"
    | "?t \<noteq> []" "\<not> (length ?t < 7 \<and> starts_with ?t ''<think>'')" "starts_with ''<think>'' ?t" by blast
  then show ?thesis
  proof cases
    case 1
    then show ?thesis using Start assms by (auto simp: think_push_def Let_def starts_with_def)
  next
    case 2
    then show ?thesis using Start assms answer_inv [OF 2] by (auto simp: think_push_def Let_def)
  next
    case 3
    moreover have "out = []" "tf_held f = T" using Start assms by simp_all
    ultimately show ?thesis using close_inv [of "f\<lparr>tf_held := tf_held f @ piece\<rparr>" "T @ piece"] Start
      by (auto simp: think_push_def Let_def simp del: filter_inv.simps)
  qed
qed

lemma finish_inv: "filter_inv T f out \<Longrightarrow> trim_start (out @ snd (think_finish f)) = think_spec T"
proof (cases "tf_state f")
  case Answer
  assume "filter_inv T f out"
  then show ?thesis using Answer by (simp add: think_finish_def) (metis append_Nil2)
next
  case Start
  assume a: "filter_inv T f out"
  then have "\<not> starts_with ''<think>'' (trim_start T)" using Start by (auto simp: starts_with_def)
  then show ?thesis using a Start by (simp add: think_finish_def think_spec_def trim_start_trim)
next
  case Thinking
  assume "filter_inv T f out"
  then show ?thesis using Thinking by (simp add: think_finish_def think_spec_def trim_start_trim)
qed

text \<open>The pieces of the answer in a reply without errors, up to the line that says it is done.\<close>

fun contents :: "(string \<Rightarrow> reply_line option) \<Rightarrow> (string + string) list \<Rightarrow> string list option" where
  "contents json [] = Some []"
| "contents json (Inl e # ls) = None"
| "contents json (Inr l # ls) =
     (case json l of
        None \<Rightarrow> contents json ls
      | Some v \<Rightarrow>
          if rl_error v \<noteq> None then None
          else let p = (case rl_content v of Some piece \<Rightarrow> [piece] | None \<Rightarrow> [])
               in if rl_done v then Some p else map_option ((@) p) (contents json ls))"

lemma ask_loop_inv:
  "filter_inv T f out \<Longrightarrow> contents json ls = Some ps \<Longrightarrow>
   \<exists>f' chunks. ask_loop json ls f = (f', chunks, Inr ()) \<and> filter_inv (T @ concat ps) f' (out @ concat chunks) \<and> [] \<notin> set chunks"
proof (induction json ls f arbitrary: T out ps rule: ask_loop.induct)
  case (1 json f)
  then show ?case by (auto split: think_state.splits)
next
  case (3 json l ls f)
  show ?case
  proof (cases "json l")
    case None
    then show ?thesis using 3 by simp
  next
    case (Some v)
    let ?r = "case rl_content v of Some piece \<Rightarrow> think_push piece f | None \<Rightarrow> (f, [])"
    let ?p = "case rl_content v of Some piece \<Rightarrow> [piece] | None \<Rightarrow> []"
    obtain f1 shown where r: "?r = (f1, shown)" by (cases ?r)
    have e: "rl_error v = None" using 3(4) Some by (auto split: if_splits)
    have i: "filter_inv (T @ concat ?p) f1 (out @ shown)"
    proof (cases "rl_content v")
      case (Some piece)
      with r push_inv [OF 3(3), of piece] show ?thesis by simp
    qed (use r 3(3) in auto)
    show ?thesis
    proof (cases "rl_done v")
      case True
      then have "ps = ?p" using 3(4) Some e by simp
      then show ?thesis using True Some e r i by (cases "shown = []") (simp_all add: Let_def del: filter_inv.simps)
    next
      case False
      then obtain qs where qs: "contents json ls = Some qs" "ps = ?p @ qs" using 3(4) Some e by auto
      obtain f' chunks where c: "ask_loop json ls f1 = (f', chunks, Inr ())" "[] \<notin> set chunks"
        "filter_inv ((T @ concat ?p) @ concat qs) f' ((out @ shown) @ concat chunks)"
        using 3(2) [OF Some e r [symmetric] refl refl False i qs(1)] by blast
      then show ?thesis using False Some e r qs(2) by (auto simp: Let_def simp del: filter_inv.simps)
    qed
  qed
qed simp

text \<open>C31: however the server cuts its answer into pieces, and wherever it puts the marks of a block of thought, what is shown is the answer
  of the whole text (up to white space in front): the chunks that were shown one by one make up the reply that is returned, none of them
  is empty, and nothing of the thought is among them.\<close>

theorem answer_independent_of_pieces:
  assumes "contents json ls = Some ps"
  shows "\<exists>chunks full. ask_stream json ls = (chunks, Inr full) \<and> full = concat chunks \<and> [] \<notin> set chunks
    \<and> trim_start full = think_spec (concat ps)"
proof -
  have "filter_inv [] think_default []" by (simp add: think_default_def trim_start_by_def starts_with_def)
  from ask_loop_inv [OF this assms] obtain f chunks where l: "ask_loop json ls think_default = (f, chunks, Inr ())"
    "filter_inv (concat ps) f (concat chunks)" "[] \<notin> set chunks" by auto
  then show ?thesis using finish_inv [OF l(2)] by (auto simp: ask_stream_def Let_def simp del: filter_inv.simps)
qed

definition demo_json :: "string \<Rightarrow> reply_line option" where
  "demo_json l = (if l = [] then None else Some \<lparr>rl_error = None, rl_content = Some (tl l), rl_done = (hd l = CHR ''!'')\<rparr>)"

lemma answer_independent_of_pieces_witness:
  "\<exists>chunks full. ask_stream demo_json [Inr ''-<thi'', Inr [], Inr ''-nk>hmm'', Inr ''!</think> All good.''] = (chunks, Inr full)
    \<and> trim_start full = ''All good.''"
proof -
  have "think_spec ''<think>hmm</think> All good.'' = ''All good.''"
    by (simp add: think_spec_def trim_start_by_def starts_with_def is_ws_def)
  then show ?thesis
    using answer_independent_of_pieces [of demo_json "[Inr ''-<thi'', Inr [], Inr ''-nk>hmm'', Inr ''!</think> All good.'']"]
    by (auto simp: demo_json_def)
qed

section \<open>What is shown proposes nothing\<close>

lemma trim_Nil: "trim [] = []"
  by (simp add: trim_def trim_by_def trim_start_by_def trim_end_by_def)

lemma trim_ws_Cons: "is_ws c \<Longrightarrow> trim (c # l) = trim l"
  by (simp add: trim_def trim_by_def trim_start_by_def)

lemma trim_ws_snoc:
  assumes "is_ws c" shows "trim (l @ [c]) = trim l"
proof (cases "\<forall>x \<in> set l. is_ws x")
  case True
  then have "dropWhile is_ws l = []" "dropWhile is_ws (l @ [c]) = []" using assms by simp_all
  then show ?thesis by (simp only: trim_def trim_by_def trim_start_by_def)
next
  case False
  then have "dropWhile is_ws (l @ [c]) = dropWhile is_ws l @ [c]" by (auto simp: dropWhile_append1)
  then show ?thesis using assms by (simp add: trim_def trim_by_def trim_start_by_def trim_end_by_def)
qed

lemma split_on_trim_start:
  "trim ` set (split_on p (dropWhile is_ws s)) \<subseteq> insert [] (trim ` set (split_on p s))"
proof (induction s)
  case (Cons c s)
  show ?case
  proof (cases "is_ws c")
    case True
    then have "trim ` set (split_on p s) \<subseteq> insert [] (trim ` set (split_on p (c # s)))"
      by (auto simp: trim_ws_Cons split: list.splits)
    moreover have "dropWhile is_ws (c # s) = dropWhile is_ws s" using True by simp
    ultimately show ?thesis using Cons.IH by (simp only:) blast
  qed auto
qed simp

lemma split_on_snoc:
  "split_on p (s @ [c]) = (if p c then split_on p s @ [[]] else butlast (split_on p s) @ [last (split_on p s) @ [c]])"
  by (induction s) (auto split: list.splits)

lemma split_on_trim_end:
  "trim ` set (split_on p (rev (dropWhile is_ws (rev s)))) \<subseteq> insert [] (trim ` set (split_on p s))"
proof (induction s rule: rev_induct)
  case (snoc c s)
  show ?case
  proof (cases "is_ws c")
    case True
    have "set (split_on p s) = insert (last (split_on p s)) (set (butlast (split_on p s)))"
      using set_append [of "butlast (split_on p s)" "[last (split_on p s)]"] by simp
    then have "trim ` set (split_on p s) \<subseteq> insert [] (trim ` set (split_on p (s @ [c])))"
      using True by (auto simp: split_on_snoc trim_ws_snoc)
    moreover have "rev (dropWhile is_ws (rev (s @ [c]))) = rev (dropWhile is_ws (rev s))" using True by simp
    ultimately show ?thesis using snoc.IH by (simp only:) blast
  qed auto
qed simp

lemma split_on_trim: "trim ` set (split_on p (trim s)) \<subseteq> insert [] (trim ` set (split_on p s))"
proof -
  have "trim ` set (split_on p (trim s)) \<subseteq> insert [] (trim ` set (split_on p (dropWhile is_ws s)))"
    using split_on_trim_end [of p "dropWhile is_ws s"] by (simp only: trim_def trim_by_def trim_start_by_def trim_end_by_def)
  with split_on_trim_start [of p s] show ?thesis by blast
qed

lemma str_lines_pieces:
  "set (str_lines s) \<subseteq> (\<lambda>l. if l \<noteq> [] \<and> of_char (last l) = (13::nat) then butlast l else l) ` set (split_on (\<lambda>c. of_char c = (10::nat)) s)
     \<union> set (split_on (\<lambda>c. of_char c = (10::nat)) s)"
proof -
  let ?ps = "split_on (\<lambda>c. of_char c = (10::nat)) s"
  have "set (butlast ?ps) \<subseteq> set ?ps" "last ?ps \<in> set ?ps" using split_on_ne by (auto dest: in_set_butlastD)
  then show ?thesis unfolding str_lines_def Let_def by (auto simp: subset_iff simp del: last_in_set)
qed

lemma str_lines_trims: "trim ` set (str_lines s) \<subseteq> trim ` set (split_on (\<lambda>c. of_char c = (10::nat)) s)"
proof -
  have cr: "trim (if l \<noteq> [] \<and> of_char (last l) = (13::nat) then butlast l else l) = trim l" for l
    using trim_ws_snoc [of "last l" "butlast l"] no_ws_clean(2) [of "last l"] by (cases "l = []") simp_all
  have same: "trim ` (g ` A \<union> A) = trim ` A" if "\<And>l. trim (g l) = trim l" for g :: "string \<Rightarrow> string" and A
    using that by (simp add: image_Un image_image)
  show ?thesis using image_mono [OF str_lines_pieces, of trim s] unfolding same [OF cr] .
qed

lemma split_on_sep_free: "l \<in> set (split_on p s) \<Longrightarrow> c \<in> set l \<Longrightarrow> \<not> p c"
  by (induction s arbitrary: l) (fastforce split: if_splits list.splits)+

lemma str_lines_free: "l \<in> set (str_lines s) \<Longrightarrow> c \<in> set l \<Longrightarrow> of_char c \<noteq> (10::nat)"
  using str_lines_pieces [of s] by (fastforce split: if_splits dest: in_set_butlastD split_on_sep_free)

lemma split_on_join:
  "list_all (\<lambda>l. list_all (\<lambda>c. of_char c \<noteq> (10::nat)) l) ls \<Longrightarrow>
   set (split_on (\<lambda>c. of_char c = (10::nat)) (join newline ls)) \<subseteq> insert [] (set ls)"
proof (induction ls)
  case (Cons l ls)
  have one: "split_on (\<lambda>c. of_char c = (10::nat)) l = [l]" using Cons.prems by (induction l) auto
  show ?case
  proof (cases ls)
    case Nil
    then show ?thesis using one by simp
  next
    case (Cons m ms)
    then have "split_on (\<lambda>c. of_char c = (10::nat)) (join newline (l # ls))
        = l # split_on (\<lambda>c. of_char c = (10::nat)) (join newline ls)"
      using Cons.prems split_on_line [of "\<lambda>c. of_char c = (10::nat)" l "char_of (10::nat)"] by (simp add: newline_def)
    then show ?thesis using Cons.IH Cons.prems by auto
  qed
qed simp

lemma action_line_trim: "trim l = trim l' \<Longrightarrow> action_line l = action_line l'"
  by (simp add: action_line_def bare_def)

lemma action_line_marked: "\<not> starts_with ''ACTION:'' (map upper (bare l)) \<Longrightarrow> action_line l = None"
proof -
  assume n: "\<not> starts_with ''ACTION:'' (map upper (bare l))"
  have "map upper ''ACTION:'' = ''ACTION:''" "map upper ''Action:'' = ''ACTION:''" by code_simp+
  then have "\<not> starts_with ''ACTION:'' (bare l)" "\<not> starts_with ''Action:'' (bare l)"
    using n by (auto simp: starts_with_def take_map)
  then show ?thesis by (simp add: action_line_def strip_prefix_def)
qed

text \<open>The text that is shown of a reply is free of proposals: every line that proposes an action is taken out, in whatever case and with
  whatever markup it is written, and what is left proposes nothing.\<close>

theorem stripped_proposes_nothing: "parse_actions (strip_actions reply) = []"
proof -
  let ?keep = "filter (\<lambda>l. \<not> starts_with ''ACTION:'' (map upper (bare l))) (str_lines reply)"
  let ?nl = "\<lambda>c. of_char c = (10::nat)"
  have free: "list_all (\<lambda>l. list_all (\<lambda>c. of_char c \<noteq> (10::nat)) l) ?keep" using str_lines_free by (auto simp: list_all_iff)
  have "action_line l = None" if "l \<in> set (str_lines (strip_actions reply))" for l
  proof -
    have "trim l \<in> trim ` set (str_lines (trim (join newline ?keep)))" using that by (simp add: strip_actions_def)
    then have "trim l \<in> insert [] (trim ` set (split_on ?nl (join newline ?keep)))"
      using str_lines_trims [of "trim (join newline ?keep)"] split_on_trim [of ?nl "join newline ?keep"] by blast
    then have "trim l \<in> insert [] (trim ` insert [] (set ?keep))" using split_on_join [OF free] by blast
    then consider "trim l = trim []" | l' where "l' \<in> set ?keep" "trim l = trim l'" using trim_Nil by auto
    then show ?thesis
    proof cases
      case 1
      have "action_line [] = None" by (rule action_line_marked) (simp add: bare_def trim_def trim_by_def trim_start_by_def trim_end_by_def starts_with_def)
      with action_line_trim [OF 1] show ?thesis by simp
    next
      case 2
      then show ?thesis using action_line_trim [OF 2(2)] action_line_marked by simp
    qed
  qed
  then have "set (parse_actions (strip_actions reply)) = {}" unfolding parse_actions_set by auto
  then show ?thesis by simp
qed

section \<open>Questions stay on the machine\<close>

lemma rsplit_once_none: "rsplit_once c s = None \<longleftrightarrow> c \<notin> set s"
  by (simp add: rsplit_once_def split_once_None)

lemma rsplit_once_at: "c \<notin> set b \<Longrightarrow> rsplit_once c (a @ c # b) = Some (a, b)"
  using split_once_append [of c "rev b" "rev a"] by (simp add: rsplit_once_def)

text \<open>What is connected to on this machine: a name or address of it, and a port.\<close>

definition loopback_dest :: "string \<Rightarrow> bool" where
  "loopback_dest h = (\<exists>port. CHR '':'' \<notin> set port
     \<and> (h = ''localhost:'' @ port \<or> h = ''127.0.0.1:'' @ port \<or> h = ''::1:'' @ port \<or> h = ''[::1]:'' @ port))"

definition bracketed :: "string \<Rightarrow> bool" where
  "bracketed s = (CHR ''['' \<in> set s \<or> CHR '']'' \<in> set s)"

text \<open>No brackets but the two around the address \<open>::1\<close>.\<close>

definition brackets_ok :: "string \<Rightarrow> bool" where
  "brackets_ok s = (bracketed s \<longrightarrow> (\<exists>port. s = ''[::1]:'' @ port \<and> \<not> bracketed port))"

lemma trim_by_clean:
  assumes "\<And>c. c \<in> set s \<Longrightarrow> \<not> p c"
  shows "trim_by p s = s"
proof -
  have "dropWhile p xs = xs" if "set xs \<subseteq> set s" for xs using that assms by (cases xs) auto
  from this [of s] this [of "rev s"] show ?thesis by (simp add: trim_by_def trim_start_by_def trim_end_by_def)
qed

lemma trim_by_stop:
  assumes "\<not> p a" "\<not> p b"
  shows "trim_by p (a # xs @ [b]) = a # xs @ [b]"
  using assms by (simp add: trim_by_def trim_start_by_def trim_end_by_def)

lemma rsplit_colon:
  assumes "CHR '':'' \<in> set s"
  obtains a b where "s = a @ CHR '':'' # b" "CHR '':'' \<notin> set b" "rsplit_once (CHR '':'') s = Some (a, b)"
proof -
  obtain a b where "s = a @ CHR '':'' # b" "CHR '':'' \<notin> set b" using assms split_list_last by fastforce
  with rsplit_once_at that show thesis by blast
qed

lemma host_name_v6:
  assumes "\<not> bracketed port" "loopback_name (host_name (''[::1]:'' @ port))"
  shows "CHR '':'' \<notin> set port"
proof
  assume "CHR '':'' \<in> set port"
  then obtain a b where ab: "port = a @ CHR '':'' # b" "CHR '':'' \<notin> set b" "rsplit_once (CHR '':'') port = Some (a, b)" by (rule rsplit_colon)
  let ?p = "\<lambda>c. c = CHR ''['' \<or> c = CHR '']''"
  obtain m z where mz: "''::1]:'' @ a = CHR '':'' # m @ [z]" "\<not> ?p z"
  proof (cases a rule: rev_cases)
    case Nil
    then show ?thesis using that [of "'':1]''" "CHR '':''"] by simp
  next
    case (snoc as y)
    then show ?thesis using that [of "'':1]:'' @ as" y] assms(1) ab(1) by (auto simp: bracketed_def)
  qed
  have "rsplit_once (CHR '':'') (''[::1]:'' @ port) = Some (''[::1]:'' @ a, b)"
    using rsplit_once_at [OF ab(2), of "''[::1]:'' @ a"] ab(1) by simp
  then have "host_name (''[::1]:'' @ port) = trim_by ?p (CHR ''['' # CHR '':'' # m @ [z])" using mz(1) by (simp add: host_name_def)
  also have "\<dots> = trim_by ?p (CHR '':'' # m @ [z])" by (simp add: trim_by_def trim_start_by_def)
  also have "\<dots> = ''::1]:'' @ a" unfolding mz(1) by (rule trim_by_stop) (use mz(2) in simp_all)
  finally show False using assms(2) by (simp add: loopback_name_def)
qed

lemma local_host_dest:
  assumes "local_host url = Inr h" "brackets_ok (url_host url)"
  shows "loopback_dest h"
proof -
  let ?u = "url_host url" and ?p = "\<lambda>c. c = CHR ''['' \<or> c = CHR '']''"
  have l: "loopback_name (host_name ?u)" "h = (if CHR '':'' \<in> set ?u \<and> \<not> ends_with '']'' ?u then ?u else ?u @ '':11434'')"
    using assms(1) by (auto simp: local_host_def url_host_def Let_def split: if_splits option.splits)
  show ?thesis
  proof (cases "bracketed ?u")
    case True
    then obtain port where port: "?u = ''[::1]:'' @ port" "\<not> bracketed port" using assms(2) by (auto simp: brackets_ok_def)
    have "CHR '':'' \<notin> set port" using host_name_v6 [OF port(2)] l(1) port(1) by simp
    moreover have "\<not> ends_with '']'' ?u" unfolding port(1)
      using port(2) by (cases port rule: rev_cases) (auto simp: ends_with_def starts_with_def bracketed_def)
    ultimately show ?thesis using l(2) port(1) by (auto simp: loopback_dest_def)
  next
    case False
    then have clean: "\<not> ?p c" if "c \<in> set ?u" for c using that by (auto simp: bracketed_def)
    have e: "\<not> ends_with '']'' ?u" using False by (cases ?u rule: rev_cases) (auto simp: ends_with_def starts_with_def bracketed_def)
    show ?thesis
    proof (cases "CHR '':'' \<in> set ?u")
      case True
      then obtain a b where ab: "?u = a @ CHR '':'' # b" "CHR '':'' \<notin> set b" "rsplit_once (CHR '':'') ?u = Some (a, b)" by (rule rsplit_colon)
      have "trim_by ?p a = a" by (rule trim_by_clean) (use clean ab(1) in auto)
      then have "loopback_name a" using l(1) ab(3) by (simp add: host_name_def)
      then show ?thesis using l(2) e True ab(1,2) by (auto simp: loopback_name_def loopback_dest_def)
    next
      case no: False
      have "trim_by ?p ?u = ?u" by (rule trim_by_clean) (use clean in auto)
      then have "loopback_name ?u" using l(1) no by (simp add: host_name_def rsplit_once_none [THEN iffD2])
      then have "?u = ''localhost'' \<or> ?u = ''127.0.0.1''" using no by (auto simp: loopback_name_def)
      then show ?thesis using l(2) no by (auto simp: loopback_dest_def intro: exI [of _ "''11434''"])
    qed
  qed
qed

text \<open>C33: the assistant stays on the machine: as long as the URL that the config or LUNA's file names has no brackets but those around the
  address \<open>::1\<close> (others can get past the check, see \<open>local_host_bracket\<close>), what servers elsewhere than at a port of \<open>localhost\<close>, \<open>127.0.0.1\<close> or \<open>::1\<close> would
  answer makes no difference to which model is chosen nor to any answer.\<close>

theorem assistant_stays_local:
  assumes "brackets_ok (url_host (fst (model_url cfg luna)))"
    and "\<And>h. loopback_dest h \<Longrightarrow> tags h = tags' h"
    and "\<And>r. loopback_dest (rq_host r) \<Longrightarrow> server r = server' r"
  shows "map_sum id (\<lambda>b. (b, ask json server s b history)) (detect cfg luna tags)
    = map_sum id (\<lambda>b. (b, ask json server' s b history)) (detect cfg luna tags')"
proof (cases "local_host (fst (model_url cfg luna))")
  case (Inl e)
  then show ?thesis by (simp add: detect_def case_prod_unfold)
next
  case (Inr h)
  have l: "loopback_dest h" by (rule local_host_dest [OF Inr assms(1)])
  have "tags h = tags' h" by (rule assms(2) [OF l])
  then have d: "detect cfg luna tags = detect cfg luna tags'" using Inr by (simp add: detect_def case_prod_unfold)
  have "ask json server s b history = ask json server' s b history" if "detect cfg luna tags' = Inr b" for b
  proof -
    have "be_host b = h" using that Inr by (auto simp: detect_def case_prod_unfold Let_def split: if_splits option.splits sum.splits)
    then have "server \<lparr>rq_host = be_host b, rq_model = be_model b, rq_messages = ms\<rparr> = server' \<lparr>rq_host = be_host b, rq_model = be_model b, rq_messages = ms\<rparr>"
      for ms using l by (intro assms(3)) simp
    then show ?thesis by (simp add: ask_def)
  qed
  then show ?thesis unfolding d by (cases "detect cfg luna tags'") simp_all
qed

lemma assistant_stays_local_witness:
  "map_sum id (\<lambda>b. (b, ask demo_json (\<lambda>r. if rq_host r = ''203.0.113.9:11434'' then Inr [Inr ''!spy''] else Inl ''refused'') no_sys b []))
      (detect (assistant_default\<lparr>a_url := Some ''http://203.0.113.9:11434''\<rparr>) None (\<lambda>h. if h = ''203.0.113.9:11434'' then Some [''spy''] else None))
    = map_sum id (\<lambda>b. (b, ask demo_json (\<lambda>_. Inl ''refused'') no_sys b []))
      (detect (assistant_default\<lparr>a_url := Some ''http://203.0.113.9:11434''\<rparr>) None (\<lambda>_. None))"
proof -
  have n: "\<not> loopback_dest ''203.0.113.9:11434''" by (auto simp: loopback_dest_def)
  have "brackets_ok (url_host (fst (model_url (assistant_default\<lparr>a_url := Some ''http://203.0.113.9:11434''\<rparr>) None)))"
    by (simp add: model_url_def url_host_def strip_prefix_def starts_with_def brackets_ok_def bracketed_def)
  then show ?thesis
    by (rule assistant_stays_local) (use n in auto)
qed

text \<open>A URL that ends in a bracket gets past the check: the name that is checked is what stands before the last colon, the name that is
  then looked up is all of it.\<close>

lemma local_host_bracket:
  "local_host ''http://127.0.0.1:models.example]'' = Inr ''127.0.0.1:models.example]:11434''
   \<and> rsplit_once (CHR '':'') ''127.0.0.1:models.example]:11434'' = Some (''127.0.0.1:models.example]'', ''11434'')"
  by code_simp

text \<open>The loopback address without a port is taken for another host, although the code has a case for it.\<close>

lemma local_host_v6: "\<exists>e. local_host ''http://[::1]'' = Inl e" "local_host ''http://[::1]:11434'' = Inr ''[::1]:11434''"
proof -
  have "local_host ''http://[::1]'' = Inl (''http://[::1]'' @ '' is not on this machine; the assistant only uses local models'')" by code_simp
  then show "\<exists>e. local_host ''http://[::1]'' = Inl e" by blast
  show "local_host ''http://[::1]:11434'' = Inr ''[::1]:11434''" by code_simp
qed

text \<open>A proposal in small letters is taken out of the text and not offered either.\<close>

lemma small_letters_lost: "parse_actions ''action: open tcp 22'' = []" "strip_actions ''action: open tcp 22'' = []"
  by code_simp+

end
