(* ===== verification/Cli.thy ===== *)
theory Cli
  imports Assistant
begin

text \<open>
  The commands of \<open>ai-firewall\<close> (src/ai-firewall/src/main.rs). A command acts on a \<open>pc\<close>: the machine of the doctor (its pinned bans,
  files and the commands run on it), the pinned links, the feed caches, the history and what is printed. It gives an error, printed by
  \<open>main\<close>, or an exit code; a panic is \<open>None\<close>. Parsing the command line (clap) and the codecs are parameters; what the system answers
  during one command is the record \<open>cli_env\<close>. \<open>run\<close> and \<open>top\<close> are the daemon and the dashboard.
\<close>

section \<open>What a command acts on\<close>

datatype ask_event =
    Ev_Model string
  | Ev_Chunk string
  | Ev_Tests "report list"
  | Ev_Error string
  | Ev_Done string "ai_action list" bool

record 'n pc =
  pc_mc :: "'n machine"
  pc_links :: links
  pc_feeds :: feed_disk
  pc_history :: "string option"
  pc_out :: string
  pc_events :: "ask_event list"

type_synonym 'n outcome = "('n pc \<times> (error + nat)) option"

text \<open>Access to a JSON value as \<open>serde_json\<close> gives it.\<close>

record 'j json =
  jv_parse :: "string \<Rightarrow> error + 'j"
  jv_at :: "'j \<Rightarrow> string \<Rightarrow> 'j"
  jv_str :: "'j \<Rightarrow> string option"
  jv_u64 :: "'j \<Rightarrow> u64 option"
  jv_bool :: "'j \<Rightarrow> bool option"
  jv_array :: "'j \<Rightarrow> 'j list option"
  jv_show :: "'j \<Rightarrow> string"
  jv_decimal :: "'j \<Rightarrow> string"

text \<open>\<open>ce_answers\<close> are the lines typed at the prompts of \<open>doctor --fix\<close>; \<open>ce_err\<close> is how an error is
  printed, \<open>ce_history_ok\<close> whether the history file can be trimmed and opened.\<close>

record ('d, 'j, 'n) cli_env =
  ce_sys :: sys
  ce_tools :: "'n tools"
  ce_config :: string
  ce_toml :: "string \<Rightarrow> error + config"
  ce_edit :: "'d toml_edit"
  ce_posture :: "string \<Rightarrow> error + posture"
  ce_posture_enc :: "posture \<Rightarrow> error + string"
  ce_entry_enc :: "entry \<Rightarrow> string option"
  ce_entry_dec :: "string \<Rightarrow> entry option"
  ce_entries_json :: "entry list \<Rightarrow> string"
  ce_reports_json :: "report list \<Rightarrow> string"
  ce_findings_json :: "finding list \<Rightarrow> (string \<times> string option) list \<Rightarrow> string"
  ce_posture_json :: "string \<Rightarrow> string list \<Rightarrow> error option \<Rightarrow> (string \<times> string) list \<Rightarrow> string"
  ce_json :: "'j json"
  ce_err :: "error \<Rightarrow> string"
  ce_history_ok :: "bool \<times> bool"
  ce_tty :: bool
  ce_answers :: "string list"
  ce_fetch :: "string \<Rightarrow> string option"
  ce_renamable :: "string \<Rightarrow> bool"
  ce_test :: "nat \<Rightarrow> test_env"
  ce_luna :: "string \<Rightarrow> (string \<times> string option) option"
  ce_vars :: "string \<Rightarrow> string option"
  ce_tags :: "string \<Rightarrow> string list option"
  ce_reply :: "string \<Rightarrow> reply_line option"
  ce_server :: "request \<Rightarrow> string + (string + string) list"

definition say :: "string \<Rightarrow> 'n pc \<Rightarrow> 'n pc" where
  "say s c = c\<lparr>pc_out := pc_out c @ s @ newline\<rparr>"

definition emit :: "ask_event \<Rightarrow> 'n pc \<Rightarrow> 'n pc" where
  "emit ev c = c\<lparr>pc_events := pc_events c @ [ev]\<rparr>"

definition finish :: "'n pc \<Rightarrow> 'n outcome" where "finish c = Some (c, Inr 0)"
definition giving_up :: "error \<Rightarrow> 'n pc \<Rightarrow> 'n outcome" where "giving_up e c = Some (c, Inl e)"

definition is_root :: "('d, 'j, 'n) cli_env \<Rightarrow> bool" where "is_root env = sy_root (ce_sys env)"

definition need_root :: "('d, 'j, 'n) cli_env \<Rightarrow> error + unit" where
  "need_root env = (if is_root env then Inr () else Inl (Msg ''needs root: run it with sudo''))"

definition as_root :: "('d, 'j, 'n) cli_env \<Rightarrow> ('n pc \<Rightarrow> 'n outcome) \<Rightarrow> 'n pc \<Rightarrow> 'n outcome" where
  "as_root env body c = (case need_root env of Inl e \<Rightarrow> giving_up e c | Inr _ \<Rightarrow> body c)"

definition pad_left :: "nat \<Rightarrow> string \<Rightarrow> string" where
  "pad_left w s = replicate (w - length s) (CHR '' '') @ s"

definition now_unix :: "('d, 'j, 'n) cli_env \<Rightarrow> u64" where
  "now_unix env = unix_secs (sy_host (ce_sys env))"

section \<open>Bans by hand\<close>

definition pinned_bans :: "'n pc \<Rightarrow> error + blocklist" where
  "pinned_bans c =
     (case mc_bans (pc_mc c) of
        None \<Rightarrow> open_pinned_blocklist None None
      | Some bl \<Rightarrow> open_pinned_blocklist (Some (bl_v4 bl)) (bl_v6 bl))"

definition set_bans :: "blocklist \<Rightarrow> 'n pc \<Rightarrow> 'n pc" where
  "set_bans bl c = c\<lparr>pc_mc := (pc_mc c)\<lparr>mc_bans := Some bl\<rparr>\<rparr>"

definition ban_cmd :: "('d, 'j, 'n) cli_env \<Rightarrow> src \<Rightarrow> u64 \<Rightarrow> 'n pc \<Rightarrow> 'n outcome" where
  "ban_cmd env ip minutes = as_root env (\<lambda>c.
     case pinned_bans c of
       Inl e \<Rightarrow> giving_up e c
     | Inr bl \<Rightarrow>
         (case bl_insert ip (expiry_for (boot_ns (sy_host (ce_sys env))) (minutes * 60)) bl of
            None \<Rightarrow> giving_up (Bad ''insert'' (show_src ip)) c
          | Some bl' \<Rightarrow>
              finish (say (if minutes = 0 then ''banned '' @ show_src ip @ '' until unbanned''
                else ''banned '' @ show_src ip @ '' for '' @ show_word minutes @ '' min'') (set_bans bl' c))))"

definition unban_cmd :: "('d, 'j, 'n) cli_env \<Rightarrow> src \<Rightarrow> 'n pc \<Rightarrow> 'n outcome" where
  "unban_cmd env ip = as_root env (\<lambda>c.
     case pinned_bans c of
       Inl e \<Rightarrow> giving_up e c
     | Inr bl \<Rightarrow>
         (case bl_remove ip bl of
            None \<Rightarrow> giving_up (Ctx (show_src ip @ '' is not banned'') (Bad ''remove'' (show_src ip))) c
          | Some bl' \<Rightarrow> finish (say (''unbanned '' @ show_src ip) (set_bans bl' c))))"

section \<open>The config file\<close>

definition on_fs :: "fsys \<Rightarrow> 'n pc \<Rightarrow> 'n pc" where
  "on_fs fs c = c\<lparr>pc_mc := (pc_mc c)\<lparr>mc_fs := fs\<rparr>\<rparr>"

definition port_spec_of :: "string \<Rightarrow> port_spec" where
  "port_spec_of s = (case parse_u16 s of Some p \<Rightarrow> One p | None \<Rightarrow> Text s)"

definition port_cmd :: "('d, 'j, 'n) cli_env \<Rightarrow> string \<Rightarrow> string \<Rightarrow> bool \<Rightarrow> 'n pc \<Rightarrow> 'n outcome" where
  "port_cmd env proto port opn = as_root env (\<lambda>c.
     let spec = port_spec_of port; name = proto @ '' '' @ spec_label spec in
     case set_port (ce_toml env) (ce_edit env) (ce_config env) proto spec opn (mc_fs (pc_mc c)) of
       (fs, Inl e) \<Rightarrow> giving_up e (on_fs fs c)
     | (fs, Inr changed) \<Rightarrow>
         finish (say (if opn then (if changed then ''opened '' @ name else name @ '' was already open'')
           else (if changed then ''closed '' @ name else name @ '' wasn't open'')) (on_fs fs c)))"

definition check_cmd :: "('d, 'j, 'n) cli_env \<Rightarrow> 'n pc \<Rightarrow> 'n outcome" where
  "check_cmd env c =
     (case ctx (''reading '' @ ce_config env) (read_to_string (ce_config env) (mc_fs (pc_mc c))) of
        Inl e \<Rightarrow> giving_up e c
      | Inr t \<Rightarrow>
          (case parse_config (ce_toml env) t of
             Inl e \<Rightarrow> giving_up e c
           | Inr _ \<Rightarrow> finish (say (ce_config env @ '' is valid'') c)))"

definition default_config_cmd :: "'n pc \<Rightarrow> 'n outcome" where
  "default_config_cmd c = finish (c\<lparr>pc_out := pc_out c @ DEFAULT_CONFIG\<rparr>)"

section \<open>Postures\<close>

definition file_of :: "string \<Rightarrow> fsys \<Rightarrow> file_read" where
  "file_of path fs = (case files fs path of None \<Rightarrow> Not_Found | Some t \<Rightarrow> Contents t)"

definition remove_file :: "string \<Rightarrow> fsys \<Rightarrow> fsys \<times> (error + unit)" where
  "remove_file path fs =
     (if files fs path = None then (fs, Inr ())
      else if renamable fs path then (fs\<lparr>files := (files fs)(path := None)\<rparr>, Inr ())
      else (fs, Inl (Bad ''remove'' path)))"

definition note_history :: "('d, 'j, 'n) cli_env \<Rightarrow> string \<Rightarrow> string \<Rightarrow> 'n pc \<Rightarrow> 'n pc" where
  "note_history env kind detail c =
     c\<lparr>pc_history := record_entry (ce_entry_enc env) (fst (ce_history_ok env)) (snd (ce_history_ok env))
        (now_unix env) kind [] detail (pc_history c)\<rparr>"

definition set_posture :: "('d, 'j, 'n) cli_env \<Rightarrow> string \<Rightarrow> string list \<Rightarrow> 'n pc \<Rightarrow> 'n pc \<times> (error + unit)" where
  "set_posture env name nets c =
     (case posture_new name nets of
        Inl e \<Rightarrow> (c, Inl e)
      | Inr p \<Rightarrow>
          (case need_root env of
             Inl e \<Rightarrow> (c, Inl e)
           | Inr _ \<Rightarrow>
               (case (if name = ''secure'' \<and> po_lan p = [] then remove_file POSTURE_PATH (mc_fs (pc_mc c))
                      else posture_save (ce_posture_enc env) p POSTURE_PATH (mc_fs (pc_mc c))) of
                  (fs, Inl e) \<Rightarrow> (on_fs fs c, Inl e)
                | (fs, Inr _) \<Rightarrow> (note_history env ''posture'' name (on_fs fs c), Inr ()))))"

definition show_posture :: "('d, 'j, 'n) cli_env \<Rightarrow> bool \<Rightarrow> 'n pc \<Rightarrow> 'n pc" where
  "show_posture env json c =
     (let (current, err) = posture_load (ce_posture env) POSTURE_PATH (file_of POSTURE_PATH (mc_fs (pc_mc c)));
          name = (case current of Some p \<Rightarrow> po_name p | None \<Rightarrow> ''secure'');
          nets = (case current of Some p \<Rightarrow> po_lan p | None \<Rightarrow> [])
      in if json then say (ce_posture_json env name nets err POSTURES) c
         else
           let c1 = (case err of Some e \<Rightarrow> say (''posture file ignored: '' @ ce_err env e) c | None \<Rightarrow> c);
               c2 = fold (\<lambda>(n, what). say ((if n = name then ''*'' else '' '') @ '' '' @ pad 9 n @ '' '' @ what)) POSTURES c1
           in if nets = [] then c2 else say (''  lan: '' @ join '' '' nets) c2)"

definition posture_cmd :: "('d, 'j, 'n) cli_env \<Rightarrow> string option \<Rightarrow> string list \<Rightarrow> bool \<Rightarrow> 'n pc \<Rightarrow> 'n outcome" where
  "posture_cmd env name nets json c =
     (case (case name of Some n \<Rightarrow> set_posture env n nets c | None \<Rightarrow> (c, Inr ())) of
        (c1, Inl e) \<Rightarrow> giving_up e c1
      | (c1, Inr _) \<Rightarrow> finish (show_posture env json c1))"

section \<open>History, feeds, off\<close>

definition history_line :: "u64 \<Rightarrow> entry \<Rightarrow> string" where
  "history_line now e =
     pad_left 8 (duration (max (sat_sub now (e_at_unix e)) 1)) @ '' ago  '' @ pad 7 (e_kind e) @ ''  '' @ pad 24 (e_ip e) @ ''  '' @ e_detail e"

definition HISTORY_FILE :: string where "HISTORY_FILE = ''/var/lib/ai-firewall/history.jsonl''"

definition history_cmd :: "('d, 'j, 'n) cli_env \<Rightarrow> nat \<Rightarrow> bool \<Rightarrow> 'n pc \<Rightarrow> 'n outcome" where
  "history_cmd env n json c =
     (let es = read_history (ce_entry_dec env) n (pc_history c) in
      if json then finish (say (ce_entries_json env es) c)
      else
        let c1 = (if es = [] then say (''nothing yet ('' @ HISTORY_FILE @ '')'') c else c)
        in finish (fold (\<lambda>e. say (history_line (now_unix env) e)) es c1))"

definition feed_line :: "u64 \<Rightarrow> feed_view \<Rightarrow> string" where
  "feed_line now f =
     ''  '' @ pad 16 (fv_name f) @ '' '' @ pad_left 6 (show_nat (fv_entries f)) @ '' networks  ''
     @ (if fv_updated f = 0 then ''never downloaded'' else ''updated '' @ duration (max (sat_sub now (fv_updated f)) 1) @ '' ago'')
     @ (case fv_error f of Some e \<Rightarrow> ''  ('' @ e @ '')'' | None \<Rightarrow> [])"

text \<open>\<open>.status()\<close> of a command whose result is dropped.\<close>

definition run_ignored :: "('d, 'j, 'n) cli_env \<Rightarrow> string \<Rightarrow> string list \<Rightarrow> 'n pc \<Rightarrow> 'n pc" where
  "run_ignored env cmd argv c = c\<lparr>pc_mc := fst (sh (ce_tools env) cmd argv (pc_mc c))\<rparr>"

definition refresh_feeds :: "('d, 'j, 'n) cli_env \<Rightarrow> 'n pc \<Rightarrow> 'n pc \<times> (error + unit)" where
  "refresh_feeds env c =
     (case need_root env of
        Inl e \<Rightarrow> (c, Inl e)
      | Inr _ \<Rightarrow>
          (case rbind (read_to_string (ce_config env) (mc_fs (pc_mc c))) (parse_config (ce_toml env)) of
             Inl e \<Rightarrow> (c, Inl e)
           | Inr cfg \<Rightarrow>
               let (disk, results) = refresh (ce_fetch env) (ce_renamable env) (now_unix env) (c_feeds cfg) True (pc_feeds c);
                   c1 = fold (\<lambda>(name, err). say (name @ '': '' @ opt_or err ''updated'')) results (c\<lparr>pc_feeds := disk\<rparr>)
               in (run_ignored env ''systemctl'' [''reload'', ''ai-firewall''] c1, Inr ())))"

definition feeds_cmd :: "('d, 'j, 'n) cli_env \<Rightarrow> bool \<Rightarrow> 'n pc \<Rightarrow> 'n outcome" where
  "feeds_cmd env fresh c =
     (case (if fresh then refresh_feeds env c else (c, Inr ())) of
        (c1, Inl e) \<Rightarrow> giving_up e c1
      | (c1, Inr _) \<Rightarrow>
          (case sy_status (ce_sys env) of
             None \<Rightarrow> giving_up (Msg ''ai-firewall is not running'') c1
           | Some v \<Rightarrow>
               finish (fold (\<lambda>f. say (feed_line (now_unix env) f)) (vw_feeds v)
                 (say (show_nat (vw_feed_networks v) @ '' known-bad networks blocked'') c1))))"

definition off_cmd :: "('d, 'j, 'n) cli_env \<Rightarrow> 'n pc \<Rightarrow> 'n outcome" where
  "off_cmd env = as_root env (\<lambda>c.
     let c1 = run_ignored env ''systemctl'' [''stop'', ''ai-firewall''] c; (l, n) = unpin_all (pc_links c1)
     in finish (say (''ai-firewall is off ('' @ show_nat n @ '' interface'' @ (if n = 1 then [] else ''s'')
          @ '' released); `sudo systemctl start ai-firewall` turns it back on'') (c1\<lparr>pc_links := l\<rparr>)))"

section \<open>Doctor and fixes\<close>

definition esc :: string where "esc = [char_of (27 :: nat)]"

definition paint :: "('d, 'j, 'n) cli_env \<Rightarrow> string \<Rightarrow> string \<Rightarrow> string" where
  "paint env code t = (if ce_tty env then esc @ ''['' @ code @ ''m'' @ t @ esc @ ''[0m'' else t)"

text \<open>A check mark (U+2713), a middle dot and a ballot cross (U+2717) as UTF-8, with their colours.\<close>

definition tick_mark :: string where "tick_mark = [char_of (0xE2 :: nat), char_of (0x9C :: nat), char_of (0x93 :: nat)]"
definition cross_mark :: string where "cross_mark = [char_of (0xE2 :: nat), char_of (0x9C :: nat), char_of (0x97 :: nat)]"

fun severity_mark :: "severity \<Rightarrow> string \<times> string" where
  "severity_mark Ok = (tick_mark, ''32'')"
| "severity_mark Info = ([char_of (0xC2 :: nat), char_of (0xB7 :: nat)], ''36'')"
| "severity_mark Warn = (''!'', ''33'')"
| "severity_mark Fail = (cross_mark, ''31'')"

definition indent :: string where "indent = replicate 11 (CHR '' '')"

definition say_finding :: "('d, 'j, 'n) cli_env \<Rightarrow> finding \<Rightarrow> 'n pc \<Rightarrow> 'n pc" where
  "say_finding env f c =
     (let (mark, code) = severity_mark (fi_severity f);
          c1 = say (indent @ fi_detail f)
            (say (paint env code mark @ '' '' @ pad 8 (paint env ''2'' (fi_area f)) @ '' '' @ paint env ''1'' (fi_title f)) c)
      in (case fi_fix f of
            Some i \<Rightarrow> say (indent @ ''fix: '' @ paint env ''35'' i @ ''  '' @ paint env ''2'' (opt_or (fix_summary i) [])) c1
          | None \<Rightarrow> c1))"

text \<open>One fix of \<open>doctor --fix\<close>; \<open>None\<close> is a panic.\<close>

definition apply_one :: "('d, 'j, 'n) cli_env \<Rightarrow> string \<Rightarrow> 'n pc \<Rightarrow> 'n pc option" where
  "apply_one env i c =
     map_option (\<lambda>(m, r). say (case r of Inr msg \<Rightarrow> paint env ''32'' tick_mark @ '' '' @ msg
         | Inl e \<Rightarrow> paint env ''31'' cross_mark @ '' '' @ i @ '': '' @ ce_err env e) (c\<lparr>pc_mc := m\<rparr>))
       (apply_fix (ce_sys env) (ce_tools env) i (pc_mc c))"

definition agreed :: "string \<Rightarrow> bool" where
  "agreed answer = (map lower (trim answer) = ''y'')"

fun apply_pending :: "('d, 'j, 'n) cli_env \<Rightarrow> bool \<Rightarrow> string list \<Rightarrow> string list \<Rightarrow> 'n pc \<Rightarrow> 'n pc option" where
  "apply_pending env yes [] answers c = Some c"
| "apply_pending env yes (i # ids) answers c =
     (if yes then Option.bind (apply_one env i c) (apply_pending env yes ids answers)
      else
        let c1 = c\<lparr>pc_out := pc_out c @ newline @ opt_or (fix_summary i) i @ ''? [y/N] ''\<rparr>;
            answer = (case answers of a # _ \<Rightarrow> a | [] \<Rightarrow> [])
        in if agreed answer then Option.bind (apply_one env i c1) (apply_pending env yes ids (drop 1 answers))
           else apply_pending env yes ids (drop 1 answers) c1)"

definition doctor_cmd :: "('d, 'j, 'n) cli_env \<Rightarrow> bool \<Rightarrow> bool \<Rightarrow> bool \<Rightarrow> 'n pc \<Rightarrow> 'n outcome" where
  "doctor_cmd env fix' yes json c = do {
     findings \<leftarrow> diagnose (ce_sys env);
     let pending = List.map_filter fi_fix findings;
     if json then finish (say (ce_findings_json env findings (map (\<lambda>i. (i, fix_summary i)) pending)) c)
     else
       let c1 = fold (say_finding env) findings c in
       if pending = [] then
         finish (say (newline @ (if list_ex (\<lambda>f. Warn \<le> fi_severity f) findings then ''nothing here can be fixed automatically''
           else ''all good'')) c1)
       else if \<not> fix' then
         finish (say (newline @ ''apply with: sudo ai-firewall doctor --fix   (or: sudo ai-firewall fix <id>)'') c1)
       else (case need_root env of
               Inl e \<Rightarrow> giving_up e c1
             | Inr _ \<Rightarrow> Option.bind (apply_pending env yes pending (ce_answers env) c1) finish)
   }"

definition fix_cmd :: "('d, 'j, 'n) cli_env \<Rightarrow> string \<Rightarrow> 'n pc \<Rightarrow> 'n outcome" where
  "fix_cmd env i c =
     Option.bind (apply_fix (ce_sys env) (ce_tools env) i (pc_mc c)) (\<lambda>(m, r).
       case r of Inl e \<Rightarrow> giving_up e (c\<lparr>pc_mc := m\<rparr>) | Inr msg \<Rightarrow> finish (say msg (c\<lparr>pc_mc := m\<rparr>)))"

section \<open>Tests\<close>

text \<open>The reports of the \<open>n\<close>-th run of the tests within one command; \<open>None\<close> is the panic of \<open>config\<close>.\<close>

definition reports_of :: "('d, 'j, 'n) cli_env \<Rightarrow> nat \<Rightarrow> string \<Rightarrow> u64 \<Rightarrow> 'n pc \<Rightarrow> report list option" where
  "reports_of env n name secs c = map_option (\<lambda>cfg. run_tests (ce_test env n) cfg name secs) (test_config (ce_toml env) (mc_fs (pc_mc c)))"

definition unknown_test :: "string \<Rightarrow> string" where
  "unknown_test name = ''unknown test '' @ quoted (concat (map dbg_char name)) @ ''; known: all, '' @ join '', '' (map fst TESTS)"

definition test_cmd :: "('d, 'j, 'n) cli_env \<Rightarrow> string \<Rightarrow> u64 \<Rightarrow> bool \<Rightarrow> 'n pc \<Rightarrow> 'n outcome" where
  "test_cmd env name secs json c =
     (if \<not> is_test name then giving_up (Msg (unknown_test name)) c
      else Option.bind (reports_of env 0 name secs c) (\<lambda>rs.
        let c1 = (if json then say (ce_reports_json env rs) c else fold (\<lambda>r. say (report_text r)) rs c)
        in Some (c1, Inr (if list_all rp_ok rs then 0 else 1))))"

section \<open>Asking\<close>

definition backend_of :: "('d, 'j, 'n) cli_env \<Rightarrow> 'n pc \<Rightarrow> string + backend" where
  "backend_of env c =
     detect (load_assistant (ce_toml env) (mc_fs (pc_mc c)))
       (luna_settings (ce_luna env) (ce_vars env) (is_root env) (sy_host (ce_sys env))) (ce_tags env)"

definition ask_model :: "('d, 'j, 'n) cli_env \<Rightarrow> backend \<Rightarrow> (string \<times> string) list \<Rightarrow> (string list \<times> (string + string)) option" where
  "ask_model env b history = ask (ce_reply env) (ce_server env) (ce_sys env) b history"

text \<open>Printing the stream line by line, without the lines that propose actions. \<open>drain\<close> takes the whole lines off what is held.\<close>

definition starts_action :: "string \<Rightarrow> bool" where
  "starts_action line = starts_with ''ACTION:'' (map upper (trim_start_by is_markup (trim_start line)))"

function drain :: "string \<Rightarrow> string \<times> string" where
  "drain held =
     (case split_once (char_of (10 :: nat)) held of
        None \<Rightarrow> ([], held)
      | Some (l, rest) \<Rightarrow>
          let line = l @ newline; (out, held') = drain rest in ((if starts_action line then [] else line) @ out, held'))"
  by pat_completeness auto
termination
  by (relation "measure length") (auto dest: split_once_Some)

declare drain.simps [simp del]

definition print_piece :: "string \<Rightarrow> string \<times> string \<Rightarrow> string \<times> string" where
  "print_piece piece st = (let (out, held) = st; (more_out, held') = drain (held @ piece) in (out @ more_out, held'))"

definition print_rest :: "string \<Rightarrow> string" where
  "print_rest held = (if starts_with ''ACTION:'' (map upper (trim_start held)) then [] else held @ newline)"

definition suggestions :: "ai_action list \<Rightarrow> string" where
  "suggestions actions =
     (if actions = [] then []
      else newline @ ''suggested:'' @ newline
        @ concat (map (\<lambda>a. ''  sudo ai-firewall '' @ join '' '' (args a) @ ''    # '' @ describe a @ newline) actions))"

definition ask_cmd :: "('d, 'j, 'n) cli_env \<Rightarrow> string \<Rightarrow> 'n pc \<Rightarrow> 'n outcome" where
  "ask_cmd env question c =
     (if trim question = [] then
        giving_up (Msg (''ask a question, e.g. ai-firewall ask '' @ quoted ''why can't my VM reach the internet?'')) c
      else (case backend_of env c of
        Inr b \<Rightarrow> do {
          (chunks, r) \<leftarrow> ask_model env b [(''user'', question)];
          let (out, held) = fold print_piece chunks ([], []);
          (case r of
             Inl e \<Rightarrow> giving_up (Msg e) (c\<lparr>pc_out := pc_out c @ out\<rparr>)
           | Inr reply \<Rightarrow> finish (c\<lparr>pc_out := pc_out c @ out @ print_rest held @ suggestions (parse_actions reply)\<rparr>))
        }
      | Inl why \<Rightarrow> do {
          (t, actions) \<leftarrow> offline_answer (ce_sys env);
          finish (c\<lparr>pc_out := pc_out c @ t @ newline @ suggestions actions\<rparr>)
        }))"

section \<open>Asking, as events\<close>

definition is_test_action :: "ai_action \<Rightarrow> bool" where
  "is_test_action a = (case a of Test _ \<Rightarrow> True | _ \<Rightarrow> False)"

definition wanted_tests :: "ai_action list \<Rightarrow> string list" where
  "wanted_tests = List.map_filter (\<lambda>a. case a of Test n \<Rightarrow> Some n | _ \<Rightarrow> None)"

definition results_message :: "report list \<Rightarrow> string" where
  "results_message rs = ''Live test results:'' @ newline @ join newline (map report_text rs)"

text \<open>Run tests: the event, and the message added to the history.\<close>

definition run_and_emit ::
  "('d, 'j, 'n) cli_env \<Rightarrow> nat \<Rightarrow> string \<Rightarrow> 'n pc \<times> (string \<times> string) list \<Rightarrow> ('n pc \<times> (string \<times> string) list) option" where
  "run_and_emit env n name st =
     (let (c, history) = st in
      map_option (\<lambda>rs. (emit (Ev_Tests rs) c, history @ [(''user'', results_message rs)]))
        (reports_of env n name DEFAULT_TRAFFIC_SECS c))"

definition ask_and_emit ::
  "('d, 'j, 'n) cli_env \<Rightarrow> backend \<Rightarrow> (string \<times> string) list \<Rightarrow> 'n pc \<Rightarrow> ('n pc \<times> (string + string)) option" where
  "ask_and_emit env b history c =
     map_option (\<lambda>(chunks, r). (fold (\<lambda>p. emit (Ev_Chunk p)) chunks c, r)) (ask_model env b history)"

definition typed_name :: "string \<Rightarrow> string option" where
  "typed_name question = map_option (\<lambda>r. if trim r = [] then ''all'' else trim r) (strip_prefix ''/test'' (trim question))"

text \<open>The last event: the error, or the answer with the actions that are kept.\<close>

definition final_answer :: "(ai_action list \<Rightarrow> ai_action list) \<Rightarrow> 'n pc \<times> (string + string) \<Rightarrow> 'n outcome" where
  "final_answer keep x =
     finish (emit (case snd x of
         Inl e \<Rightarrow> Ev_Error e
       | Inr full \<Rightarrow> Ev_Done (strip_actions full) (keep (parse_actions full)) False) (fst x))"

text \<open>The round of tests the model asked for, and what it then says.\<close>

definition second_round ::
  "('d, 'j, 'n) cli_env \<Rightarrow> backend \<Rightarrow> string \<Rightarrow> string list \<Rightarrow> 'n pc \<Rightarrow> (string \<times> string) list \<Rightarrow> 'n outcome" where
  "second_round env b full wanted c history = do {
     st \<leftarrow> run_and_emit env 1 (if 1 < length wanted then ''all'' else hd wanted) (emit (Ev_Chunk newline) c, history @ [(''assistant'', full)]);
     x \<leftarrow> ask_and_emit env b (snd st) (fst st);
     final_answer (filter (\<lambda>a. \<not> is_test_action a)) x
   }"

definition tested :: "(string \<times> string) list \<Rightarrow> bool" where
  "tested history = list_ex (\<lambda>h. starts_with ''Live test results'' (snd h)) history"

text \<open>With a model at hand.\<close>

definition answer_events :: "('d, 'j, 'n) cli_env \<Rightarrow> backend \<Rightarrow> 'n pc \<times> (string \<times> string) list \<Rightarrow> 'n outcome" where
  "answer_events env b st = do {
     x \<leftarrow> ask_and_emit env b (snd st) (fst st);
     (case snd x of
        Inl _ \<Rightarrow> final_answer id x
      | Inr full \<Rightarrow>
          let wanted = wanted_tests (parse_actions full) in
          if wanted \<noteq> [] \<and> \<not> tested (snd st) then second_round env b full wanted (fst x) (snd st) else final_answer id x)
   }"

text \<open>Without one.\<close>

definition offline_events :: "('d, 'j, 'n) cli_env \<Rightarrow> 'n pc \<Rightarrow> 'n outcome" where
  "offline_events env c = Option.bind (offline_answer (ce_sys env)) (\<lambda>ta. finish (emit (Ev_Done (fst ta) (snd ta) True) c))"

definition after_tests :: "('d, 'j, 'n) cli_env \<Rightarrow> string + backend \<Rightarrow> 'n pc \<times> (string \<times> string) list \<Rightarrow> 'n outcome" where
  "after_tests env backend st = (case backend of Inl _ \<Rightarrow> finish (emit (Ev_Done [] [] False) (fst st)) | Inr b \<Rightarrow> answer_events env b st)"

definition with_model_name :: "string + backend \<Rightarrow> 'n pc \<Rightarrow> 'n pc" where
  "with_model_name backend c = (case backend of Inr b \<Rightarrow> emit (Ev_Model (be_model b @ '' via '' @ be_via b)) c | Inl _ \<Rightarrow> c)"

definition ask_json_cmd :: "('d, 'j, 'n) cli_env \<Rightarrow> string \<Rightarrow> 'n pc \<Rightarrow> 'n outcome" where
  "ask_json_cmd env question c =
     (if trim question = [] then finish (emit (Ev_Error ''empty question'') c)
      else
        let backend = backend_of env c; c1 = with_model_name backend c in
        (case typed_name question of
           Some name \<Rightarrow>
             if \<not> is_test name then finish (emit (Ev_Error (''unknown test '' @ quoted (concat (map dbg_char name)))) c1)
             else Option.bind (run_and_emit env 0 name (c1, [])) (after_tests env backend)
         | None \<Rightarrow>
             (case backend of
                Inl _ \<Rightarrow> offline_events env c1
              | Inr b \<Rightarrow> answer_events env b (c1, [(''user'', question)]))))"

section \<open>Status\<close>

definition js_n :: "'j json \<Rightarrow> 'j \<Rightarrow> string \<Rightarrow> u64" where
  "js_n J s k = opt_or (jv_u64 J (jv_at J s k)) 0"

definition js_s :: "'j json \<Rightarrow> 'j \<Rightarrow> string \<Rightarrow> string option" where
  "js_s J s k = jv_str J (jv_at J s k)"

definition js_rows :: "'j json \<Rightarrow> 'j \<Rightarrow> string \<Rightarrow> 'j list" where
  "js_rows J s k = opt_or (jv_array J (jv_at J s k)) []"

definition js_list :: "'j json \<Rightarrow> 'j \<Rightarrow> string \<Rightarrow> string" where
  "js_list J s k =
     (let v = map (\<lambda>p. opt_or (jv_str J p) (jv_show J p)) (js_rows J s k) in if v = [] then ''none'' else join '' '' v)"

definition label_col :: "string \<Rightarrow> string" where "label_col l = ''  '' @ pad 11 l"

definition under :: string where "under = newline @ replicate 13 (CHR '' '')"

definition opt_line :: "string option \<Rightarrow> (string \<Rightarrow> string) \<Rightarrow> string list" where
  "opt_line found f = (case found of Some x \<Rightarrow> [f x] | None \<Rightarrow> [])"

definition status_head :: "'j json \<Rightarrow> 'j \<Rightarrow> bool \<Rightarrow> string list" where
  "status_head J s is_alive =
     [''ai-firewall  '' @ (if is_alive then ''running'' else ''NOT RESPONDING'') @ ''  '' @ opt_or (js_s J s ''mode'') ''?'' @ '' mode'',
      label_col ''guarding'' @ opt_or (js_s J s ''interface'') ''nothing yet'' @ '' ('' @ opt_or (js_s J s ''xdp_mode'') ''-'' @ '' XDP), up ''
        @ duration (max (sat_sub (js_n J s ''updated_unix'') (js_n J s ''started_unix'')) 1) @ '', attached '' @ show_word (js_n J s ''attaches'')
        @ ''x'']
     @ opt_line (js_s J s ''posture'') (\<lambda>p. label_col ''posture'' @ p @ '' (ai-firewall posture)'')
     @ opt_line (js_s J s ''posture_error'') (\<lambda>e. label_col ''posture'' @ ''ignored: '' @ e)
     @ opt_line (js_s J s ''config_error'') (\<lambda>e. label_col ''CONFIG'' @ ''has an error, the last config that worked is in force:'' @ under @ e)
     @ [label_col ''profile'' @ opt_or (js_s J s ''profile'') ''default (no profile matches this network)'']"

definition status_traffic :: "'j json \<Rightarrow> 'j \<Rightarrow> string list" where
  "status_traffic J s =
     [label_col ''open tcp'' @ js_list J s ''allow_tcp'',
      label_col ''open udp'' @ js_list J s ''allow_udp'' @ ''  (''
        @ (if jv_bool J (jv_at J s ''udp_strict'') = Some True then ''other UDP only as replies to your own''
           else ''high ports open to replies'') @ '')'',
      label_col ''packets'' @ show_word (js_n J s ''passed'') @ '' passed, '' @ show_word (js_n J s ''dropped_policy'') @ '' dropped by policy, ''
        @ show_word (js_n J s ''dropped_blocklist'') @ '' from banned sources'',
      label_col ''watching'' @ show_word (js_n J s ''tracked_sources'') @ '' sources, '' @ show_word (js_n J s ''events_lost'') @ '' events lost'']
     @ (if 0 < js_n J s ''feed_networks'' then
          [label_col ''feeds'' @ show_word (js_n J s ''feed_networks'') @ '' known-bad networks (''
            @ join '', '' (List.map_filter (\<lambda>f. js_s J f ''name'') (js_rows J s ''feeds'')) @ ''), ''
            @ show_word (js_n J s ''dropped_feed'') @ '' packets from them dropped''] else [])
     @ (let rules = List.map_filter (jv_str J) (js_rows J s ''rules'') in if rules = [] then [] else [label_col ''rules'' @ join under rules])"

definition status_ban_line :: "'j json \<Rightarrow> 'j \<Rightarrow> string" where
  "status_ban_line J b =
     ''  '' @ pad 24 (opt_or (js_s J b ''ip'') ''?'') @ ''  '' @ pad_left 8 (duration (js_n J b ''remaining_secs'')) @ ''  ''
     @ pad 6 (opt_or (js_s J b ''source'') []) @ ''  '' @ opt_or (js_s J b ''reason'') []"

definition status_recent_line :: "'j json \<Rightarrow> u64 \<Rightarrow> 'j \<Rightarrow> string" where
  "status_recent_line J now r =
     ''  '' @ pad 24 (opt_or (js_s J r ''ip'') ''?'') @ ''  '' @ pad_left 6 (duration (max (sat_sub now (js_n J r ''at_unix'')) 1)) @ '' ago  ''
     @ (if jv_bool J (jv_at J r ''enforced'') = Some True then [] else ''[monitor] '') @ opt_or (js_s J r ''reason'') [] @ '' on ''
     @ opt_or (js_s J r ''ports'') ''?'' @ '' (score '' @ jv_decimal J (jv_at J r ''score'') @ '', strike '' @ show_word (js_n J r ''strikes'') @ '')''"

definition status_lines :: "'j json \<Rightarrow> sys \<Rightarrow> 'j \<Rightarrow> string list" where
  "status_lines J y s =
     (let now = unix_secs (sy_host y);
          is_alive = daemon_alive (sy_exists y) (ucast (js_n J s ''pid'')) (js_n J s ''updated_unix'') now;
          bans = js_rows J s ''bans''; recents = js_rows J s ''recent''
      in status_head J s is_alive @ status_traffic J s
         @ [newline @ ''bans ('' @ show_nat (length bans) @ '')''] @ map (status_ban_line J) bans
         @ (if recents = [] then [] else [newline @ ''recent detections''] @ map (status_recent_line J now) (take 10 (rev recents))))"

definition status_cmd :: "('d, 'j, 'n) cli_env \<Rightarrow> 'n pc \<Rightarrow> 'n outcome" where
  "status_cmd env c =
     (case files (mc_fs (pc_mc c)) STATUS_FILE of
        None \<Rightarrow> giving_up (Msg (''ai-firewall is not running (no '' @ STATUS_FILE @ '')'')) c
      | Some t \<Rightarrow>
          (case jv_parse (ce_json env) t of
             Inl e \<Rightarrow> giving_up e c
           | Inr s \<Rightarrow> finish (fold say (status_lines (ce_json env) (ce_sys env) s) c)))"

section \<open>The command line\<close>

datatype cmd =
    Cmd_Run
  | Cmd_Status
  | Cmd_Top bool
  | Cmd_Ban src u64
  | Cmd_Unban src
  | Cmd_Open string string
  | Cmd_Close string string
  | Cmd_History nat bool
  | Cmd_Feeds bool
  | Cmd_Ask "string list" bool
  | Cmd_Off
  | Cmd_Doctor bool bool bool
  | Cmd_Fix string
  | Cmd_Test string u64 bool
  | Cmd_Posture "string option" "string list" bool
  | Cmd_Check
  | Cmd_Default_Config

text \<open>\<open>daemon\<close> and \<open>board\<close> are what the daemon and the dashboard do, models of their own.\<close>

fun run_cmd ::
  "('d, 'j, 'n) cli_env \<Rightarrow> ('n pc \<Rightarrow> 'n outcome) \<Rightarrow> (bool \<Rightarrow> 'n pc \<Rightarrow> 'n outcome) \<Rightarrow> cmd \<Rightarrow> 'n pc \<Rightarrow> 'n outcome" where
  "run_cmd env daemon board Cmd_Run c = as_root env daemon c"
| "run_cmd env daemon board Cmd_Status c = status_cmd env c"
| "run_cmd env daemon board (Cmd_Top asking) c = board asking c"
| "run_cmd env daemon board (Cmd_Ban ip minutes) c = ban_cmd env ip minutes c"
| "run_cmd env daemon board (Cmd_Unban ip) c = unban_cmd env ip c"
| "run_cmd env daemon board (Cmd_Open proto port) c = port_cmd env proto port True c"
| "run_cmd env daemon board (Cmd_Close proto port) c = port_cmd env proto port False c"
| "run_cmd env daemon board (Cmd_History n json) c = history_cmd env n json c"
| "run_cmd env daemon board (Cmd_Feeds fresh) c = feeds_cmd env fresh c"
| "run_cmd env daemon board (Cmd_Ask question json) c =
     (if json then ask_json_cmd env (join '' '' question) c else ask_cmd env (join '' '' question) c)"
| "run_cmd env daemon board Cmd_Off c = off_cmd env c"
| "run_cmd env daemon board (Cmd_Doctor fix' yes json) c = doctor_cmd env fix' yes json c"
| "run_cmd env daemon board (Cmd_Fix i) c = fix_cmd env i c"
| "run_cmd env daemon board (Cmd_Test name secs json) c = test_cmd env name secs json c"
| "run_cmd env daemon board (Cmd_Posture name nets json) c = posture_cmd env name nets json c"
| "run_cmd env daemon board Cmd_Check c = check_cmd env c"
| "run_cmd env daemon board Cmd_Default_Config c = default_config_cmd c"

end
