(* ===== verification/Dashboard.thy ===== *)
theory Dashboard
  imports Cli
begin

text \<open>
  The dashboard \<open>ai-firewall top\<close> (src/ai-firewall/src/tui.rs): its state, the conversation with the model and the live tests, what each
  key does, and the loop. The worker threads are the list of messages they will send; how many of them have arrived when the loop polls is
  an input of the loop, so that every interleaving is covered; a panic in a worker ends its messages. What the system answers during one
  round is the record \<open>dash_env\<close>. Drawing and the times of the loop are left out; the table of the terminal library that holds which ban
  is selected is a parameter.
\<close>

section \<open>Colours\<close>

type_synonym colour = "u8 \<times> u8 \<times> u8"

record palette =
  pl_bg :: colour
  pl_surface :: colour
  pl_surface_hi :: colour
  pl_accent :: colour
  pl_accent2 :: colour
  pl_text :: colour
  pl_muted :: colour
  pl_good :: colour
  pl_bad :: colour
  pl_warn :: colour

definition hex :: "string \<Rightarrow> colour option" where
  "hex s = do {
     t \<leftarrow> strip_prefix ''#'' s;
     if length t \<noteq> 6 then None
     else map_option (\<lambda>v. (ucast (drop_bit 16 v), ucast (drop_bit 8 v), ucast v)) (parse_hex32 t)
   }"

definition halcyon_default :: palette where
  "halcyon_default =
     \<lparr>pl_bg = (0x14, 0x16, 0x1f), pl_surface = (0x1e, 0x21, 0x30), pl_surface_hi = (0x27, 0x2b, 0x3d), pl_accent = (0x9a, 0xa9, 0xd4),
      pl_accent2 = (0xc2, 0xad, 0xd8), pl_text = (0xdc, 0xdd, 0xe8), pl_muted = (0x94, 0x96, 0xa8), pl_good = (0x8f, 0xd6, 0xa8),
      pl_bad = (0xf2, 0x87, 0x9b), pl_warn = (0xf0, 0xc2, 0x7b)\<rparr>"

text \<open>\<open>json\<close> gives the strings of the palette, or nothing when the file cannot be read or parsed.\<close>

definition pal_load :: "(string \<Rightarrow> string option) option \<Rightarrow> palette" where
  "pal_load json =
     (case json of
        None \<Rightarrow> halcyon_default
      | Some str \<Rightarrow>
          let get = (\<lambda>k c. opt_or (Option.bind (str k) hex) c); p = halcyon_default
          in p\<lparr>pl_bg := get ''bg'' (pl_bg p), pl_surface := get ''surface'' (pl_surface p),
               pl_surface_hi := get ''surfaceHi'' (pl_surface_hi p), pl_accent := get ''accent'' (pl_accent p),
               pl_accent2 := get ''accent2'' (pl_accent2 p), pl_text := get ''text'' (pl_text p), pl_muted := get ''muted'' (pl_muted p)\<rparr>)"

definition palette_path :: "(string \<Rightarrow> string option) \<Rightarrow> bool \<Rightarrow> host \<Rightarrow> string option" where
  "palette_path env rooted h =
     map_option (\<lambda>home. path_join home ''.cache/island/palette.json'')
       (case env ''SUDO_USER'' of
          Some user \<Rightarrow>
            if rooted then
              Option.bind (h_files h ''/etc/passwd'')
                (\<lambda>passwd. map_option (\<lambda>f. f ! 5) (find (\<lambda>f. 5 < length f \<and> f ! 0 = user) (map split_colons (str_lines passwd))))
            else env ''HOME''
        | None \<Rightarrow> env ''HOME'')"

section \<open>The conversation\<close>

datatype chat_msg =
    Cm_Backend string
  | Cm_Chunk string
  | Cm_Done string
  | Cm_Offline string "ai_action list"
  | Cm_Error string
  | Cm_Tests string
  | Cm_Idle

text \<open>\<open>ct_streaming\<close> holds the messages of the worker that have not been received.\<close>

record chat =
  ct_input :: string
  ct_history :: "(string \<times> string) list"
  ct_raw :: "(string \<times> string) list"
  ct_streaming :: "chat_msg list option"
  ct_current :: string
  ct_actions :: "ai_action list"
  ct_confirm :: "nat option"
  ct_model :: "string option"
  ct_testing :: bool

definition chat_default :: chat where
  "chat_default = \<lparr>ct_input = [], ct_history = [], ct_raw = [], ct_streaming = None, ct_current = [], ct_actions = [], ct_confirm = None,
     ct_model = None, ct_testing = False\<rparr>"

definition stream_reply :: "('d, 'j, 'n) cli_env \<Rightarrow> backend \<Rightarrow> (string \<times> string) list \<Rightarrow> chat_msg list" where
  "stream_reply env b raw =
     Cm_Backend (be_model b @ '' via '' @ be_via b)
     # (case ask_model env b raw of
          None \<Rightarrow> []
        | Some (chunks, result) \<Rightarrow> map Cm_Chunk chunks @ [case result of Inr full \<Rightarrow> Cm_Done full | Inl e \<Rightarrow> Cm_Error e])"

definition ask_worker :: "('d, 'j, 'n) cli_env \<Rightarrow> 'n pc \<Rightarrow> (string \<times> string) list \<Rightarrow> chat_msg list" where
  "ask_worker env c raw =
     (case backend_of env c of
        Inr b \<Rightarrow> stream_reply env b raw
      | Inl why \<Rightarrow>
          (case offline_answer (ce_sys env) of
             None \<Rightarrow> []
           | Some (answer, actions) \<Rightarrow>
               [Cm_Offline (''No local model ('' @ why @ ''). Here'' @ [char_of (39 :: nat)] @ ''s what the doctor found:'' @ newline @ answer) actions]))"

definition live_results :: "string \<Rightarrow> string \<times> string" where
  "live_results t = (''user'', ''Live test results:'' @ newline @ t)"

definition test_worker :: "('d, 'j, 'n) cli_env \<Rightarrow> 'n pc \<Rightarrow> string \<Rightarrow> (string \<times> string) list \<Rightarrow> chat_msg list" where
  "test_worker env c name raw =
     (case reports_of env 0 name DEFAULT_TRAFFIC_SECS c of
        None \<Rightarrow> []
      | Some reports \<Rightarrow>
          let t = join newline (map report_text reports) in
          Cm_Tests t # (case backend_of env c of Inr b \<Rightarrow> stream_reply env b (raw @ [live_results t]) | Inl _ \<Rightarrow> [Cm_Idle]))"

definition send :: "('d, 'j, 'n) cli_env \<Rightarrow> 'n pc \<Rightarrow> chat \<Rightarrow> chat" where
  "send env c ch =
     (let question = trim (ct_input ch); ch1 = ch\<lparr>ct_input := []\<rparr> in
      if question = [] \<or> ct_streaming ch \<noteq> None then ch1
      else
        let raw = ct_raw ch @ [(''user'', question)] in
        ch1\<lparr>ct_history := ct_history ch @ [(''user'', question)], ct_raw := raw, ct_actions := [], ct_confirm := None, ct_current := [],
            ct_streaming := Some (ask_worker env c raw)\<rparr>)"

definition run_test :: "('d, 'j, 'n) cli_env \<Rightarrow> 'n pc \<Rightarrow> string \<Rightarrow> chat \<Rightarrow> chat" where
  "run_test env c name ch =
     (if ct_streaming ch \<noteq> None then ch
      else ch\<lparr>ct_input := [], ct_history := ct_history ch @ [(''user'', ''/test '' @ name)], ct_actions := [], ct_confirm := None,
              ct_current := [], ct_testing := True, ct_streaming := Some (test_worker env c name (ct_raw ch))\<rparr>)"

definition typed_test :: "chat \<Rightarrow> (string + string) option" where
  "typed_test ch =
     map_option (\<lambda>rest.
         let name = trim rest in
         if name = [] \<or> name = ''all'' then Inr ''all''
         else if list_ex (\<lambda>t. fst t = name) TESTS then Inr name
         else Inl (unknown_test name))
       (strip_prefix ''/test'' (trim (ct_input ch)))"

text \<open>What the messages that have arrived do, and whether the worker was done without a reply. The reply that ended the stream, if any, is
  kept aside, with the actions that came with it.\<close>

fun receive :: "chat_msg list \<Rightarrow> chat \<times> (string \<times> ai_action list option) option \<Rightarrow> (chat \<times> (string \<times> ai_action list option) option) \<times> bool"
where
  "receive [] st = (st, False)"
| "receive (m # ms) (ch, finished) =
     (case m of
        Cm_Backend name \<Rightarrow> receive ms (ch\<lparr>ct_model := Some name\<rparr>, finished)
      | Cm_Chunk piece \<Rightarrow> receive ms (ch\<lparr>ct_current := ct_current ch @ piece\<rparr>, finished)
      | Cm_Done full \<Rightarrow> receive ms (ch, Some (full, None))
      | Cm_Offline answer actions \<Rightarrow> receive ms (ch, Some (answer, Some actions))
      | Cm_Error e \<Rightarrow> receive ms (ch, Some (''The model failed: '' @ e, Some []))
      | Cm_Tests t \<Rightarrow>
          receive ms (ch\<lparr>ct_testing := False, ct_raw := ct_raw ch @ [live_results t], ct_history := ct_history ch @ [(''test'', t)]\<rparr>, finished)
      | Cm_Idle \<Rightarrow> ((ch\<lparr>ct_testing := False, ct_streaming := None\<rparr>, finished), True))"

definition poll :: "nat \<Rightarrow> chat \<Rightarrow> chat \<times> bool" where
  "poll arrived ch =
     (case ct_streaming ch of
        None \<Rightarrow> (ch, False)
      | Some pending \<Rightarrow>
          (case receive (take arrived pending) (ch\<lparr>ct_streaming := Some (drop arrived pending)\<rparr>, None) of
             ((ch1, _), True) \<Rightarrow> (ch1, False)
           | ((ch1, finished), False) \<Rightarrow>
               let ch2 = (case finished of
                   None \<Rightarrow> ch1
                 | Some (answer, actions) \<Rightarrow>
                     ch1\<lparr>ct_actions := opt_or actions (parse_actions answer),
                         ct_history := ct_history ch1 @ [(''assistant'', strip_actions answer)],
                         ct_raw := ct_raw ch1 @ [(''assistant'', answer)], ct_current := [], ct_streaming := None\<rparr>)
               in (ch2, ct_streaming ch2 \<noteq> None)))"

section \<open>The dashboard\<close>

datatype prompt = No_Prompt | Ask_Ban string

text \<open>\<open>ap_ran\<close> are the commands that were run; a message is its text and whether it is good news.\<close>

record app =
  ap_chat :: "chat option"
  ap_status :: "status_view option"
  ap_pal :: palette
  ap_pal_path :: "string option"
  ap_bans :: "nat option"
  ap_drops :: "u64 list"
  ap_passes :: "u64 list"
  ap_last :: "(u64 \<times> u64) option"
  ap_prompt :: prompt
  ap_message :: "(string \<times> bool) option"
  ap_ran :: "string list list"

datatype act_output = Ran bool string string | Not_Started string

text \<open>\<open>de_next\<close>, \<open>de_previous\<close> and \<open>de_drawn\<close> are the selection of the table after its operations and after it was drawn;
  \<open>de_output\<close> is what a command that is run answers, \<open>de_json\<close> the parser of the palette.\<close>

record ('d, 'j, 'n) dash_env =
  de_cli :: "('d, 'j, 'n) cli_env"
  de_pc :: "'n pc"
  de_json :: "string \<Rightarrow> (string \<Rightarrow> string option) option"
  de_next :: "nat option \<Rightarrow> nat option"
  de_previous :: "nat option \<Rightarrow> nat option"
  de_drawn :: "nat option \<Rightarrow> nat option"
  de_exe :: string
  de_output :: "string list \<Rightarrow> act_output"
  de_src_error :: "string \<Rightarrow> string"

definition HISTORY :: nat where "HISTORY = 120"

definition push :: "u64 list \<Rightarrow> u64 \<Rightarrow> u64 list" where
  "push q v = (if length q = HISTORY then tl q else q) @ [v]"

definition refit :: "nat \<Rightarrow> nat option \<Rightarrow> nat option" where
  "refit n selected =
     (if n = 0 then None
      else case selected of None \<Rightarrow> Some 0 | Some i \<Rightarrow> if n \<le> i then Some (n - 1) else Some i)"

definition load_palette :: "('d, 'j, 'n) dash_env \<Rightarrow> string option \<Rightarrow> palette" where
  "load_palette env path =
     pal_load (do { p \<leftarrow> path; t \<leftarrow> h_files (sy_host (ce_sys (de_cli env))) p; de_json env t })"

definition dash_refresh :: "('d, 'j, 'n) dash_env \<Rightarrow> app \<Rightarrow> app" where
  "dash_refresh env a =
     (let a1 = a\<lparr>ap_pal := load_palette env (ap_pal_path a), ap_status := sy_status (ce_sys (de_cli env))\<rparr> in
      case ap_status a1 of
        None \<Rightarrow> a1
      | Some s \<Rightarrow>
          let dropped = vw_dropped_policy s + vw_dropped_blocklist s;
              a2 = (case ap_last a1 of
                  None \<Rightarrow> a1
                | Some (p, d) \<Rightarrow> a1\<lparr>ap_passes := push (ap_passes a1) (sat_sub (vw_passed s) p), ap_drops := push (ap_drops a1) (sat_sub dropped d)\<rparr>)
          in a2\<lparr>ap_last := Some (vw_passed s, dropped), ap_bans := refit (length (vw_bans s)) (ap_bans a2)\<rparr>)"

definition tell :: "string \<Rightarrow> bool \<Rightarrow> app \<Rightarrow> app" where
  "tell t ok a = a\<lparr>ap_message := Some (t, ok)\<rparr>"

definition nth_opt :: "'a list \<Rightarrow> nat \<Rightarrow> 'a option" where
  "nth_opt xs i = (if i < length xs then Some (xs ! i) else None)"

definition selected_ban :: "app \<Rightarrow> ban_view option" where
  "selected_ban a = do { s \<leftarrow> ap_status a; i \<leftarrow> ap_bans a; nth_opt (vw_bans s) i }"

section \<open>Running a command\<close>

definition act_command :: "bool \<Rightarrow> string \<Rightarrow> string list \<Rightarrow> string list" where
  "act_command root_user exe arguments =
     (if hd arguments = ''reload''
      then (if root_user then [''systemctl''] else [''sudo'', ''-n'', ''systemctl'']) @ [''reload'', ''ai-firewall'']
      else (if root_user then [exe] else [''sudo'', ''-n'', exe]) @ arguments)"

function trim_start_str :: "string \<Rightarrow> string \<Rightarrow> string" where
  "trim_start_str p s = (if p \<noteq> [] \<and> starts_with p s then trim_start_str p (drop (length p) s) else s)"
  by pat_completeness auto
termination
proof (relation "measure (length \<circ> snd)")
  fix p s :: string
  assume "p \<noteq> [] \<and> starts_with p s"
  then show "((p, drop (length p) s), p, s) \<in> measure (length \<circ> snd)" by (cases s) (auto simp: starts_with_def)
qed simp

declare trim_start_str.simps [simp del]

definition act_message :: "act_output \<Rightarrow> string \<times> bool" where
  "act_message out =
     (case out of
        Ran True stdout _ \<Rightarrow> (if trim stdout = [] then ''config reloaded'' else trim stdout, True)
      | Ran False _ err \<Rightarrow>
          (if contains_str ''password'' err then ''needs root: open the dashboard with `sudo ai-firewall top`''
           else trim_start_str ''Error: '' (trim err), False)
      | Not_Started e \<Rightarrow> (e, False))"

definition act :: "('d, 'j, 'n) dash_env \<Rightarrow> string list \<Rightarrow> app \<Rightarrow> app" where
  "act env arguments a =
     (let cmd = act_command (is_root (de_cli env)) (de_exe env) arguments; (t, ok) = act_message (de_output env cmd)
      in tell t ok (a\<lparr>ap_ran := ap_ran a @ [cmd]\<rparr>))"

section \<open>Keys\<close>

datatype key_code = Key_Esc | Key_Enter | Key_Backspace | Key_Down | Key_Up | Key_Char char | Key_Other

record key =
  ky_code :: key_code
  ky_ctrl :: bool
  ky_press :: bool

definition set_chat :: "chat \<Rightarrow> app \<Rightarrow> app" where "set_chat ch a = a\<lparr>ap_chat := Some ch\<rparr>"

definition typed :: "char \<Rightarrow> chat \<Rightarrow> chat" where "typed c ch = ch\<lparr>ct_input := ct_input ch @ [c]\<rparr>"

text \<open>The answer to the question whether an action is to be run.\<close>

definition confirm_key :: "('d, 'j, 'n) dash_env \<Rightarrow> key_code \<Rightarrow> nat \<Rightarrow> chat \<Rightarrow> app \<Rightarrow> app" where
  "confirm_key env code i ch a =
     (let a1 = set_chat (ch\<lparr>ct_confirm := None\<rparr>) a in
      case (code, nth_opt (ct_actions ch) i) of
        (Key_Char c, Some action) \<Rightarrow>
          if c = CHR ''y'' \<or> c = CHR ''Y'' then dash_refresh env (act env (args action) a1) else a1
      | _ \<Rightarrow> a1)"

definition digit_key :: "('d, 'j, 'n) dash_env \<Rightarrow> char \<Rightarrow> chat \<Rightarrow> chat" where
  "digit_key env c ch =
     (let i = of_char c - 49 in
      case nth_opt (ct_actions ch) i of
        Some (Test name) \<Rightarrow> run_test (de_cli env) (de_pc env) name ch
      | _ \<Rightarrow> if i < length (ct_actions ch) then ch\<lparr>ct_confirm := Some i\<rparr> else typed c ch)"

definition chat_key :: "('d, 'j, 'n) dash_env \<Rightarrow> key_code \<Rightarrow> chat \<Rightarrow> app \<Rightarrow> app" where
  "chat_key env code ch a =
     (case code of
        Key_Esc \<Rightarrow> a\<lparr>ap_chat := None\<rparr>
      | Key_Enter \<Rightarrow>
          (case typed_test ch of
             Some (Inr name) \<Rightarrow> set_chat (run_test (de_cli env) (de_pc env) name ch) a
           | Some (Inl e) \<Rightarrow> tell e False (set_chat (ch\<lparr>ct_input := []\<rparr>) a)
           | None \<Rightarrow> set_chat (send (de_cli env) (de_pc env) ch) a)
      | Key_Backspace \<Rightarrow> set_chat (ch\<lparr>ct_input := butlast (ct_input ch)\<rparr>) a
      | Key_Char c \<Rightarrow>
          set_chat (if ct_input ch = [] \<and> is_digit c \<and> c \<noteq> CHR ''0'' then digit_key env c ch else typed c ch) a
      | _ \<Rightarrow> a)"

definition src_char :: "char \<Rightarrow> bool" where
  "src_char c = (to_digit 16 c \<noteq> None \<or> c = CHR ''.'' \<or> c = CHR '':'' \<or> c = CHR ''/'')"

definition prompt_key :: "('d, 'j, 'n) dash_env \<Rightarrow> key_code \<Rightarrow> string \<Rightarrow> app \<Rightarrow> app" where
  "prompt_key env code input a =
     (case code of
        Key_Esc \<Rightarrow> a\<lparr>ap_prompt := No_Prompt\<rparr>
      | Key_Backspace \<Rightarrow> a\<lparr>ap_prompt := Ask_Ban (butlast input)\<rparr>
      | Key_Char c \<Rightarrow> if src_char c then a\<lparr>ap_prompt := Ask_Ban (input @ [c])\<rparr> else a
      | Key_Enter \<Rightarrow>
          let a1 = a\<lparr>ap_prompt := No_Prompt\<rparr> in
          (case src_from_str input of
             Some ip \<Rightarrow> act env [''ban'', show_src ip, ''--minutes'', ''60''] a1
           | None \<Rightarrow> tell (de_src_error env input) False a1)
      | _ \<Rightarrow> a)"

definition unban_key :: "('d, 'j, 'n) dash_env \<Rightarrow> app \<Rightarrow> app" where
  "unban_key env a =
     (case selected_ban a of
        None \<Rightarrow> tell ''no ban selected'' False a
      | Some b \<Rightarrow>
          if bv_source b = ''config'' then tell (bv_ip b @ '' is blocked in the config file; remove it there'') False a
          else act env [''unban'', bv_ip b] a)"

definition main_key :: "('d, 'j, 'n) dash_env \<Rightarrow> key_code \<Rightarrow> app \<Rightarrow> app option" where
  "main_key env code a =
     (let down = a\<lparr>ap_bans := de_next env (ap_bans a)\<rparr>; up = a\<lparr>ap_bans := de_previous env (ap_bans a)\<rparr> in
      case code of
        Key_Esc \<Rightarrow> None
      | Key_Down \<Rightarrow> Some down
      | Key_Up \<Rightarrow> Some up
      | Key_Char c \<Rightarrow>
          if c = CHR ''q'' then None
          else if c = CHR ''j'' then Some down
          else if c = CHR ''k'' then Some up
          else if c = CHR ''u'' then Some (unban_key env a)
          else if c = CHR ''b'' then Some (a\<lparr>ap_prompt := Ask_Ban []\<rparr>)
          else if c = CHR ''a'' \<or> c = CHR ''?'' then Some (set_chat chat_default a)
          else if c = CHR ''r'' then Some (act env [''reload''] a)
          else Some a
      | _ \<Rightarrow> Some a)"

definition on_key :: "('d, 'j, 'n) dash_env \<Rightarrow> key \<Rightarrow> app \<Rightarrow> app option" where
  "on_key env k a =
     (if \<not> ky_press k then Some a
      else if ky_code k = Key_Char (CHR ''c'') \<and> ky_ctrl k then None
      else case ap_chat a of
        Some ch \<Rightarrow> Some (case ct_confirm ch of Some i \<Rightarrow> confirm_key env (ky_code k) i ch a | None \<Rightarrow> chat_key env (ky_code k) ch a)
      | None \<Rightarrow> (case ap_prompt a of Ask_Ban input \<Rightarrow> Some (prompt_key env (ky_code k) input a) | No_Prompt \<Rightarrow> main_key env (ky_code k) a))"

section \<open>The loop\<close>

datatype tui_event = Timeout | Pressed key | Other_Event

text \<open>What arrived is taken in, and the screen drawn.\<close>

definition take_in :: "('d, 'j, 'n) dash_env \<Rightarrow> nat \<Rightarrow> app \<Rightarrow> app" where
  "take_in env arrived a =
     (let a1 = a\<lparr>ap_chat := map_option (\<lambda>ch. fst (poll arrived ch)) (ap_chat a)\<rparr> in a1\<lparr>ap_bans := de_drawn env (ap_bans a1)\<rparr>)"

definition dash_round :: "('d, 'j, 'n) dash_env \<Rightarrow> nat \<Rightarrow> tui_event \<Rightarrow> app \<Rightarrow> app option" where
  "dash_round env arrived ev a =
     (let a1 = take_in env arrived a in
      case ev of
        Timeout \<Rightarrow> Some (dash_refresh env a1)
      | Pressed k \<Rightarrow> on_key env k a1
      | Other_Event \<Rightarrow> Some a1)"

definition dash_start :: "('d, 'j, 'n) dash_env \<Rightarrow> bool \<Rightarrow> app" where
  "dash_start env asking =
     (let path = palette_path (ce_vars (de_cli env)) (is_root (de_cli env)) (sy_host (ce_sys (de_cli env))) in
      dash_refresh env
        \<lparr>ap_chat = (if asking then Some chat_default else None), ap_status = None, ap_pal = load_palette env path, ap_pal_path = path,
         ap_bans = None, ap_drops = [], ap_passes = [], ap_last = None, ap_prompt = No_Prompt, ap_message = None, ap_ran = []\<rparr>)"

text \<open>The state after the rounds, and whether the loop was left.\<close>

fun event_loop :: "(('d, 'j, 'n) dash_env \<times> nat \<times> tui_event) list \<Rightarrow> app \<Rightarrow> app \<times> bool" where
  "event_loop [] a = (a, False)"
| "event_loop ((env, arrived, ev) # rounds) a =
     (case dash_round env arrived ev a of None \<Rightarrow> (a, True) | Some a' \<Rightarrow> event_loop rounds a')"

definition dash_run ::
  "('d, 'j, 'n) dash_env \<Rightarrow> bool \<Rightarrow> bool \<Rightarrow> (('d, 'j, 'n) dash_env \<times> nat \<times> tui_event) list \<Rightarrow> error + app \<times> bool" where
  "dash_run env tty asking rounds =
     (if \<not> tty then Inl (Msg ''the dashboard needs a terminal; use `ai-firewall status` in scripts'')
      else Inr (event_loop rounds (dash_start env asking)))"

text \<open>The command \<open>top\<close>, up to the end of the rounds. Each command that was run is a process of its own.\<close>

definition top_cmd ::
  "('d, 'j, 'n) dash_env \<Rightarrow> (('d, 'j, 'n) dash_env \<times> nat \<times> tui_event) list \<Rightarrow> bool \<Rightarrow> 'n pc \<Rightarrow> 'n outcome" where
  "top_cmd env rounds asking c =
     (case dash_run env (ce_tty (de_cli env)) asking rounds of
        Inl e \<Rightarrow> giving_up e c
      | Inr (a, _) \<Rightarrow> finish (c\<lparr>pc_mc := (pc_mc c)\<lparr>mc_cmds := mc_cmds (pc_mc c) @ map (\<lambda>cmd. (hd cmd, tl cmd)) (ap_ran a)\<rparr>\<rparr>))"

section \<open>Wrapping\<close>

text \<open>Greedy word wrap; \<open>cut\<close> is the inner loop, which splits a word that is longer than a line.\<close>

function cut :: "nat \<Rightarrow> string \<Rightarrow> string list \<times> string" where
  "cut width line =
     (if 0 < width \<and> width < length line
      then let (out, rest) = cut width (drop width line) in (take width line # out, rest)
      else ([], line))"
  by pat_completeness auto
termination
  by (relation "measure (length \<circ> snd)") auto

declare cut.simps [simp del]

definition wrap_word :: "nat \<Rightarrow> string \<Rightarrow> string list \<times> string \<Rightarrow> string list \<times> string" where
  "wrap_word width word st =
     (let (out, line) = st;
          needed = (if line = [] then length word else length line + 1 + length word);
          (out1, line1) = (if width < needed \<and> line \<noteq> [] then (out @ [line], []) else (out, line));
          line2 = (if line1 \<noteq> [] then line1 @ '' '' else line1) @ word;
          (heads, rest) = cut width line2
      in (out1 @ heads, rest))"

definition wrap_para :: "nat \<Rightarrow> string \<Rightarrow> string list \<Rightarrow> string list" where
  "wrap_para width para out =
     (let (out1, line) = fold (wrap_word width) (split_on (\<lambda>c. c = CHR '' '') para) (out, []) in out1 @ [line])"

definition wrap :: "string \<Rightarrow> nat \<Rightarrow> string list" where
  "wrap t width = fold (wrap_para (max width 8)) (split_on (\<lambda>c. c = char_of (10 :: nat)) t) []"

text \<open>The actions the panel shows.\<close>

definition shown_actions :: "chat \<Rightarrow> ai_action list" where
  "shown_actions ch = take 5 (ct_actions ch)"

end
