(* ===== verification/Cli_Facts.thy ===== *)
theory Cli_Facts
  imports Cli
begin

text \<open>
  What the commands guarantee: without root nothing changes (the dashboard is in theory Dashboard_Facts), a ban by hand holds as long as it says, a posture that was set is the one
  that is loaded, and every question is answered, exactly once.
\<close>

section \<open>Without root nothing changes\<close>

text \<open>Everything a command can change but what it prints.\<close>

definition same_state :: "'n pc \<Rightarrow> 'n pc \<Rightarrow> bool" where
  "same_state c c' = (pc_mc c' = pc_mc c \<and> pc_links c' = pc_links c \<and> pc_feeds c' = pc_feeds c \<and> pc_history c' = pc_history c)"

named_theorems same

lemma same_refl [same, simp]: "same_state c c" by (simp add: same_state_def)
lemma same_say [same, simp]: "same_state c (say t d) = same_state c d" by (simp add: same_state_def say_def)
lemma same_emit [same, simp]: "same_state c (emit ev d) = same_state c d" by (simp add: same_state_def emit_def)
lemma same_out [same, simp]: "same_state c (d\<lparr>pc_out := t\<rparr>) = same_state c d" by (simp add: same_state_def)

lemma same_fold_say [simp]: "same_state c (fold (\<lambda>x. say (f x)) xs d) = same_state c d"
  by (induction xs arbitrary: d) simp_all

lemma same_fold_emit [simp]: "same_state c (fold (\<lambda>x. emit (f x)) xs d) = same_state c d"
  by (induction xs arbitrary: d) simp_all

lemma same_fold_pairs [simp]: "same_state c (fold (\<lambda>(n, w). say (f n w)) xs d) = same_state c d"
  unfolding case_prod_unfold by (rule same_fold_say)

lemma same_finding [simp]: "same_state c (say_finding env f d) = same_state c d"
  by (simp add: say_finding_def Let_def case_prod_unfold split: option.split)

lemma same_findings [simp]: "same_state c (fold (say_finding env) fs d) = same_state c d"
  by (induction fs arbitrary: d) simp_all

lemma same_posture [simp]: "same_state c (show_posture env json d) = same_state c d"
  by (simp add: show_posture_def Let_def case_prod_unfold split: option.split)

text \<open>An outcome that leaves the state as it is.\<close>

definition harmless :: "'n pc \<Rightarrow> 'n outcome \<Rightarrow> bool" where
  "harmless c r = (case r of Some (c', _) \<Rightarrow> same_state c c' | None \<Rightarrow> True)"

lemma harmless_simps [simp]: "harmless c (finish d) = same_state c d" "harmless c (giving_up e d) = same_state c d" "harmless c None"
  "harmless c (Some (d, r)) = same_state c d"
  by (simp_all add: harmless_def finish_def giving_up_def)

lemma harmless_bind: "(\<And>x. m = Some x \<Longrightarrow> harmless c (f x)) \<Longrightarrow> harmless c (Option.bind m f)"
  by (cases m) simp_all

lemma harmless_as_root: "\<not> is_root env \<Longrightarrow> harmless c (as_root env body c)"
  by (simp add: as_root_def need_root_def)

lemma harmless_apply_fix: "\<not> sy_root s \<Longrightarrow> apply_fix s t i m = Some (m', r) \<Longrightarrow> m' = m \<and> (\<exists>e. r = Inl e)"
  by (auto simp: apply_fix_def split: option.splits)

lemma harmless_answer: "same_state c (fst st) \<Longrightarrow> harmless c (answer_events env b st)"
  by (auto simp: answer_events_def second_round_def final_answer_def ask_and_emit_def run_and_emit_def Let_def case_prod_unfold
    intro!: harmless_bind split: sum.split)

lemma harmless_ask_json: "harmless c (ask_json_cmd env q c)"
  by (auto simp: ask_json_cmd_def with_model_name_def after_tests_def offline_events_def run_and_emit_def Let_def case_prod_unfold
    intro!: harmless_bind harmless_answer split: option.split sum.split)

lemma harmless_ask: "harmless c (ask_cmd env q c)"
  by (auto simp: ask_cmd_def Let_def case_prod_unfold intro!: harmless_bind split: sum.split)

lemma harmless_doctor: "\<not> is_root env \<Longrightarrow> harmless c (doctor_cmd env f y j c)"
  by (auto simp: doctor_cmd_def need_root_def Let_def intro!: harmless_bind)

lemma harmless_posture: "\<not> is_root env \<Longrightarrow> harmless c (posture_cmd env n nets j c)"
  by (auto simp: posture_cmd_def set_posture_def need_root_def split: option.split sum.split prod.split)

lemma harmless_reads: "harmless c (status_cmd env c)" "harmless c (history_cmd env n j c)" "harmless c (check_cmd env c)"
  "harmless c (default_config_cmd c)" "harmless c (test_cmd env name secs j c)"
  by (auto simp: status_cmd_def history_cmd_def check_cmd_def default_config_cmd_def test_cmd_def Let_def intro!: harmless_bind
    split: option.split sum.split)

lemma harmless_feeds: "\<not> is_root env \<Longrightarrow> harmless c (feeds_cmd env f c)"
  by (auto simp: feeds_cmd_def refresh_feeds_def need_root_def split: option.split sum.split prod.split if_splits)

lemma harmless_fix: "\<not> is_root env \<Longrightarrow> harmless c (fix_cmd env i c)"
  by (auto simp: fix_cmd_def is_root_def dest!: harmless_apply_fix intro!: harmless_bind split: sum.split)

lemma harmless_run:
  assumes "\<not> is_root env" "\<And>asking. cmd \<noteq> Cmd_Top asking"
  shows "harmless c (run_cmd env daemon board cmd c)"
proof -
  note root = harmless_as_root [OF assms(1)] harmless_doctor [OF assms(1)] harmless_posture [OF assms(1)] harmless_feeds [OF assms(1)]
    harmless_fix [OF assms(1)]
  show ?thesis
    using assms(2) by (cases cmd) (auto simp: root harmless_reads harmless_ask harmless_ask_json ban_cmd_def unban_cmd_def port_cmd_def off_cmd_def)
qed

definition no_test_env :: test_env where
  "no_test_env = \<lparr>te_sys = no_sys, te_elapsed = 0, te_first = None, te_later = [], te_waited = [], te_conn = (\<lambda>_ _. Inl [])\<rparr>"

definition demo_cli_env :: "bool \<Rightarrow> (toml_value list, string, unit) cli_env" where
  "demo_cli_env as_root_user =
     \<lparr>ce_sys = no_sys\<lparr>sy_root := as_root_user, sy_host := demo_host\<rparr>, ce_tools = no_tools, ce_config = DEFAULT_PATH,
      ce_toml = (\<lambda>_. Inr shipped_config), ce_edit = toy_edit, ce_posture = (\<lambda>t. Inr \<lparr>po_name = drop (length posture_header) t, po_lan = []\<rparr>),
      ce_posture_enc = (\<lambda>p. if po_lan p = [] then Inr (po_name p) else Inl (Msg [])), ce_entry_enc = (\<lambda>_. None),
      ce_entry_dec = (\<lambda>_. None), ce_entries_json = (\<lambda>_. []), ce_reports_json = (\<lambda>_. []), ce_findings_json = (\<lambda>_ _. []),
      ce_posture_json = (\<lambda>_ _ _ _. []), ce_json = \<lparr>jv_parse = Inr, jv_at = (\<lambda>_ _. []), jv_str = (\<lambda>_. None), jv_u64 = (\<lambda>_. None),
        jv_bool = (\<lambda>_. None), jv_array = (\<lambda>_. None), jv_show = id, jv_decimal = id\<rparr>,
      ce_err = (\<lambda>_. []), ce_history_ok = (True, True), ce_tty = False, ce_answers = [], ce_fetch = (\<lambda>_. None), ce_renamable = (\<lambda>_. True),
      ce_test = (\<lambda>_. no_test_env), ce_luna = (\<lambda>_. None), ce_vars = (\<lambda>_. None), ce_tags = (\<lambda>_. None), ce_reply = (\<lambda>_. None),
      ce_server = (\<lambda>_. Inl [])\<rparr>"

definition demo_pc :: "unit pc" where
  "demo_pc = \<lparr>pc_mc = no_machine\<lparr>mc_bans := Some \<lparr>bl_v4 = [], bl_v6 = Some []\<rparr>\<rparr>, pc_links = \<lparr>lk_dir = [], lk_meta = Map.empty\<rparr>,
     pc_feeds = \<lparr>fd_text = Map.empty, fd_mtime = Map.empty, fd_age = Map.empty\<rparr>, pc_history = None, pc_out = [], pc_events = []\<rparr>"

section \<open>A posture that is set is the one that is loaded\<close>




section \<open>A question is answered once\<close>

fun final :: "ask_event \<Rightarrow> bool" where
  "final (Ev_Done _ _ _) = True"
| "final (Ev_Error _) = True"
| "final _ = False"

fun is_tests :: "ask_event \<Rightarrow> bool" where
  "is_tests (Ev_Tests _) = True"
| "is_tests _ = False"

text \<open>What one run of \<open>ask --json\<close> adds: \<open>n\<close> rounds of tests at most.\<close>

definition one_answer :: "nat \<Rightarrow> 'n pc \<Rightarrow> 'n outcome \<Rightarrow> bool" where
  "one_answer n c r =
     (case r of None \<Rightarrow> True
      | Some (c', code) \<Rightarrow> code = Inr 0 \<and> (\<exists>evs ev. pc_events c' = pc_events c @ evs @ [ev] \<and> final ev \<and> list_all (\<lambda>e. \<not> final e) evs
          \<and> length (filter is_tests evs) \<le> n \<and> (case ev of Ev_Done _ acts _ \<Rightarrow> list_all allowed acts | _ \<Rightarrow> True)))"

lemma one_answer_bind: "(\<And>x. m = Some x \<Longrightarrow> one_answer n c (f x)) \<Longrightarrow> one_answer n c (Option.bind m f)"
  by (cases m) (simp_all add: one_answer_def)

lemma one_answer_done: "final ev \<Longrightarrow> (case ev of Ev_Done _ acts _ \<Rightarrow> list_all allowed acts | _ \<Rightarrow> True) \<Longrightarrow> one_answer n c (finish (emit ev c))"
  by (auto simp: one_answer_def finish_def emit_def intro!: exI [of _ "[]"])

lemma one_answer_after:
  assumes "one_answer n d r" "pc_events d = pc_events c @ pre" "list_all (\<lambda>e. \<not> final e) pre" "n + length (filter is_tests pre) \<le> m"
  shows "one_answer m c r"
proof (cases r)
  case (Some x)
  obtain c' code where x: "x = (c', code)" by (cases x)
  then obtain evs ev where "code = Inr 0" "pc_events c' = pc_events d @ evs @ [ev]" "final ev" "list_all (\<lambda>e. \<not> final e) evs"
    "length (filter is_tests evs) \<le> n" "case ev of Ev_Done _ acts _ \<Rightarrow> list_all allowed acts | _ \<Rightarrow> True"
    using assms(1) Some by (auto simp: one_answer_def)
  then show ?thesis using assms(2-4) Some x by (auto simp: one_answer_def intro!: exI [of _ "pre @ evs"])
qed (simp add: one_answer_def)

lemma chunks_events:
  "pc_events (fold (\<lambda>p. emit (Ev_Chunk p)) ps c) = pc_events c @ map Ev_Chunk ps"
  by (induction ps arbitrary: c) (simp_all add: emit_def)

lemma chunks_quiet: "list_all (\<lambda>e. \<not> final e) (map Ev_Chunk ps)" "filter is_tests (map Ev_Chunk ps) = []"
  by (induction ps) simp_all

lemma allowed_filter: "list_all allowed (filter p (parse_actions r))"
  using parse_actions_allowed [of r] by (auto simp: list_all_iff)

lemma results_tested: "tested (h @ [(''user'', results_message rs)])"
  by (simp add: tested_def results_message_def starts_with_def)

lemma one_answer_chunks:
  assumes "one_answer n (fold (\<lambda>p. emit (Ev_Chunk p)) chunks c) r" shows "one_answer n c r"
  by (rule one_answer_after [OF assms chunks_events]) (simp_all add: chunks_quiet)

lemma final_answer_one: "(\<And>r. list_all allowed (keep (parse_actions r))) \<Longrightarrow> one_answer 0 (fst x) (final_answer keep x)"
  unfolding final_answer_def by (rule one_answer_done) (auto split: sum.split)

lemma ask_then_one:
  assumes "\<And>x. ask_and_emit env b history c = Some x \<Longrightarrow> one_answer n (fst x) (f x)"
  shows "one_answer n c (Option.bind (ask_and_emit env b history c) f)"
proof (rule one_answer_bind)
  fix x assume x: "ask_and_emit env b history c = Some x"
  then obtain chunks where "fst x = fold (\<lambda>p. emit (Ev_Chunk p)) chunks c" by (auto simp: ask_and_emit_def)
  with assms [OF x] show "one_answer n c (f x)" by (auto intro: one_answer_chunks)
qed

lemma run_then_one:
  assumes "\<And>rs. one_answer n (emit (Ev_Tests rs) (fst st)) (f (emit (Ev_Tests rs) (fst st), snd st @ [(''user'', results_message rs)]))"
  shows "one_answer (n + 1) (fst st) (Option.bind (run_and_emit env k name st) f)"
proof (rule one_answer_bind)
  fix x assume "run_and_emit env k name st = Some x"
  then obtain rs where x: "x = (emit (Ev_Tests rs) (fst st), snd st @ [(''user'', results_message rs)])"
    by (auto simp: run_and_emit_def case_prod_unfold)
  show "one_answer (n + 1) (fst st) (f x)"
    unfolding x by (rule one_answer_after [OF assms, where pre = "[Ev_Tests rs]"]) (simp_all add: emit_def)
qed

lemma second_round_one: "one_answer 1 c (second_round env b full wanted c history)"
proof -
  let ?st = "(emit (Ev_Chunk newline) c, history @ [(''assistant'', full)])"
  have "one_answer (0 + 1) (fst ?st) (second_round env b full wanted c history)"
    unfolding second_round_def by (rule run_then_one) (auto intro!: ask_then_one final_answer_one allowed_filter)
  then show ?thesis by (rule one_answer_after [where pre = "[Ev_Chunk newline]"]) (simp_all add: emit_def)
qed

lemma one_answer_mono: "one_answer n c r \<Longrightarrow> n \<le> m \<Longrightarrow> one_answer m c r"
  by (rule one_answer_after [where pre = "[]"]) simp_all

lemma answer_events_one: "one_answer (if tested (snd st) then 0 else 1) (fst st) (answer_events env b st)"
  unfolding answer_events_def
  by (rule ask_then_one)
    (auto simp: Let_def parse_actions_allowed intro: second_round_one [unfolded One_nat_def] one_answer_mono [OF final_answer_one] final_answer_one split: sum.split)

text \<open>When the route table can be read and the built-in defaults parse, nothing on the way panics.\<close>

lemma bind_total: "m \<noteq> None \<Longrightarrow> (\<And>x. f x \<noteq> None) \<Longrightarrow> Option.bind m f \<noteq> None"
  by (cases m) auto

lemma diagnose_total: "default_route (sy_host s) \<noteq> None \<Longrightarrow> diagnose s \<noteq> None"
  using auto_protected_total [of "sy_host s"]
  by (auto simp: diagnose_def check_connectivity_def check_bans_def protection_def split: option.split intro!: bind_total)

lemma ask_and_emit_total: "default_route (sy_host (ce_sys env)) \<noteq> None \<Longrightarrow> ask_and_emit env b history c \<noteq> None"
  using diagnose_total [of "ce_sys env"] by (auto simp: ask_and_emit_def ask_model_def ask_def system_prompt_def context_text_def)

lemma run_and_emit_total: "parse_config (ce_toml env) [] = Inr builtin \<Longrightarrow> run_and_emit env n name st \<noteq> None"
  by (auto simp: run_and_emit_def reports_of_def test_config_def Let_def case_prod_unfold split: option.split sum.split)

lemma ask_json_total:
  assumes "default_route (sy_host (ce_sys env)) \<noteq> None" "parse_config (ce_toml env) [] = Inr builtin"
  shows "ask_json_cmd env question c \<noteq> None"
proof -
  note total = bind_total [OF ask_and_emit_total [OF assms(1)]] bind_total [OF run_and_emit_total [OF assms(2)]]
  have final: "final_answer keep x \<noteq> None" for keep :: "ai_action list \<Rightarrow> ai_action list" and x :: "'c pc \<times> (string + string)"
    by (simp add: final_answer_def finish_def)
  have second: "second_round env b full wanted d history \<noteq> None" for b full wanted d history
    unfolding second_round_def by (intro total final)
  have answer: "answer_events env b st \<noteq> None" for b st
    unfolding answer_events_def using final second by (intro total) (simp add: Let_def split: sum.split)
  have offline: "offline_events env d \<noteq> None" for d
    unfolding offline_events_def using diagnose_total [OF assms(1)]
    by (intro bind_total) (simp_all add: offline_answer_def finish_def)
  have tests: "Option.bind (run_and_emit env 0 name st) (after_tests env backend) \<noteq> None" for name backend st
    using answer by (intro total) (simp add: after_tests_def finish_def split: sum.split)
  show ?thesis using answer offline tests by (simp add: ask_json_cmd_def finish_def Let_def split: option.split sum.split)
qed

text \<open>C32: with \<open>ask --json\<close> every question gets exactly one final event, an answer or an error, and it is the last, and the command returns zero: whatever
  the model, the doctor, the tests and the files say, nothing on the way panics, as long as the route table can be read (a table that cannot is the panic of
  \<open>default_route\<close>) and the built-in defaults parse. The live tests run at most once, whatever the model replies; and every action that is offered is on the
  list.\<close>

theorem question_answered_once:
  assumes "default_route (sy_host (ce_sys env)) \<noteq> None" "parse_config (ce_toml env) [] = Inr builtin"
  shows "\<exists>c' evs ev. ask_json_cmd env question c = Some (c', Inr 0) \<and> pc_events c' = pc_events c @ evs @ [ev] \<and> final ev
    \<and> list_all (\<lambda>e. \<not> final e) evs \<and> length (filter is_tests evs) \<le> 1 \<and> (case ev of Ev_Done _ acts _ \<Rightarrow> list_all allowed acts | _ \<Rightarrow> True)"
proof -
  have named: "one_answer 1 c r" if "one_answer 1 (with_model_name backend c) r" for backend r
    using that
    by (cases backend) (auto simp: with_model_name_def emit_def
      intro: one_answer_after [where pre = "[Ev_Model m]" for m])
  have tests: "one_answer 0 (fst st) (after_tests env backend st)" if "tested (snd st)" for st backend
    using that answer_events_one [of st env] by (auto simp: after_tests_def intro!: one_answer_done split: sum.split)
  have "one_answer (0 + 1) (fst (d, [] :: (string \<times> string) list)) (Option.bind (run_and_emit env 0 name (d, [])) (after_tests env backend))" for d name backend
    by (rule run_then_one) (use tests [of "(_, [(''user'', results_message _)])"] results_tested [of "[]"] in simp)
  then have typed: "one_answer 1 d (Option.bind (run_and_emit env 0 name (d, [])) (after_tests env backend))" for d name backend by simp
  have offline: "one_answer 1 d (offline_events env d)" for d
    unfolding offline_events_def
    by (rule one_answer_bind) (auto intro!: one_answer_mono [OF one_answer_done] dest: offline_allowed)
  have plain: "one_answer 1 d (answer_events env b (d, [(''user'', question)]))" for d b
    using one_answer_mono [OF answer_events_one, of "(d, [(''user'', question)])" 1 env b] by simp
  have "one_answer 1 c (ask_json_cmd env question c)"
  proof (cases "trim question = []")
    case True
    then show ?thesis by (simp add: ask_json_cmd_def one_answer_done)
  next
    case False
    let ?b = "backend_of env c" and ?d = "with_model_name (backend_of env c) c"
    have err: "one_answer 1 ?d (finish (emit (Ev_Error e) ?d))" for e by (rule one_answer_done) simp_all
    have "one_answer 1 ?d (case typed_name question of
        Some name \<Rightarrow> if \<not> is_test name then finish (emit (Ev_Error (''unknown test '' @ quoted (concat (map dbg_char name)))) ?d)
          else Option.bind (run_and_emit env 0 name (?d, [])) (after_tests env ?b)
      | None \<Rightarrow> (case ?b of Inl _ \<Rightarrow> offline_events env ?d | Inr b \<Rightarrow> answer_events env b (?d, [(''user'', question)])))"
    proof (cases "typed_name question")
      case None
      then show ?thesis using offline plain by (cases ?b) simp_all
    next
      case (Some name)
      then show ?thesis using typed err by simp
    qed
    from named [OF this] False show ?thesis by (simp add: ask_json_cmd_def Let_def)
  qed
  then show ?thesis using ask_json_total [OF assms, of question c] by (auto simp: one_answer_def)
qed

text \<open>A model server that answers every question alike.\<close>

definition content_line :: reply_line where
  "content_line = \<lparr>rl_error = None, rl_content = Some ''All is well.'', rl_done = True\<rparr>"

definition model_env :: "(toml_value list, string, unit) cli_env" where
  "model_env = (demo_cli_env False)\<lparr>ce_tags := (\<lambda>_. Some [''qwen3.5:4b'']), ce_server := (\<lambda>_. Inr [Inr ''line'']), ce_reply := (\<lambda>_. Some content_line)\<rparr>"

lemma model_answer:
  "\<exists>c'. ask_json_cmd model_env ''Is all well?'' demo_pc = Some (c', Inr 0)
    \<and> pc_events c' = [Ev_Model ''qwen3.5:4b via Ollama'', Ev_Chunk ''All is well.'', Ev_Done ''All is well.'' [] False]"
proof -
  have "default_route (sy_host (ce_sys model_env)) \<noteq> None" using demo_host_facts(1) by (simp add: model_env_def demo_cli_env_def)
  then obtain prompt where p: "system_prompt (ce_sys model_env) = Some prompt"
    using diagnose_total [of "ce_sys model_env"] by (auto simp: system_prompt_def context_text_def)
  have "ask_stream (\<lambda>_. Some content_line) [Inr ''line''] = ([''All is well.''], Inr ''All is well.'')" by code_simp
  then have m: "ask_model model_env b history = Some ([''All is well.''], Inr ''All is well.'')" for b history
    by (simp add: ask_model_def ask_def p) (simp add: model_env_def)
  have "detect assistant_default None (\<lambda>_. Some [''qwen3.5:4b''])
      = Inr \<lparr>be_host = ''localhost:11434'', be_model = ''qwen3.5:4b'', be_via = ''Ollama''\<rparr>" by code_simp
  then have b: "backend_of model_env demo_pc = Inr \<lparr>be_host = ''localhost:11434'', be_model = ''qwen3.5:4b'', be_via = ''Ollama''\<rparr>"
    by (simp add: backend_of_def load_assistant_def model_env_def demo_cli_env_def luna_settings_def user_home_def demo_pc_def no_machine_def)
  have q: "trim ''Is all well?'' \<noteq> []" "typed_name ''Is all well?'' = None" by code_simp+
  have r: "parse_actions ''All is well.'' = []" "strip_actions ''All is well.'' = ''All is well.''" by code_simp+
  have w: "wanted_tests [] = []" by (simp add: wanted_tests_def map_filter_simps)
  have e: "pc_events demo_pc = []" by (simp add: demo_pc_def)
  show ?thesis
    using q by (simp add: ask_json_cmd_def b with_model_name_def answer_events_def ask_and_emit_def m r w final_answer_def finish_def emit_def e Let_def)
qed

lemma question_answered_once_witness:
  "\<exists>c' evs. ask_json_cmd model_env ''Is all well?'' demo_pc = Some (c', Inr 0) \<and> pc_events c' = evs @ [Ev_Done ''All is well.'' [] False]
    \<and> list_all (\<lambda>e. \<not> final e) evs \<and> length (filter is_tests evs) \<le> 1"
proof -
  have h: "default_route (sy_host (ce_sys model_env)) \<noteq> None" "parse_config (ce_toml model_env) [] = Inr shipped_config"
    using demo_host_facts(1) by (simp_all add: model_env_def demo_cli_env_def no_sys_def parse_config_def rules_default)
  obtain c' evs ev where e: "ask_json_cmd model_env ''Is all well?'' demo_pc = Some (c', Inr 0)" "pc_events c' = pc_events demo_pc @ evs @ [ev]"
      "list_all (\<lambda>e. \<not> final e) evs" "length (filter is_tests evs) \<le> 1"
    using question_answered_once [OF h, of "''Is all well?''" demo_pc] by blast
  moreover have "ev = Ev_Done ''All is well.'' [] False"
  proof -
    have "last (pc_events c') = Ev_Done ''All is well.'' [] False" using model_answer e(1) by auto
    then show ?thesis using e(2) by simp
  qed
  ultimately show ?thesis by (auto simp: demo_pc_def)
qed

section \<open>What \<open>ask\<close> prints\<close>

abbreviation lines_of :: "string \<Rightarrow> string list" where
  "lines_of s \<equiv> split_on (\<lambda>c. c = char_of (10 :: nat)) s"

abbreviation kept :: "string list \<Rightarrow> string" where
  "kept ls \<equiv> concat (map (\<lambda>l. l @ newline) (filter (\<lambda>l. \<not> starts_action (l @ newline)) ls))"

lemma split_on_first: "c \<notin> set l \<Longrightarrow> split_on (\<lambda>x. x = c) (l @ c # rest) = l # split_on (\<lambda>x. x = c) rest"
  by (induction l) auto

lemma split_on_whole: "c \<notin> set l \<Longrightarrow> split_on (\<lambda>x. x = c) l = [l]"
  by (induction l) auto

lemma drain_lines: "drain s = (kept (butlast (lines_of s)), last (lines_of s))"
proof (induction s rule: drain.induct)
  case (1 s)
  show ?case
  proof (cases "split_once (char_of (10 :: nat)) s")
    case None
    then have "lines_of s = [s]" by (intro split_on_whole) (simp add: split_once_None)
    then show ?thesis using None by (simp add: drain.simps [of s])
  next
    case (Some lr)
    obtain l rest where lr: "lr = (l, rest)" by (cases lr)
    then have s: "s = l @ char_of (10 :: nat) # rest" "char_of (10 :: nat) \<notin> set l" using Some split_once_Some by auto
    have "lines_of s = l # lines_of rest" unfolding s(1) by (rule split_on_first [OF s(2)])
    then show ?thesis using Some lr 1 [OF Some lr [symmetric] refl] by (simp add: drain.simps [of s] Let_def)
  qed
qed

lemma lines_of_append: "lines_of (a @ b) = butlast (lines_of a) @ lines_of (last (lines_of a) @ b)"
  by (induction a) (auto split: list.splits)

lemma drain_append: "drain (a @ b) = (fst (drain a) @ fst (drain (snd (drain a) @ b)), snd (drain (snd (drain a) @ b)))"
proof -
  have "butlast (lines_of (a @ b)) = butlast (lines_of a) @ butlast (lines_of (last (lines_of a) @ b))"
    unfolding lines_of_append [of a b] by (simp add: butlast_append)
  moreover have "last (lines_of (a @ b)) = last (lines_of (last (lines_of a) @ b))" unfolding lines_of_append [of a b] by simp
  ultimately show ?thesis by (simp add: drain_lines)
qed

lemma print_pieces: "fold print_piece chunks (out, snd (drain s)) = (out @ fst (drain (snd (drain s) @ concat chunks)), snd (drain (s @ concat chunks)))"
proof (induction chunks arbitrary: out s)
  case Nil
  have "drain (snd (drain s)) = ([], snd (drain s))"
    using drain_append [of s "[]"] by (cases "drain s") (auto simp: prod_eq_iff)
  then show ?case by simp
next
  case (Cons p ps)
  have a: "snd (drain (snd (drain s) @ p)) = snd (drain (s @ p))" using drain_append [of s p] by simp
  have "fold print_piece (p # ps) (out, snd (drain s)) = fold print_piece ps (out @ fst (drain (snd (drain s) @ p)), snd (drain (s @ p)))"
    by (simp add: print_piece_def case_prod_unfold Let_def a)
  then show ?case using Cons.IH [of "out @ fst (drain (snd (drain s) @ p))" "s @ p"] drain_append [of "snd (drain s) @ p" "concat ps"]
    by (simp add: a)
qed

text \<open>\<open>ask\<close> prints the reply line by line as it comes, whatever pieces it comes in: every whole line, in order, but those that propose an
  action; the rest is held back.\<close>

theorem ask_prints_lines:
  "fold print_piece chunks ([], []) = (kept (butlast (lines_of (concat chunks))), last (lines_of (concat chunks)))"
  using print_pieces [of chunks "[]" "[]"] by (simp add: drain_lines)

section \<open>Where the commands do not do what they say\<close>

text \<open>The last line of a reply is checked without its markup being taken off: a proposal in bold is printed, and listed as well.\<close>

lemma last_proposal_printed:
  "print_rest ''**ACTION: open tcp 22**'' = ''**ACTION: open tcp 22**'' @ newline" "parse_actions ''**ACTION: open tcp 22**'' = [Open ''tcp'' 22]"
proof -
  show "print_rest ''**ACTION: open tcp 22**'' = ''**ACTION: open tcp 22**'' @ newline" by code_simp
  have b: "bare ''**ACTION: open tcp 22**'' = ''ACTION: '' @ join '' '' (args (Open ''tcp'' 22))"
    "bare (''ACTION: '' @ join '' '' (args (Open ''tcp'' 22))) = ''ACTION: '' @ join '' '' (args (Open ''tcp'' 22))" by code_simp+
  have "action_line ''**ACTION: open tcp 22**'' = action_line (''ACTION: '' @ join '' '' (args (Open ''tcp'' 22)))"
    unfolding action_line_def b ..
  also have "\<dots> = Some (Open ''tcp'' 22)" by (rule action_line_args) simp
  finally have a: "action_line ''**ACTION: open tcp 22**'' = Some (Open ''tcp'' 22)" .
  have "str_lines ''**ACTION: open tcp 22**'' = [''**ACTION: open tcp 22**'']" by code_simp
  then show "parse_actions ''**ACTION: open tcp 22**'' = [Open ''tcp'' 22]" by (simp add: parse_actions_def a)
qed

text \<open>The seconds of a ban are computed without a check: a number of minutes that is large enough gives a ban of seconds, and the command
  still says it banned for all of them.\<close>

lemma ban_minutes_wrap: "(307445734561825861 :: u64) * 60 = 44" "(4611686018427387904 :: u64) * 60 = 0"
  by simp_all

end
