(* ===== verification/Dashboard_Facts.thy ===== *)
theory Dashboard_Facts
  imports Dashboard Cli_Facts
begin

text \<open>
  What holds of the dashboard (theory Dashboard): text that is wrapped fits and is whole; every state the loop can reach keeps what the
  panel relies on; no command is run that was not asked for, and without root none but through \<open>sudo -n\<close>, here or by any
  other command. At the end, sessions that apply these, and states where the panel does not do what it means to.
\<close>

section \<open>Wrapping\<close>

definition letters :: "string \<Rightarrow> string" where
  "letters = filter (\<lambda>c. c \<noteq> CHR '' '' \<and> c \<noteq> char_of (10 :: nat))"

lemma letters_append [simp]: "letters (a @ b) = letters a @ letters b" "letters [] = []"
  by (simp_all add: letters_def)

lemma letters_concat: "letters (concat xs) = concat (map letters xs)"
  by (induction xs) simp_all

lemma split_on_letters:
  assumes "\<And>c. p c \<Longrightarrow> c = CHR '' '' \<or> c = char_of (10 :: nat)"
  shows "concat (map letters (split_on p t)) = letters t"
proof (induction t)
  case (Cons c t)
  show ?case
  proof (cases "p c")
    case True
    then show ?thesis using Cons.IH assms [OF True] by (auto simp: letters_def)
  next
    case False
    obtain w ws where "split_on p t = w # ws" by (cases "split_on p t") (use split_on_ne [of p t] in simp_all)
    then show ?thesis using Cons.IH False by (simp add: letters_def)
  qed
qed simp

lemma cut_effect:
  assumes "0 < width" "cut width line = (heads, rest)"
  shows "list_all (\<lambda>l. length l \<le> width) heads \<and> length rest \<le> width \<and> concat heads @ rest = line"
  using assms
proof (induction width line arbitrary: heads rest rule: cut.induct)
  case (1 width line)
  show ?case
  proof (cases "0 < width \<and> width < length line")
    case True
    obtain out r where c: "cut width (drop width line) = (out, r)" by (metis surj_pair)
    have "cut width line = (take width line # out, r)" by (subst cut.simps) (simp add: True c)
    then have e: "heads = take width line # out" "rest = r" using "1.prems" by simp_all
    from "1.IH" [OF True "1.prems"(1) c] show ?thesis by (simp add: e)
  next
    case False
    then have "cut width line = ([], line)" by (subst cut.simps) (simp only: if_False)
    then show ?thesis using "1.prems" False by auto
  qed
qed

definition wrap_inv :: "nat \<Rightarrow> string \<Rightarrow> string list \<times> string \<Rightarrow> bool" where
  "wrap_inv width t st =
     (list_all (\<lambda>l. length l \<le> width) (fst st) \<and> length (snd st) \<le> width \<and> letters (concat (fst st) @ snd st) = letters t)"

lemma wrap_word_inv:
  assumes "0 < width" "wrap_inv width t st"
  shows "wrap_inv width (t @ word) (wrap_word width word st)"
proof -
  obtain out line where st: "st = (out, line)" by (cases st)
  define fresh where "fresh = (width < (if line = [] then length word else length line + 1 + length word) \<and> line \<noteq> [])"
  define out1 where "out1 = (if fresh then out @ [line] else out)"
  define line1 where "line1 = (if fresh then [] else line)"
  define line2 where "line2 = (if line1 \<noteq> [] then line1 @ '' '' else line1) @ word"
  obtain heads rest where c: "cut width line2 = (heads, rest)" by (metis surj_pair)
  have p: "(if fresh then (out @ [line], []) else (out, line)) = (out1, line1)" by (simp add: out1_def line1_def)
  have "wrap_word width word st = (out1 @ heads, rest)"
    by (simp only: wrap_word_def st Let_def prod.case fresh_def [symmetric] p line2_def [symmetric] c)
  moreover have "list_all (\<lambda>l. length l \<le> width) out1" using assms(2) by (auto simp: out1_def wrap_inv_def st)
  moreover have "letters (concat out1 @ line2) = letters (t @ word)"
    using assms(2) by (auto simp: out1_def line1_def line2_def wrap_inv_def st letters_def)
  moreover note cut_effect [OF assms(1) c]
  ultimately show ?thesis by (auto simp: wrap_inv_def simp flip: append_assoc)
qed

lemma wrap_words_inv:
  assumes "0 < width"
  shows "wrap_inv width t st \<Longrightarrow> wrap_inv width (t @ concat words) (fold (wrap_word width) words st)"
proof (induction words arbitrary: t st)
  case (Cons w ws)
  from Cons.IH [OF wrap_word_inv [OF assms Cons.prems, of w]] show ?case by simp
qed simp

lemma wrap_para_inv:
  assumes "0 < width" "wrap_inv width t (out, [])"
  shows "wrap_inv width (t @ para) (wrap_para width para out, [])"
proof -
  let ?ws = "split_on (\<lambda>c. c = CHR '' '') para"
  obtain out1 line where f: "fold (wrap_word width) ?ws (out, []) = (out1, line)" by (metis surj_pair)
  have "letters (concat ?ws) = letters para" using split_on_letters [of "\<lambda>c. c = CHR '' ''" para] by (simp add: letters_concat)
  then show ?thesis using wrap_words_inv [OF assms(1,2), of ?ws] by (simp add: wrap_para_def f wrap_inv_def)
qed

lemma wrap_paras_inv:
  assumes "0 < width"
  shows "wrap_inv width t (out, []) \<Longrightarrow> wrap_inv width (t @ concat paras) (fold (wrap_para width) paras out, [])"
proof (induction paras arbitrary: t out)
  case (Cons p ps)
  from Cons.IH [OF wrap_para_inv [OF assms Cons.prems, of p]] show ?case by simp
qed simp

text \<open>Wrapped text fits: no line is longer than the width (eight at least), and nothing but spaces and line ends is lost or moved.\<close>

theorem wrap_fits:
  "list_all (\<lambda>l. length l \<le> max width 8) (wrap t width) \<and> letters (concat (wrap t width)) = letters t"
proof -
  let ?ps = "split_on (\<lambda>c. c = char_of (10 :: nat)) t"
  have "letters (concat ?ps) = letters t" using split_on_letters [of "\<lambda>c. c = char_of (10 :: nat)" t] by (simp add: letters_concat)
  then show ?thesis using wrap_paras_inv [of "max width 8" "[]" "[]" ?ps] by (simp add: wrap_def wrap_inv_def)
qed

section \<open>What the conversation keeps\<close>

fun msg_ok :: "chat_msg \<Rightarrow> bool" where
  "msg_ok (Cm_Offline _ actions) = list_all allowed actions"
| "msg_ok _ = True"

definition asks_test :: "ai_action \<Rightarrow> bool" where "asks_test x = (\<exists>n. x = Test n)"

definition chat_ok :: "chat \<Rightarrow> bool" where
  "chat_ok ch =
     (list_all allowed (ct_actions ch)
      \<and> (case ct_streaming ch of None \<Rightarrow> True | Some ms \<Rightarrow> ct_actions ch = [] \<and> ct_confirm ch = None \<and> list_all msg_ok ms)
      \<and> (case ct_confirm ch of None \<Rightarrow> True | Some i \<Rightarrow> i < length (ct_actions ch) \<and> \<not> asks_test (ct_actions ch ! i)))"

lemma input_ok [simp]: "chat_ok (ch\<lparr>ct_input := t\<rparr>) = chat_ok ch"
  by (cases "ct_streaming ch"; cases "ct_confirm ch") (simp_all add: chat_ok_def)

lemma chat_default_ok: "chat_ok chat_default"
  by (simp add: chat_ok_def chat_default_def)

lemma stream_reply_ok: "list_all msg_ok (stream_reply env b raw)"
proof (cases "ask_model env b raw")
  case (Some x)
  obtain chunks r where "x = (chunks, r)" by (cases x)
  then show ?thesis using Some by (cases r) (auto simp: stream_reply_def list_all_iff)
qed (simp add: stream_reply_def)

lemma worker_ok: "list_all msg_ok (ask_worker env c raw)" "list_all msg_ok (test_worker env c name raw)"
  using offline_allowed [of "ce_sys env"] by (auto simp: ask_worker_def test_worker_def Let_def stream_reply_ok split: option.splits sum.splits)

lemma send_ok: "chat_ok ch \<Longrightarrow> chat_ok (send env c ch)"
  by (auto simp: send_def Let_def chat_ok_def worker_ok split: option.splits)

lemma run_test_ok: "chat_ok ch \<Longrightarrow> chat_ok (run_test env c name ch)"
  by (auto simp: run_test_def chat_ok_def worker_ok)

lemma receive_effect:
  assumes "receive ms (ch, fin) = ((ch', fin'), left)" "list_all msg_ok ms" "pred_option (\<lambda>(_, x). pred_option (list_all allowed) x) fin"
  shows "ct_actions ch' = ct_actions ch \<and> ct_confirm ch' = ct_confirm ch \<and> ct_streaming ch' = (if left then None else ct_streaming ch)
    \<and> pred_option (\<lambda>(_, x). pred_option (list_all allowed) x) fin'"
  using assms
proof (induction ms arbitrary: ch fin)
  case (Cons m ms)
  show ?case
    using Cons.prems by (cases m) (auto dest!: Cons.IH)
qed auto

lemma poll_ok:
  assumes "chat_ok ch"
  shows "chat_ok (fst (poll k ch)) \<and> ct_confirm (fst (poll k ch)) = ct_confirm ch"
proof (cases "ct_streaming ch")
  case (Some ms)
  obtain ch1 fin left where r: "receive (take k ms) (ch\<lparr>ct_streaming := Some (drop k ms)\<rparr>, None) = ((ch1, fin), left)" by (metis prod.exhaust)
  have m: "list_all msg_ok (take k ms)" "list_all msg_ok (drop k ms)" "ct_actions ch = []" "ct_confirm ch = None"
    using assms Some by (auto simp: chat_ok_def list_all_iff dest: in_set_takeD in_set_dropD)
  have e: "ct_actions ch1 = []" "ct_confirm ch1 = None" "ct_streaming ch1 = (if left then None else Some (drop k ms))"
      "pred_option (\<lambda>(_, x). pred_option (list_all allowed) x) fin"
    using receive_effect [OF r m(1)] m by simp_all
  show ?thesis
  proof (cases left)
    case True
    then show ?thesis using e m by (simp add: poll_def Some r chat_ok_def)
  next
    case False
    then show ?thesis using e m parse_actions_allowed
      by (auto simp: poll_def Some r chat_ok_def Let_def opt_or_def split: option.splits)
  qed
qed (use assms in \<open>simp add: poll_def\<close>)

section \<open>Nothing runs unasked\<close>

definition app_ok :: "app \<Rightarrow> bool" where
  "app_ok a = (pred_option chat_ok (ap_chat a) \<and> length (ap_drops a) \<le> 120 \<and> length (ap_passes a) \<le> 120)"

definition confirming :: "app \<Rightarrow> nat option" where
  "confirming a = Option.bind (ap_chat a) ct_confirm"

lemma nth_opt_Some: "nth_opt xs i = Some x \<longleftrightarrow> i < length xs \<and> xs ! i = x"
  by (simp add: nth_opt_def)

lemma push_bound: "length q \<le> 120 \<Longrightarrow> length (push q v) \<le> 120"
  by (auto simp: push_def HISTORY_def)

lemma refresh_frame:
  "app_ok a \<Longrightarrow> app_ok (dash_refresh env a)" "ap_chat (dash_refresh env a) = ap_chat a" "ap_ran (dash_refresh env a) = ap_ran a"
  by (auto simp: dash_refresh_def Let_def app_ok_def push_bound split: option.splits)

lemma act_frame:
  "app_ok (act env arguments a) = app_ok a" "ap_chat (act env arguments a) = ap_chat a"
  "ap_ran (act env arguments a) = ap_ran a @ [act_command (is_root (de_cli env)) (de_exe env) arguments]"
  by (simp_all add: act_def tell_def Let_def app_ok_def case_prod_unfold)

lemma tell_frame [simp]: "ap_chat (tell t ok a) = ap_chat a" "ap_ran (tell t ok a) = ap_ran a" "app_ok (tell t ok a) = app_ok a"
  by (simp_all add: tell_def app_ok_def)

lemma set_chat_frame [simp]:
  "ap_chat (set_chat ch a) = Some ch" "ap_ran (set_chat ch a) = ap_ran a" "app_ok a \<Longrightarrow> app_ok (set_chat ch a) = chat_ok ch"
  by (simp_all add: set_chat_def app_ok_def)

lemma take_in_frame:
  assumes "app_ok a"
  shows "app_ok (take_in env k a) \<and> ap_ran (take_in env k a) = ap_ran a \<and> confirming (take_in env k a) = confirming a"
  using assms poll_ok by (cases "ap_chat a") (auto simp: take_in_def Let_def app_ok_def confirming_def)

text \<open>What each key asks for: \<open>y\<close> for the action that was chosen by its number, enter for the address that was typed, \<open>u\<close> for the ban that is
  selected, \<open>r\<close> for a reload.\<close>

definition asked :: "app \<Rightarrow> key_code \<Rightarrow> string list \<Rightarrow> bool" where
  "asked a code cmd =
     (case ap_chat a of
        Some ch \<Rightarrow> \<exists>i x. ct_confirm ch = Some i \<and> i < length (ct_actions ch) \<and> ct_actions ch ! i = x \<and> allowed x \<and> \<not> asks_test x
          \<and> (code = Key_Char (CHR ''y'') \<or> code = Key_Char (CHR ''Y'')) \<and> cmd = args x
      | None \<Rightarrow>
          (case ap_prompt a of
             Ask_Ban input \<Rightarrow> code = Key_Enter \<and> (\<exists>ip. src_from_str input = Some ip \<and> cmd = [''ban'', show_src ip, ''--minutes'', ''60''])
           | No_Prompt \<Rightarrow> (code = Key_Char (CHR ''r'') \<and> cmd = [''reload''])
               \<or> (code = Key_Char (CHR ''u'') \<and> (\<exists>b. selected_ban a = Some b \<and> bv_source b \<noteq> ''config'' \<and> cmd = [''unban'', bv_ip b]))))"

definition runs_asked :: "('d, 'j, 'n) dash_env \<Rightarrow> app \<Rightarrow> key_code \<Rightarrow> app \<Rightarrow> bool" where
  "runs_asked env a code a' =
     (ap_ran a' = ap_ran a \<or> (\<exists>cmd. asked a code cmd \<and> ap_ran a' = ap_ran a @ [act_command (is_root (de_cli env)) (de_exe env) cmd]))"

lemma confirm_key_effect:
  assumes "app_ok a" "ap_chat a = Some ch" "ct_confirm ch = Some i"
  shows "app_ok (confirm_key env code i ch a) \<and> confirming (confirm_key env code i ch a) = None \<and> runs_asked env a code (confirm_key env code i ch a)"
proof -
  have ok: "i < length (ct_actions ch)" "\<not> asks_test (ct_actions ch ! i)" "allowed (ct_actions ch ! i)" "chat_ok (ch\<lparr>ct_confirm := None\<rparr>)"
    using assms by (auto simp: app_ok_def chat_ok_def list_all_iff split: option.splits)
  have n: "nth_opt (ct_actions ch) i = Some (ct_actions ch ! i)" using ok(1) by (simp add: nth_opt_def)
  let ?a = "set_chat (ch\<lparr>ct_confirm := None\<rparr>) a"
  have a: "app_ok ?a" using assms(1) ok(4) by simp
  show ?thesis
  proof (cases "code = Key_Char (CHR ''y'') \<or> code = Key_Char (CHR ''Y'')")
    case True
    then have e: "confirm_key env code i ch a = dash_refresh env (act env (args (ct_actions ch ! i)) ?a)"
      by (auto simp: confirm_key_def n Let_def)
    have "asked a code (args (ct_actions ch ! i))" using assms ok True by (auto simp: asked_def)
    then show ?thesis unfolding e runs_asked_def using a by (auto simp: refresh_frame act_frame confirming_def)
  next
    case False
    then have "confirm_key env code i ch a = ?a" by (auto simp: confirm_key_def n Let_def split: key_code.split)
    then show ?thesis using a by (simp add: runs_asked_def confirming_def)
  qed
qed

lemma digit_key_ok:
  assumes "chat_ok ch" "is_digit c" "c \<noteq> CHR ''0''" "ct_confirm ch = None"
  shows "chat_ok (digit_key env c ch) \<and> (\<forall>i. ct_confirm (digit_key env c ch) = Some i \<longrightarrow> c = char_of (49 + i))"
proof -
  define i where "i = (of_char c :: nat) - 49"
  have "char_of (48 :: nat) = CHR ''0''" by code_simp
  then have "of_char c \<noteq> (48 :: nat)" using assms(3) by (metis char_of_char)
  then have "49 + i = of_char c" using assms(2) by (simp add: is_digit_def i_def)
  then have c: "c = char_of (49 + i)" by (metis char_of_char)
  have t: "chat_ok (typed c ch)" "ct_confirm (typed c ch) = None" using assms(1,4) by (simp_all add: typed_def)
  have r: "ct_confirm (run_test (de_cli env) (de_pc env) n ch) = None" for n using assms(4) by (simp add: run_test_def)
  show ?thesis
  proof (cases "nth_opt (ct_actions ch) i")
    case None
    then show ?thesis using t by (simp add: digit_key_def Let_def i_def [symmetric] nth_opt_def split: if_splits)
  next
    case (Some x)
    then have i: "i < length (ct_actions ch)" "ct_actions ch ! i = x" by (auto simp: nth_opt_Some)
    show ?thesis
    proof (cases "asks_test x")
      case True
      then obtain n where "x = Test n" by (auto simp: asks_test_def)
      then have "digit_key env c ch = run_test (de_cli env) (de_pc env) n ch" using Some by (simp add: digit_key_def Let_def i_def [symmetric])
      then show ?thesis using r run_test_ok [OF assms(1)] by simp
    next
      case False
      then have e: "digit_key env c ch = ch\<lparr>ct_confirm := Some i\<rparr>"
        using Some i(1) by (cases x) (auto simp: digit_key_def Let_def i_def [symmetric] asks_test_def)
      have "ct_streaming ch = None" using assms(1) i(1) by (cases "ct_streaming ch") (auto simp: chat_ok_def)
      then have "chat_ok (ch\<lparr>ct_confirm := Some i\<rparr>)" using assms(1) i False by (simp add: chat_ok_def)
      then show ?thesis unfolding e using c by simp
    qed
  qed
qed

lemma chat_key_effect:
  assumes "app_ok a" "ap_chat a = Some ch" "ct_confirm ch = None"
  shows "app_ok (chat_key env code ch a) \<and> ap_ran (chat_key env code ch a) = ap_ran a
    \<and> (\<forall>i. confirming (chat_key env code ch a) = Some i \<longrightarrow> code = Key_Char (char_of (49 + i)))"
proof -
  have ch: "chat_ok ch" using assms(1,2) by (simp add: app_ok_def)
  have s: "ct_confirm (send (de_cli env) (de_pc env) ch) = None" "ct_confirm (run_test (de_cli env) (de_pc env) n ch) = None" for n
    using assms(3) by (simp_all add: send_def run_test_def Let_def)
  have u: "chat_ok (ch\<lparr>ct_input := t\<rparr>)" for t using ch by simp
  have t: "chat_ok (typed c ch)" "ct_confirm (typed c ch) = None" for c using ch assms(3) by (simp_all add: typed_def)
  show ?thesis
  proof (cases code)
    case Key_Enter
    then show ?thesis using assms s u send_ok [OF ch] run_test_ok [OF ch] by (auto simp: chat_key_def confirming_def split: option.splits sum.splits)
  next
    case (Key_Char c)
    then show ?thesis using assms t digit_key_ok [OF ch _ _ assms(3), of c env] by (auto simp: chat_key_def confirming_def)
  next
    case Key_Esc
    then show ?thesis using assms(1) by (auto simp: chat_key_def app_ok_def confirming_def)
  qed (use assms u in \<open>auto simp: chat_key_def confirming_def\<close>)
qed

lemma prompt_key_effect:
  assumes "app_ok a" "ap_chat a = None" "ap_prompt a = Ask_Ban input"
  shows "app_ok (prompt_key env code input a) \<and> confirming (prompt_key env code input a) = None \<and> runs_asked env a code (prompt_key env code input a)"
proof -
  have f: "app_ok (a\<lparr>ap_prompt := p\<rparr>)" for p using assms(1) by (simp add: app_ok_def)
  show ?thesis
  proof (cases code)
    case Key_Enter
    show ?thesis
    proof (cases "src_from_str input")
      case (Some ip)
      have "asked a code [''ban'', show_src ip, ''--minutes'', ''60'']" using assms Key_Enter Some by (simp add: asked_def)
      then show ?thesis using f assms(2) by (auto simp: prompt_key_def Key_Enter Some Let_def act_frame runs_asked_def confirming_def)
    qed (use f assms(2) in \<open>simp add: prompt_key_def Key_Enter Let_def runs_asked_def confirming_def\<close>)
  qed (use f assms in \<open>auto simp: prompt_key_def runs_asked_def confirming_def\<close>)
qed

lemma unban_key_effect:
  assumes "app_ok a" "ap_chat a = None" "ap_prompt a = No_Prompt" "code = Key_Char (CHR ''u'')"
  shows "app_ok (unban_key env a) \<and> confirming (unban_key env a) = None \<and> runs_asked env a code (unban_key env a)"
proof (cases "\<exists>b. selected_ban a = Some b \<and> bv_source b \<noteq> ''config''")
  case True
  then obtain b where b: "selected_ban a = Some b" "bv_source b \<noteq> ''config''" by blast
  then have "asked a code [''unban'', bv_ip b]" using assms by (simp add: asked_def)
  then show ?thesis using assms(1,2) b by (auto simp: unban_key_def act_frame runs_asked_def confirming_def)
next
  case False
  then show ?thesis using assms(1,2) by (auto simp: unban_key_def runs_asked_def confirming_def split: option.split)
qed

lemma main_key_effect:
  assumes "app_ok a" "ap_chat a = None" "ap_prompt a = No_Prompt" "main_key env code a = Some a'"
  shows "app_ok a' \<and> confirming a' = None \<and> runs_asked env a code a'"
proof (cases "code = Key_Char (CHR ''u'') \<or> code = Key_Char (CHR ''r'')")
  case True
  have "asked a (Key_Char (CHR ''r'')) [''reload'']" using assms by (simp add: asked_def)
  then have "runs_asked env a (Key_Char (CHR ''r'')) (act env [''reload''] a)" unfolding runs_asked_def act_frame by blast
  then show ?thesis using True assms unban_key_effect [OF assms(1-3), of code env]
    by (auto simp: main_key_def Let_def act_frame confirming_def)
next
  case False
  have "a' = a\<lparr>ap_bans := de_next env (ap_bans a)\<rparr> \<or> a' = a\<lparr>ap_bans := de_previous env (ap_bans a)\<rparr> \<or> a' = a\<lparr>ap_prompt := Ask_Ban []\<rparr>
      \<or> a' = set_chat chat_default a \<or> a' = a"
    using assms(4) False by (cases code) (simp_all add: main_key_def Let_def split: if_split_asm)
  moreover have "app_ok (a\<lparr>ap_prompt := p\<rparr>)" "app_ok (a\<lparr>ap_bans := i\<rparr>)" for p i using assms(1) by (simp_all add: app_ok_def)
  moreover have "app_ok (set_chat chat_default a)" "confirming (set_chat chat_default a) = None"
    using assms(1) chat_default_ok by (simp_all add: confirming_def chat_default_def)
  ultimately show ?thesis using assms(1,2) by (elim disjE) (simp_all add: runs_asked_def confirming_def)
qed

lemma on_key_effect:
  assumes "app_ok a" "on_key env k a = Some a'"
  shows "app_ok a' \<and> runs_asked env a (ky_code k) a'
    \<and> (\<forall>i. confirming a' = Some i \<longrightarrow> (\<not> ky_press k \<and> confirming a = Some i) \<or> ky_code k = Key_Char (char_of (49 + i)))"
proof (cases "ky_press k")
  case False
  then show ?thesis using assms by (auto simp: on_key_def runs_asked_def)
next
  case True
  have q: "\<not> (ky_code k = Key_Char (CHR ''c'') \<and> ky_ctrl k)" using assms(2) True by (auto simp: on_key_def split: if_splits)
  show ?thesis
  proof (cases "ap_chat a")
    case None
    show ?thesis
    proof (cases "ap_prompt a")
      case (Ask_Ban input)
      then have "a' = prompt_key env (ky_code k) input a" using assms(2) True q None by (auto simp: on_key_def split: if_splits)
      then show ?thesis using prompt_key_effect [OF assms(1) None Ask_Ban, of env "ky_code k"] by simp
    next
      case No_Prompt
      then have "main_key env (ky_code k) a = Some a'" using assms(2) True q None by (auto simp: on_key_def split: if_splits)
      from main_key_effect [OF assms(1) None No_Prompt this] show ?thesis by simp
    qed
  next
    case (Some ch)
    show ?thesis
    proof (cases "ct_confirm ch")
      case None
      then have e: "a' = chat_key env (ky_code k) ch a" using assms(2) True q Some by (auto simp: on_key_def split: if_splits)
      show ?thesis using chat_key_effect [OF assms(1) Some None, of env "ky_code k"] unfolding e runs_asked_def by blast
    next
      case c: (Some i)
      then have "a' = confirm_key env (ky_code k) i ch a" using assms(2) True q Some by (auto simp: on_key_def split: if_splits)
      then show ?thesis using confirm_key_effect [OF assms(1) Some c, of env "ky_code k"] by simp
    qed
  qed
qed

lemma round_effect:
  assumes "app_ok a" "dash_round env k ev a = Some a'"
  shows "app_ok a' \<and> (ap_ran a' = ap_ran a \<or> (\<exists>key. ev = Pressed key \<and> runs_asked env (take_in env k a) (ky_code key) a'))
    \<and> (\<forall>i. confirming a' = Some i \<longrightarrow>
         (confirming a = Some i \<and> (\<forall>key. ev = Pressed key \<longrightarrow> \<not> ky_press key)) \<or> (\<exists>key. ev = Pressed key \<and> ky_code key = Key_Char (char_of (49 + i))))"
proof -
  note t = take_in_frame [OF assms(1), of env k]
  show ?thesis
  proof (cases ev)
    case Timeout
    then have "a' = dash_refresh env (take_in env k a)" using assms(2) by (simp add: dash_round_def)
    then show ?thesis using t Timeout by (simp add: refresh_frame confirming_def)
  next
    case (Pressed key)
    then have "on_key env key (take_in env k a) = Some a'" using assms(2) by (simp add: dash_round_def)
    from on_key_effect [OF _ this] t show ?thesis using Pressed by (auto simp: runs_asked_def)
  next
    case Other_Event
    then show ?thesis using t assms(2) by (simp add: dash_round_def)
  qed
qed

lemma loop_ok:
  assumes "app_ok a" "event_loop rounds a = (a', quit)"
  shows "app_ok a'"
  using assms
proof (induction rounds arbitrary: a)
  case (Cons r rounds)
  obtain env k ev where r: "r = (env, k, ev)" by (cases r)
  show ?case
  proof (cases "dash_round env k ev a")
    case (Some a1)
    with Cons.prems r have "event_loop rounds a1 = (a', quit)" by simp
    from round_effect [OF Cons.prems(1) Some] Cons.IH [OF _ this] show ?thesis by blast
  qed (use Cons.prems r in simp)
qed simp



lemma dash_start_ok: "app_ok (dash_start env asking)"
  unfolding dash_start_def Let_def by (rule refresh_frame) (simp add: app_ok_def chat_default_ok)

text \<open>C37: however the dashboard got where it is, whatever the model and the tests sent and however it was interleaved with the keys: what it
  offers is on the list of allowed actions, at most one question is open, to an offered action that is not a test, no action is offered
  while an answer streams, and the graphs are bounded.\<close>

theorem dashboard_stays_sound:
  assumes "dash_run env tty asking rounds = Inr (a, quit)"
  shows "pred_option chat_ok (ap_chat a) \<and> length (ap_drops a) \<le> 120 \<and> length (ap_passes a) \<le> 120"
  using loop_ok [OF dash_start_ok, of rounds env asking] assms by (auto simp: dash_run_def app_ok_def split: if_splits)

text \<open>C17: the dashboard runs nothing on its own: a round runs at most one command, and only one that was asked for with a key that was pressed
  in that round, in the state it then saw; an action of the model needs two keys in a row, its number and a yes, with no other key pressed in
  between, and is on the list of allowed actions.\<close>

theorem nothing_runs_unasked:
  assumes "dash_run env0 tty asking rounds = Inr (a, quit)" "dash_round env k ev a = Some a'"
  shows "(ap_ran a' = ap_ran a \<or> (\<exists>key cmd. ev = Pressed key \<and> asked (take_in env k a) (ky_code key) cmd
      \<and> ap_ran a' = ap_ran a @ [act_command (is_root (de_cli env)) (de_exe env) cmd]))
    \<and> (\<forall>i. confirming a' = Some i \<longrightarrow>
         (confirming a = Some i \<and> (\<forall>key. ev = Pressed key \<longrightarrow> \<not> ky_press key)) \<or> (\<exists>key. ev = Pressed key \<and> ky_code key = Key_Char (char_of (49 + i))))"
proof -
  have "app_ok a" using loop_ok [OF dash_start_ok, of rounds env0 asking] assms(1) by (auto simp: dash_run_def split: if_splits)
  note e = round_effect [OF this assms(2)]
  have "ap_ran (take_in env k a) = ap_ran a" using take_in_frame [OF \<open>app_ok a\<close>, of env k] by simp
  with e show ?thesis unfolding runs_asked_def by metis
qed


section \<open>Sessions\<close>

definition demo_dash :: "(toml_value list, string, unit) dash_env" where
  "demo_dash = \<lparr>de_cli = demo_cli_env True, de_pc = demo_pc, de_json = (\<lambda>_. None), de_next = id, de_previous = id, de_drawn = id,
     de_exe = ''/usr/bin/ai-firewall'', de_output = (\<lambda>_. Ran True [] []), de_src_error = id\<rparr>"

definition press :: "key_code \<Rightarrow> tui_event" where
  "press code = Pressed \<lparr>ky_code = code, ky_ctrl = False, ky_press = True\<rparr>"

definition r_key :: tui_event where "r_key = press (Key_Char (CHR ''r''))"

lemma demo_reload:
  "\<exists>a a'. dash_run demo_dash True False [] = Inr (a, False) \<and> dash_round demo_dash 0 r_key a = Some a'
    \<and> ap_ran a' = [[''systemctl'', ''reload'', ''ai-firewall'']]"
  by (simp add: dash_run_def dash_start_def dash_refresh_def demo_dash_def demo_cli_env_def no_sys_def dash_round_def r_key_def press_def take_in_def
      on_key_def main_key_def act_def act_command_def act_message_def is_root_def tell_def Let_def trim_def trim_by_def trim_start_by_def
      trim_end_by_def)



lemma dashboard_stays_sound_witness:
  "\<exists>a. dash_run demo_dash True True [] = Inr (a, False) \<and> pred_option chat_ok (ap_chat a)"
proof -
  obtain a where a: "dash_run demo_dash True True [] = Inr (a, False)" by (simp add: dash_run_def)
  with dashboard_stays_sound [OF a] show ?thesis by blast
qed

lemma nothing_runs_unasked_witness:
  "\<exists>a a'. dash_run demo_dash True False [] = Inr (a, False) \<and> dash_round demo_dash 0 r_key a = Some a'
    \<and> (\<exists>key cmd. r_key = Pressed key \<and> asked (take_in demo_dash 0 a) (ky_code key) cmd
      \<and> ap_ran a' = ap_ran a @ [act_command (is_root (de_cli demo_dash)) (de_exe demo_dash) cmd])"
proof -
  obtain a a' where a: "dash_run demo_dash True False [] = Inr (a, False)" "dash_round demo_dash 0 r_key a = Some a'"
      "ap_ran a' = [[''systemctl'', ''reload'', ''ai-firewall'']]" using demo_reload by blast
  have "ap_ran a = []" using a(1) by (auto simp: dash_run_def dash_start_def dash_refresh_def demo_dash_def demo_cli_env_def no_sys_def Let_def)
  with nothing_runs_unasked [OF a(1,2)] a show ?thesis by fastforce
qed


text \<open>The panel shows five of the offered actions (\<open>draw_chat\<close>), but the keys reach nine: an action that is not shown, and whose question is
  not shown, can be run.\<close>

lemma hidden_action_runs:
  assumes "ct_input ch = []" "ct_actions ch = map (Open ''tcp'') [1, 2, 3, 4, 5, 6]"
  shows "Open ''tcp'' 6 \<notin> set (shown_actions ch) \<and> ct_confirm (digit_key env (CHR ''6'') ch) = Some 5
    \<and> nth_opt (ct_actions (digit_key env (CHR ''6'') ch)) 5 = Some (Open ''tcp'' 6)"
  using assms by (simp add: shown_actions_def digit_key_def nth_opt_def Let_def)

text \<open>A worker that panics sends nothing more, and the panel waits for it for good: no question can be asked and no test run.\<close>

lemma stuck_panel:
  assumes "ct_streaming ch = Some []"
  shows "poll k ch = (ch, True)" "ct_streaming (send env c ch) = Some []" "run_test env c name ch = ch"
  using assms by (simp_all add: poll_def send_def run_test_def Let_def)

lemma worker_panics:
  assumes "offline_answer (ce_sys env) = None" "backend_of env c = Inl why"
  shows "ask_worker env c raw = []"
  using assms by (simp add: ask_worker_def)

text \<open>A question that is sent while an answer streams is thrown away.\<close>

lemma question_lost: "ct_streaming ch \<noteq> None \<Longrightarrow> send env c ch = ch\<lparr>ct_input := []\<rparr>"
  by (simp add: send_def Let_def)

text \<open>\<open>/testing\<close> is taken for the test \<open>ing\<close>.\<close>

lemma test_prefix: "typed_test (chat_default\<lparr>ct_input := ''/testing''\<rparr>) = Some (Inl (unknown_test ''ing''))"
  by (simp add: typed_test_def chat_default_def trim_def trim_by_def trim_start_by_def trim_end_by_def is_ws_def strip_prefix_def
      starts_with_def TESTS_def Let_def)

text \<open>The default palette is the one written in hexadecimal.\<close>

lemma halcyon_hex:
  "hex ''#14161f'' = Some (pl_bg halcyon_default)" "hex ''#1e2130'' = Some (pl_surface halcyon_default)"
  "hex ''#272b3d'' = Some (pl_surface_hi halcyon_default)" "hex ''#9aa9d4'' = Some (pl_accent halcyon_default)"
  "hex ''#c2add8'' = Some (pl_accent2 halcyon_default)" "hex ''#dcdde8'' = Some (pl_text halcyon_default)"
  "hex ''#9496a8'' = Some (pl_muted halcyon_default)" "hex ''#8fd6a8'' = Some (pl_good halcyon_default)"
  "hex ''#f2879b'' = Some (pl_bad halcyon_default)" "hex ''#f0c27b'' = Some (pl_warn halcyon_default)"
  by (simp_all add: hex_def strip_prefix_def starts_with_def parse_hex32_def radix_val_def to_digit_def halcyon_default_def Let_def)

end
