(* ===== verification/Spec2Isabelle.thy ===== *)
theory Spec2Isabelle
  imports Kernel_Facts Service Lifecycle Selftest_Facts Dashboard_Facts
begin

text \<open>
  ai-firewall guards a Linux machine. A program in the kernel (XDP, src/ai-firewall-ebpf/src/main.rs) decides about every packet that comes
  in, from maps that a daemon (src/ai-firewall/src/daemon.rs) fills: the open ports, rules and limits of a config file, bans, and
  blocklist feeds. The kernel sends the daemon an event for what it refuses; a detector scores the sources of these events and bans those
  that go too far. A command line, a doctor, live tests, an assistant that talks to a local model, and a dashboard look at the same files and
  maps and act on them. This library models all of these in the order in which they depend on each other, and proves what each
  guarantees and what they guarantee together.

  \<^bold>\<open>Theories and sources.\<close> All sources not named otherwise are in src/ai-firewall/src/.
  \<^item> \<open>Prelude\<close>, \<open>Strings\<close>, \<open>Text\<close>, \<open>F32\<close>: saturating and wrapping words, results with errors, hash maps as association lists, the operations of
    \<open>str\<close> the code uses, and rounding to \<open>f32\<close>. The contracts \<open>keyed_store\<close> (lookup, insert, remove) and \<open>invariant_run\<close> are locales there.
  \<^item> \<open>Common\<close> (src/ai-firewall-common/src/lib.rs): constants, the packet event, packed rates.
  \<^item> \<open>Kernel\<close>, \<open>Kernel_Facts\<close> (src/ai-firewall-ebpf/src/main.rs): \<open>try_ai_firewall\<close>, \<open>try_ipv4\<close>, \<open>try_ipv6\<close>, \<open>policy\<close>, \<open>over_rate\<close> and
    \<open>try_egress\<close> over the maps \<open>kstate\<close>. Every load is checked against the length of the packet; a load outside it is \<open>None\<close>.
  \<^item> \<open>Addr\<close> (addr.rs, with the address parsers of \<open>core::net\<close>), \<open>Config\<close> (config.rs), \<open>Posture\<close> (posture.rs).
  \<^item> \<open>Rules\<close>, \<open>Daemon\<close>, \<open>Bans\<close>, \<open>Loop\<close>, \<open>Service\<close>, \<open>Lifecycle\<close> (daemon.rs): compiling a policy, putting a config into force, the ban
    handlers, start and tick, the whole loop body with the check of VM forwarding and the end of the daemon, and a ban from packet to reboot. The
    mirroring of the kernel maps by differences is the locale \<open>mirrored\<close>, interpreted on the port arrays, the rule tries and the feed trie.
  \<^item> \<open>Detector\<close>, \<open>Scoring\<close> (detector.rs); \<open>Host\<close> (net.rs); \<open>State\<close> (state.rs); \<open>Feeds\<close> (feeds.rs); \<open>History\<close> (history.rs); \<open>Links\<close> (links.rs).
  \<^item> \<open>Nft\<close>, \<open>Doctor\<close> (doctor.rs and the status view of tui.rs); \<open>Selftest\<close>, \<open>Selftest_Facts\<close> (selftest.rs); \<open>Assistant\<close> (assistant.rs);
    \<open>Cli\<close>, \<open>Cli_Facts\<close> (main.rs); \<open>Dashboard\<close>, \<open>Dashboard_Facts\<close> (tui.rs).
  \<^item> This theory: the properties that need the kernel and user space at once.

  \<^bold>\<open>State.\<close> The kernel's maps are the record \<open>kstate\<close>; what the daemon writes and remembers of them is \<open>world\<close> (\<open>Daemon\<close>), the
  daemon's variables are \<open>dmn\<close> (\<open>Loop\<close>), what a command acts on is \<open>pc\<close> (\<open>Cli\<close>), the dashboard's is \<open>app\<close> (\<open>Dashboard\<close>). That
  kernel and daemon see the same maps is \<open>mirrors\<close> below; that they hold exactly the config the daemon goes by is \<open>policy_in_force\<close> (\<open>Loop\<close>). Operations are functions on these records; an error is an \<open>Inl\<close>, and what was
  done before it stays done; a panic is \<open>None\<close>. What may happen between two ticks of the daemon (packets, bans and unbans from the command line, edited
  files, links taken away) is the inductive relation \<open>outside\<close>; a run of the daemon is \<open>dmn_run\<close>, one in which the kernel took every config \<open>taken_run\<close>; the dashboard's workers are the messages they will send, of which any number has
  arrived when the loop looks. What the system answers (files, clocks, routes, commands, sockets) is a record given to each step, and
  arbitrary from one step to the next.

  \<^bold>\<open>Integers and text.\<close> Integers have the width of the source and wrap as in a release build; where the source saturates or checks, so does
  the model. The score is computed in \<open>f32\<close> with every rounding. Text is a list of ASCII characters.

  \<^bold>\<open>What the lemmas show.\<close>
  \<^item> The kernel program is total, its verdict on each packet is a formula (\<open>Kernel_Facts\<close>), rate windows are exact, live bans always drop.
  \<^item> Parsers and printers agree (addresses, networks, nftables rulesets, actions), and validation is what its users need: a valid config
    compiles, applies when the maps have room, and stays valid under any posture.
  \<^item> The maps hold exactly the config in force, nothing of the one before; composed with the verdict this gives what happens to a packet in
    the words of the config, and what lockdown keeps out (with strict UDP off, which it does not turn on, datagrams to high ports still get in).
  \<^item> The detector is bounded, bans nobody protected, doubles its bans; its \<open>f32\<close> score is within a proved distance of the exact one.
  \<^item> Every reachable state of the daemon keeps its invariant and, as long as no map was full, has exactly its config in the kernel; every tick goes through, a bad edit changes nothing that is in force, bans
    survive a reboot, and VM bridges that other programs cut off are let through again.
  \<^item> Without root no command changes anything, and what the dashboard runs goes to \<open>sudo -n\<close>; the assistant proposes only actions on its list, stays on
    the machine (odd brackets in the URL apart) and answers each question once, however its stream is cut; the dashboard runs nothing that was not asked for.
  \<^item> Where the code does not do what it means to, a lemma shows it: \<open>default_route_panics\<close>, \<open>rate_minutes_wrap\<close>, \<open>sync_trie_leaks\<close>,
    \<open>huge_ban_is_short\<close>, \<open>unpin_all_keeps_tc\<close>, \<open>local_host_bracket\<close>, \<open>small_letters_lost\<close>, \<open>last_proposal_printed\<close>, \<open>hidden_action_runs\<close>,
    \<open>stuck_panel\<close>, \<open>question_lost\<close>, and, in \<open>Loop\<close>, the reload that fails late.

  \<^bold>\<open>Bounds.\<close> No definition takes fuel: loops over text end by the length of what is left, loops over retries by the count the code has
  (30 attempts to attach), and the event loops are runs over a list of inputs of any length. Map capacities (16384 tracks, the sizes of the BPF
  maps) are the constants of the code. Theorems about time assume that boot time plus the ban does not exceed 64 bits in nanoseconds; what
  happens beyond is a lemma of its own (\<open>huge_ban_is_short\<close>, \<open>ban_minutes_wrap\<close>).

  \<^bold>\<open>Parameters.\<close> Code that is not in the repository is an argument with its documented laws as hypotheses: the BPF helpers (\<open>lpm_law\<close>,
  \<open>lru_law\<close>), the TOML and JSON codecs, curl, nft (\<open>nft_law\<close>), systemctl, the HTTP connection to the model, clap, and the table widget of ratatui.

  \<^bold>\<open>Not modelled.\<close> Drawing the dashboard (\<open>draw\<close> and its helpers in tui.rs, and \<open>count\<close>, a number shortened for it), since nothing depends on what
  is drawn; loading the eBPF object, signals, threads and locks (aya and tokio), whose effects are the steps of the model; the HTTP and socket
  input and output of assistant.rs and selftest.rs; the derived serialisation of the records; the log. Superseded drafts (main_v1.rs, main_v2.rs, main_v3.rs,
  lib_v1.rs), build scripts and the note src/notes/train_model.rs are not part of the program.
\<close>

section \<open>The maps the daemon writes are the maps the kernel reads\<close>

definition mirrors :: "world \<Rightarrow> kstate \<Rightarrow> bool" where
  "mirrors w s =
     (CONFIG s = w_settings w \<and> TCP_ALLOW s = km_tcp (w_maps w) \<and> UDP_ALLOW s = km_udp (w_maps w)
      \<and> ALLOW_FROM_TCP s = km_from_tcp (w_maps w) \<and> ALLOW_FROM_UDP s = km_from_udp (w_maps w)
      \<and> TCP_RATE s = km_rate (w_maps w) \<and> FEEDS s = km_feeds (w_maps w)
      \<and> BLOCKLIST s = hm_get (bl_v4 (sh_blocklist (w_shared w)))
      \<and> BLOCKLIST6 s = (case bl_v6 (sh_blocklist (w_shared w)) of Some m \<Rightarrow> hm_get m | None \<Rightarrow> Map.empty))"

definition kernel_over :: "world \<Rightarrow> kstate" where
  "kernel_over w = kempty\<lparr>CONFIG := w_settings w, TCP_ALLOW := km_tcp (w_maps w), UDP_ALLOW := km_udp (w_maps w),
     ALLOW_FROM_TCP := km_from_tcp (w_maps w), ALLOW_FROM_UDP := km_from_udp (w_maps w), TCP_RATE := km_rate (w_maps w),
     FEEDS := km_feeds (w_maps w), BLOCKLIST := hm_get (bl_v4 (sh_blocklist (w_shared w))),
     BLOCKLIST6 := (case bl_v6 (sh_blocklist (w_shared w)) of Some m \<Rightarrow> hm_get m | None \<Rightarrow> Map.empty)\<rparr>"

lemma kernel_over_mirrors: "mirrors w (kernel_over w)"
  by (simp add: mirrors_def kernel_over_def)

lemma mirrors_ban: "mirrors w s \<Longrightarrow> BLOCKLIST s ip = bl_get (sh_blocklist (w_shared w)) (V4 ip)"
  by (simp add: mirrors_def)

lemma mirrors_ban6: "mirrors w s \<Longrightarrow> BLOCKLIST6 s p = bl_get (sh_blocklist (w_shared w)) (V6 p)"
  by (simp add: mirrors_def split: option.splits)

section \<open>The policy in force\<close>

text \<open>What a policy says about a new connection or datagram, in the words of the config.\<close>

definition admits :: "policy \<Rightarrow> string \<Rightarrow> u32 \<Rightarrow> u16 \<Rightarrow> bool" where
  "admits pol proto ip p =
     ((\<exists>s \<in> set (if proto = ''tcp'' then p_allow_tcp pol else p_allow_udp pol). \<exists>a b. ports s = Inr (a, b) \<and> a \<le> p \<and> p \<le> b)
      \<or> (\<exists>r \<in> set (p_rules pol). opens proto r p \<or> (\<exists>net. opens_from proto r p net \<and> cidr_contains net ip))
      \<or> proto \<noteq> ''tcp'' \<and> (p = 68 \<or> p = 546))"

lemma in_force_admits:
  assumes "in_force c k" "compile pol = Inr c" "lpm_law (lpm_get e)"
  shows "port_open (km_tcp k) p \<or> lpm_get e (km_from_tcp k) 48 (bytes16 p @ bytes32 ip) \<longleftrightarrow> admits pol ''tcp'' ip p"
    "port_open (km_udp k) p \<or> lpm_get e (km_from_udp k) 48 (bytes16 p @ bytes32 ip) \<longleftrightarrow> admits pol ''udp'' ip p"
proof -
  have f: "port_open (km_tcp k) p \<longleftrightarrow> p \<in> set (co_tcp c)" "port_open (km_udp k) p \<longleftrightarrow> p \<in> set (co_udp c)"
    "km_from_tcp k = set (co_from_tcp c)" "km_from_udp k = set (co_from_udp c)" and l: "lpm_get e t n key = lpm_match t n key" for t n key
    using assms(1,3) by (simp_all add: in_force_def lpm_law_def)
  show "port_open (km_tcp k) p \<or> lpm_get e (km_from_tcp k) 48 (bytes16 p @ bytes32 ip) \<longleftrightarrow> admits pol ''tcp'' ip p"
    unfolding f l compile_ports(1) [OF assms(2)] compiled_from(1) [OF assms(2)] admits_def bex_disj_distrib by simp
  show "port_open (km_udp k) p \<or> lpm_get e (km_from_udp k) 48 (bytes16 p @ bytes32 ip) \<longleftrightarrow> admits pol ''udp'' ip p"
    unfolding f l compile_ports(2) [OF assms(2)] compiled_from(2) [OF assms(2)] admits_def bex_disj_distrib by auto
qed

definition limited :: "kenv \<Rightarrow> u8 list \<Rightarrow> flow \<Rightarrow> kstate \<Rightarrow> bool" where
  "limited e pkt fl s = snd (over_rate e (origin4 pkt) (fl_dst_port fl) s)"

lemma verdict_in_force:
  assumes "in_force c (w_maps w)" "compile pol = Inr c" "settings_for cfg pol eph (w_settings w)" "mirrors w s" "lpm_law (lpm_get e)" "flow4 pkt = Some fl"
  shows "(\<exists>s'. ai_firewall e pkt s = Some (s', XDP_DROP)) \<longleftrightarrow>
    banned4 e pkt s \<or> fed4 e pkt s
    \<or> enforce cfg \<and>
      (if fl_proto fl = PROTO_TCP then
         scan_flags (fl_tcp_flags fl)
         \<or> opens_connection (fl_tcp_flags fl) \<and> (\<not> admits pol ''tcp'' (ip4_src pkt) (fl_dst_port fl) \<or> limited e pkt fl s)
       else \<not> reply4 e pkt fl s \<and> \<not> (opt_or (w_settings w CFG_UDP_STRICT) 0 = 0 \<and> eph \<le> ucast (fl_dst_port fl))
         \<and> \<not> admits pol ''udp'' (ip4_src pkt) (fl_dst_port fl))"
proof -
  have m: "CONFIG s = w_settings w" "TCP_ALLOW s = km_tcp (w_maps w)" "UDP_ALLOW s = km_udp (w_maps w)"
    "ALLOW_FROM_TCP s = km_from_tcp (w_maps w)" "ALLOW_FROM_UDP s = km_from_udp (w_maps w)"
    using assms(4) by (simp_all add: mirrors_def)
  have c: "config s CFG_ENFORCE \<noteq> 0 \<longleftrightarrow> enforce cfg" "config s CFG_EPHEMERAL_LOW = eph"
    "config s CFG_UDP_STRICT = opt_or (w_settings w CFG_UDP_STRICT) 0"
    using assms(3) by (auto simp: config_def m settings_for_def bit32_def split: option.split)
  have f: "allowed_from e t (origin4 pkt) p = lpm_get e t 48 (bytes16 p @ bytes32 (ip4_src pkt))" for t p
    by (simp add: allowed_from_def origin4_def)
  note a = in_force_admits [OF assms(1,2,5), of "fl_dst_port fl" "ip4_src pkt"]
  show ?thesis
    unfolding ip4_drops [OF assms(6)] c refused_def Let_def m f limited_def a [symmetric] by auto
qed

text \<open>C1: from the config file to the wire: when a config has been put into force, the kernel drops an IPv4 packet exactly when its source
  is banned or on a feed, or the config enforces and the packet is a scan probe, or opens a connection the policy does not admit or limits,
  or is a datagram that is no reply and that the policy does not admit. Here \<open>admits\<close> speaks of the port lists, ranges and rules as they are written.\<close>

theorem config_to_wire:
  assumes "apply_config cfg pol eph w0 = (w, Inr ())" "maps_ok (w_maps w0)" "hm_ok (sh_records (w_shared w0))"
    and "mirrors w s" "lpm_law (lpm_get e)" "flow4 pkt = Some fl"
  shows "(\<exists>s'. ai_firewall e pkt s = Some (s', XDP_DROP)) \<longleftrightarrow>
    banned4 e pkt s \<or> fed4 e pkt s
    \<or> enforce cfg \<and>
      (if fl_proto fl = PROTO_TCP then
         scan_flags (fl_tcp_flags fl)
         \<or> opens_connection (fl_tcp_flags fl) \<and> (\<not> admits pol ''tcp'' (ip4_src pkt) (fl_dst_port fl) \<or> limited e pkt fl s)
       else \<not> reply4 e pkt fl s \<and> \<not> (opt_or (w_settings w CFG_UDP_STRICT) 0 = 0 \<and> eph \<le> ucast (fl_dst_port fl))
         \<and> \<not> admits pol ''udp'' (ip4_src pkt) (fl_dst_port fl))"
proof -
  obtain c where c: "compile pol = Inr c" "in_force c (w_maps w)" using apply_config_ok(1) [OF assms(1-3)] by blast
  show ?thesis by (rule verdict_in_force [OF c(2,1) apply_config_ok(3) [OF assms(1-3)] assms(4-6)])
qed

lemma config_to_wire_witness:
  "\<exists>w s'. apply_config shipped_config (policy_of shipped_config None) 32768 world0 = (w, Inr ())
    \<and> ai_firewall (env_at 7) syn22 (kernel_over w) = Some (s', XDP_DROP)"
proof -
  obtain w where w: "apply_config shipped_config (policy_of shipped_config None) 32768 world0 = (w, Inr ())" using world0_applies by blast
  have ok: "maps_ok (w_maps world0)" "hm_ok (sh_records (w_shared world0))" by (simp_all add: world0_def maps_init_ok shared_init_def)
  have "\<not> admits (policy_of shipped_config None) ''tcp'' ip 22" for ip
    by (simp add: admits_def policy_of_def shipped_config_def config_default_def)
  moreover have "enforce shipped_config" by (simp add: enforce_def shipped_config_def config_default_def default_mode_def)
  ultimately have "\<exists>s'. ai_firewall (env_at 7) syn22 (kernel_over w) = Some (s', XDP_DROP)"
    unfolding config_to_wire [OF w ok kernel_over_mirrors env_at_laws(4) syn_flow]
    by (simp add: opens_connection_def tcp_flag_defs proto_defs)
  with w show ?thesis by blast
qed

text \<open>C15: lockdown on the wire: with the lockdown posture over any config, once applied, no IPv4 or IPv6 packet with a readable header opens a TCP
  connection from outside. Of the unsolicited datagrams to other ports than the two of a DHCP client, none gets in while strict UDP is on, which is for the config to
  ask (the shipped one does) and lockdown leaves as it is; while it is off, exactly those from sources that are neither banned nor on a feed to
  the ephemeral ports do.\<close>

theorem lockdown_on_the_wire:
  assumes "po_name p = ''lockdown''" "cfg = posture_apply p c"
    and "apply_config cfg (policy_of cfg prof) eph w0 = (w, Inr ())" "maps_ok (w_maps w0)" "hm_ok (sh_records (w_shared w0))"
    and "mirrors w s" "lpm_law (lpm_get e)"
    and "flow4 pkt = Some fl \<and> reply = reply4 e pkt fl s \<or> flow6 pkt = Some fl \<and> reply = reply6 e pkt fl s"
    and "dropped = (\<exists>s'. ai_firewall e pkt s = Some (s', XDP_DROP))"
  shows "(fl_proto fl = PROTO_TCP \<and> opens_connection (fl_tcp_flags fl) \<longrightarrow> dropped)
    \<and> (fl_proto fl = PROTO_UDP \<and> \<not> reply \<and> fl_dst_port fl \<notin> {68, 546} \<longrightarrow>
        (dropped \<longleftrightarrow> opt_or (w_settings w CFG_UDP_STRICT) 0 \<noteq> 0 \<or> ucast (fl_dst_port fl) < eph
           \<or> banned4 e pkt s \<or> banned6 e pkt s \<or> fed4 e pkt s))"
proof -
  obtain k where k: "compile (policy_of cfg prof) = Inr k" "co_tcp k = []" "set (co_udp k) = {68, 546}" "co_from_tcp k = []" "co_from_udp k = []"
    and enf: "enforce cfg"
    using lockdown_compiles [OF assms(1), of c prof] by (auto simp: assms(2))
  have f: "in_force k (w_maps w)" using apply_config_ok(1) [OF assms(3-5)] k(1) by auto
  have m: "CONFIG s = w_settings w" "TCP_ALLOW s = km_tcp (w_maps w)" "UDP_ALLOW s = km_udp (w_maps w)"
    "ALLOW_FROM_TCP s = km_from_tcp (w_maps w)" "ALLOW_FROM_UDP s = km_from_udp (w_maps w)"
    using assms(6) by (simp_all add: mirrors_def)
  have settings: "config s CFG_ENFORCE \<noteq> 0" "config s CFG_EPHEMERAL_LOW = eph" "config s CFG_UDP_STRICT = opt_or (w_settings w CFG_UDP_STRICT) 0"
    using apply_config_ok(3) [OF assms(3-5)] enf by (auto simp: config_def m settings_for_def bit32_def split: option.split)
  have closed: "\<not> port_open (TCP_ALLOW s) q" "port_open (UDP_ALLOW s) q \<longleftrightarrow> q \<in> {68, 546}"
    "\<not> allowed_from e (ALLOW_FROM_TCP s) src q" "\<not> allowed_from e (ALLOW_FROM_UDP s) src q" for q src
    using f k assms(7) by (simp_all add: m in_force_def allowed_from_def lpm_law_def lpm_match_def)
  have tcp: "refused e src fl r s" if "fl_proto fl = PROTO_TCP" "opens_connection (fl_tcp_flags fl)" for src r
    using that closed by (simp add: refused_def Let_def)
  have udp: "refused e src fl r s \<longleftrightarrow> opt_or (w_settings w CFG_UDP_STRICT) 0 \<noteq> 0 \<or> ucast (fl_dst_port fl) < eph"
    if "fl_proto fl = PROTO_UDP" "\<not> r" "fl_dst_port fl \<notin> {68, 546}" for src r
    using that closed by (auto simp: refused_def Let_def settings proto_defs not_le)
  consider "flow4 pkt = Some fl" "reply = reply4 e pkt fl s" | "flow6 pkt = Some fl" "reply = reply6 e pkt fl s" using assms(8) by blast
  then show ?thesis
  proof cases
    case 1
    then have "is_ip4 pkt" by (simp add: flow4_def split: if_splits)
    then have n: "\<not> banned6 e pkt s" using is_ip4_not_6 by (simp add: banned6_def)
    show ?thesis using ip4_drops [OF 1(1)] 1(2) tcp udp n settings(1) unfolding assms(9) by metis
  next
    case 2
    then have "is_ip6 pkt" by (simp add: flow6_def split: if_splits)
    then have n: "\<not> banned4 e pkt s" "\<not> fed4 e pkt s" using is_ip4_not_6 by (auto simp: banned4_def fed4_def)
    show ?thesis using ip6_drops [OF 2(1)] 2(2) tcp udp n settings(1) unfolding assms(9) by metis
  qed
qed

lemma lockdown_on_the_wire_witness:
  "\<exists>w s'. apply_config (posture_apply \<lparr>po_name = ''lockdown'', po_lan = []\<rparr> shipped_config)
      (policy_of (posture_apply \<lparr>po_name = ''lockdown'', po_lan = []\<rparr> shipped_config) None) 32768 world0 = (w, Inr ())
    \<and> ai_firewall (env_at 7) syn22 (kernel_over w) = Some (s', XDP_DROP)"
proof -
  let ?p = "\<lparr>po_name = ''lockdown'', po_lan = []\<rparr> :: posture"
  let ?c = "posture_apply ?p shipped_config"
  have ok: "maps_ok (w_maps world0)" "hm_ok (sh_records (w_shared world0))" by (simp_all add: world0_def maps_init_ok shared_init_def)
  have "posture_validate ?p = Inr ()" by (simp add: posture_validate_iff POSTURES_def)
  then have val: "validate ?c = Inr ()" by (rule posture_apply_ok) (rule rules_default)
  obtain k where k: "compile (policy_of ?c None) = Inr k" "co_from_tcp k = []" "co_from_udp k = []"
    using lockdown_compiles [of ?p shipped_config None] by auto
  have b: "blocked_cidrs ?c = Inr []"
    by (simp add: blocked_cidrs_def posture_apply_def lockdown_def scale_detector_def shipped_config_def config_default_def Let_def)
  obtain w where w: "apply_config ?c (policy_of ?c None) 32768 world0 = (w, Inr ())"
    using apply_config_total [OF val policy_of_ok [OF val] ok(1) k(1) _ _ b] k(2,3) by (auto simp: world0_def shared_init_def)
  have "\<exists>s'. ai_firewall (env_at 7) syn22 (kernel_over w) = Some (s', XDP_DROP)"
    using lockdown_on_the_wire [OF _ HOL.refl w ok kernel_over_mirrors env_at_laws(4) disjI1 [OF conjI [OF syn_flow HOL.refl]] HOL.refl]
    by (simp add: opens_connection_def tcp_flag_defs proto_defs)
  with w show ?thesis by blast
qed

section \<open>From a packet to a ban to the wire\<close>

text \<open>C2: a source the detector bans is cut off: from the event that tips its score on, while the ban lasts, the kernel drops every IPv4 packet
  from it whatever it carries and counts it as a blocklist drop; when the ban's seconds are over the ban no longer counts.\<close>

theorem attacker_cut_off:
  assumes "observe ev (boot_secs h) (sh_detector s0) = (det, Some b)" "src_of ev = V4 ip" "sh_enforce s0"
    and "bl_insert (V4 ip) (expiry_for (boot_ns h) (ban_secs b)) (sh_blocklist s0) \<noteq> None"
    and "ban_secs b \<noteq> 0" "unat (boot_ns h) + unat (ban_secs b) * 1000000000 < 2 ^ 64"
    and "mirrors (w\<lparr>w_shared := fst (handle_event h ev (s0, lg))\<rparr>) ks" "is_ip4 pkt" "ip4_src pkt = ip"
  shows "if unat (t_ban e) < unat (boot_ns h) + unat (ban_secs b) * 1000000000
    then ai_firewall e pkt ks = Some (bump STAT_DROP_BLOCKLIST ks, XDP_DROP) else \<not> banned4 e pkt ks"
proof -
  have "ban_ip b = V4 ip" using observe_ban(1) [OF assms(1)] assms(2) by simp
  then have "bl_get (sh_blocklist (fst (handle_event h ev (s0, lg)))) (V4 ip) = Some (expiry_for (boot_ns h) (ban_secs b))"
    unfolding handle_event_ban using assms(1,3,4) by simp
  then have "BLOCKLIST ks ip = Some (expiry_for (boot_ns h) (ban_secs b))" using mirrors_ban [OF assms(7), of ip] by simp
  then have "banned4 e pkt ks \<longleftrightarrow> unat (t_ban e) < unat (boot_ns h) + unat (ban_secs b) * 1000000000"
    using ban_time [OF assms(5,6), of "t_ban e"] assms(8,9) by (simp add: banned4_def)
  then show ?thesis using ban_drops [of e pkt ks] by simp
qed

section \<open>From the command line to the wire\<close>

text \<open>C8: a ban by hand reaches the wire: once \<open>ban\<close> has returned, the kernel drops every IPv4 packet of the address, whatever it carries,
  exactly while the minutes that were given last, for ever when none were. Command and kernel share the pinned map.\<close>

theorem banned_by_hand:
  assumes "ban_cmd env (V4 ip) minutes c = Some (c', Inr 0)" "boot = boot_ns (sy_host (ce_sys env))"
    and "unat boot + unat minutes * 60000000000 < 2 ^ 64"
    and "mc_bans (pc_mc c') = Some bl" "BLOCKLIST ks = hm_get (bl_v4 bl)" "is_ip4 pkt" "ip4_src pkt = ip"
  shows "if minutes = 0 \<or> unat (t_ban e) < unat boot + unat minutes * 60000000000
    then ai_firewall e pkt ks = Some (bump STAT_DROP_BLOCKLIST ks, XDP_DROP) else \<not> banned4 e pkt ks"
proof -
  obtain bl0 where i: "bl_insert (V4 ip) (expiry_for boot (minutes * 60)) bl0 = Some bl"
    using assms(1,4) by (auto simp: ban_cmd_def as_root_def giving_up_def finish_def say_def set_bans_def assms(2) simp del: bl_insert.simps split: sum.splits option.splits)
  have "bl_get bl (V4 ip) = Some (expiry_for boot (minutes * 60))" using bl_get_insert [OF i, of "V4 ip"] by simp
  then have b: "banned4 e pkt ks \<longleftrightarrow> live (t_ban e) (Some (expiry_for boot (minutes * 60)))" using assms(5-7) by (simp add: banned4_def)
  have m: "unat (minutes * 60) = unat minutes * 60" using assms(3) by (subst unat_mult_no_wrap) simp_all
  have "banned4 e pkt ks \<longleftrightarrow> minutes = 0 \<or> unat (t_ban e) < unat boot + unat minutes * 60000000000"
  proof (cases "minutes = 0")
    case True
    then show ?thesis unfolding b by (simp add: expiry_for_def live_def BAN_FOREVER_def)
  next
    case False
    then have "minutes * 60 \<noteq> 0" using m by (auto simp: unat_eq_0 simp flip: unat_eq_zero)
    from ban_time [OF this, of boot "t_ban e"] show ?thesis unfolding b using assms(3) m False by (simp add: mult.assoc)
  qed
  then show ?thesis using ban_drops [of e pkt ks] by auto
qed

lemma banned_by_hand_witness:
  "\<exists>c' bl. ban_cmd (demo_cli_env True) (V4 0x0a000005) 60 demo_pc = Some (c', Inr 0) \<and> mc_bans (pc_mc c') = Some bl
    \<and> (let ks = kempty\<lparr>BLOCKLIST := hm_get (bl_v4 bl)\<rparr> in
        ai_firewall (env_at 7) (frame4 0x0a000005 0x0A000001 6 (tcp_seg 40000 22 2)) ks = Some (bump STAT_DROP_BLOCKLIST ks, XDP_DROP))"
proof -
  let ?pkt = "frame4 0x0a000005 0x0A000001 6 (tcp_seg 40000 22 2)"
  have pkt: "is_ip4 ?pkt" "ip4_src ?pkt = 0x0a000005" by code_simp+
  obtain c' where c: "ban_cmd (demo_cli_env True) (V4 0x0a000005) 60 demo_pc = Some (c', Inr 0)"
    by (simp add: ban_cmd_def as_root_def need_root_def is_root_def demo_cli_env_def pinned_bans_def demo_pc_def open_pinned_blocklist_def
        hash_insert_def BLOCKLIST_ENTRIES_def finish_def)
  obtain bl where bl: "mc_bans (pc_mc c') = Some bl"
    using c by (auto simp: ban_cmd_def as_root_def giving_up_def finish_def say_def set_bans_def split: sum.splits option.splits)
  have boot: "boot_ns (sy_host (ce_sys (demo_cli_env True))) = 1000000000000" by (simp add: boot_ns_def demo_cli_env_def demo_host_def)
  let ?ks = "kempty\<lparr>BLOCKLIST := hm_get (bl_v4 bl)\<rparr>"
  have "ai_firewall (env_at 7) ?pkt ?ks = Some (bump STAT_DROP_BLOCKLIST ?ks, XDP_DROP)"
    using banned_by_hand [OF c HOL.refl _ bl _ pkt, of ?ks "env_at 7"] boot by (simp add: env_at_times)
  with c bl show ?thesis by (auto simp: Let_def)
qed

section \<open>The lifeline\<close>

text \<open>The host's own addresses, its gateway and its name servers: once the protection is refreshed, no batch of events, whatever the packets in
  it, makes the kernel treat them as banned, and an automatic ban they were under is gone.\<close>

definition batches :: "(host \<times> packet_event list) list \<Rightarrow> shared \<Rightarrow> shared" where
  "batches bs s = fold (\<lambda>(h, es) s. fst (handle_batch h es s)) bs s"

lemma handle_batch_protected:
  "is_protected (sh_detector (fst (handle_batch h es s))) x = is_protected (sh_detector s) x"
proof -
  have "is_protected (sh_detector (fst (fold (handle_event h) es st))) x = is_protected (sh_detector (fst st)) x" for st
    by (induction es arbitrary: st) (simp_all add: handle_event_effect)
  then show ?thesis by (simp add: handle_batch_def)
qed

lemma batches_protected: "is_protected (sh_detector s) x \<Longrightarrow> bl_get (sh_blocklist (batches bs s)) x = bl_get (sh_blocklist s) x"
proof (induction bs arbitrary: s)
  case (Cons b bs)
  obtain h es where b: "b = (h, es)" by (cases b)
  have "bl_get (sh_blocklist (fst (handle_batch h es s))) x = bl_get (sh_blocklist s) x"
    using batch_effect [of h es "(s, [])" x] Cons.prems by (auto simp: handle_batch_def)
  moreover have "is_protected (sh_detector (fst (handle_batch h es s))) x" using Cons.prems by (simp add: handle_batch_protected)
  ultimately show ?case using Cons.IH [of "fst (handle_batch h es s)"] by (simp add: batches_def b)
qed (simp add: batches_def)

theorem lifeline_stays:
  assumes "refresh_protection cfg h s = Some s'" "hm_ok (sh_records s)" "host_source h ip"
    and "bl_get (sh_blocklist s) (V4 ip) = None \<or> (\<exists>r. hm_get (sh_records s) (V4 ip) = Some r \<and> br_source r = ''auto'')"
    and "mirrors (w\<lparr>w_shared := batches bs s'\<rparr>) ks" "is_ip4 pkt" "ip4_src pkt = ip"
  shows "\<not> banned4 e pkt ks"
proof -
  obtain own where own: "auto_protected h = Some own" "dt_protected (sh_detector s') = own @ trusted_or_none cfg"
    using refresh_lifts [OF assms(1,2)] by blast
  have p: "is_protected (sh_detector s') (V4 ip)"
    using auto_protected_covers [OF own(1) assms(3)] own(2) by (auto simp: list_ex_iff)
  have "bl_get (sh_blocklist s') (V4 ip) = None"
    using refresh_lifts [OF assms(1,2), of "V4 ip"] p assms(4) by (auto simp: Let_def split: if_splits)
  then have "BLOCKLIST ks ip = None"
    using mirrors_ban [OF assms(5), of ip] batches_protected [OF p, of bs] by simp
  then show ?thesis using assms(7) by (simp add: banned4_def live_def)
qed

lemma first_ban:
  assumes "observe ev now d = (d', Some b)" "dt_offenders d = []" "dt_bans d = ban_default"
  shows "ban_secs b = 120"
  using assms by (auto simp: observe_def escalate_def Let_def prune_def hm_retain_def sat_mul_def sat_sub_def ban_default_def split: if_splits)

lemma attacker_cut_off_witness:
  "\<exists>det b ks. observe (syn_event 22) (boot_secs demo_host) (sh_detector noisy) = (det, Some b)
     \<and> ai_firewall ((env_at 7)\<lparr>t_ban := boot_ns demo_host\<rparr>) (frame4 0x0a000005 0x0A000001 6 (tcp_seg 40000 22 2)) ks
       = Some (bump STAT_DROP_BLOCKLIST ks, XDP_DROP)"
proof -
  let ?pkt = "frame4 0x0a000005 0x0A000001 6 (tcp_seg 40000 22 2)"
  have boot: "boot_secs demo_host = 1000" "boot_ns demo_host = 1000000000000" by (simp_all add: boot_secs_def boot_ns_def demo_host_def)
  obtain det b where o: "observe (syn_event 22) (boot_secs demo_host) (sh_detector noisy) = (det, Some b)"
    using noisy_banned unfolding boot by blast
  have n: "sh_enforce noisy" "sh_blocklist noisy = \<lparr>bl_v4 = [], bl_v6 = Some []\<rparr>" "dt_bans (sh_detector noisy) = ban_default"
    "dt_offenders (sh_detector noisy) = []"
    by (simp_all add: noisy_def shared0_def shared_init_def enforce_def shipped_config_def config_default_def default_mode_def detector_new_def)
  have secs: "ban_secs b = 120"
    by (rule first_ban [OF o n(4,3)])
  then have s: "ban_secs b \<noteq> 0" "unat (boot_ns demo_host) + unat (ban_secs b) * 1000000000 < 2 ^ 64"
    by (simp_all add: boot)
  have pkt: "is_ip4 ?pkt" "ip4_src ?pkt = 0x0a000005" by code_simp+
  have room: "bl_insert (V4 0x0a000005) (expiry_for (boot_ns demo_host) (ban_secs b)) (sh_blocklist noisy) \<noteq> None"
    by (simp add: n(2) hash_insert_def BLOCKLIST_ENTRIES_def)
  have "ai_firewall ((env_at 7)\<lparr>t_ban := boot_ns demo_host\<rparr>) ?pkt (kernel_over (world0\<lparr>w_shared := fst (handle_event demo_host (syn_event 22) (noisy, []))\<rparr>))
      = Some (bump STAT_DROP_BLOCKLIST (kernel_over (world0\<lparr>w_shared := fst (handle_event demo_host (syn_event 22) (noisy, []))\<rparr>)), XDP_DROP)"
    using attacker_cut_off [OF o syn_event_src n(1) room s kernel_over_mirrors pkt, of "(env_at 7)\<lparr>t_ban := boot_ns demo_host\<rparr>"] secs
    by simp
  with o show ?thesis by blast
qed

lemma lifeline_stays_witness:
  "\<exists>s'. refresh_protection shipped_config demo_host auto_banned = Some s'
    \<and> \<not> banned4 (env_at 7) (frame4 0x09090909 0x0A000001 6 (tcp_seg 40000 22 2))
          (kernel_over (world0\<lparr>w_shared := batches [(demo_host, [syn_event 22])] s'\<rparr>))"
proof -
  let ?pkt = "frame4 0x09090909 0x0A000001 6 (tcp_seg 40000 22 2)"
  obtain s' where s': "refresh_protection shipped_config demo_host auto_banned = Some s'"
    using refresh_total [of demo_host shipped_config auto_banned] demo_host_facts(1) by auto
  have p: "is_ip4 ?pkt" "ip4_src ?pkt = 0x09090909" by code_simp+
  have "\<not> banned4 (env_at 7) ?pkt (kernel_over (world0\<lparr>w_shared := batches [(demo_host, [syn_event 22])] s'\<rparr>))"
    by (rule lifeline_stays [OF s' _ demo_host_facts(3) _ kernel_over_mirrors p]) (simp_all add: auto_banned_def)
  with s' show ?thesis by blast
qed

end
